(* ===== verification/Prelude.thy ===== *)
theory Prelude
  imports Main "HOL-Library.Word"
begin

text \<open>
  What every component shares: the machine types, the faults an execution can end in, the
  error-or-state computations that model C++ and Rust functions with effects, the Rust
  allocator (\<open>Box::into_raw\<close>, \<open>&*p\<close>, \<open>Box::from_raw\<close>) and the storage of C++ objects.

  A C++ or Rust function with effects is a value of type \<open>('w, 'a) cm\<close>: from a world it either
  ends in a fault or returns a value and a new world. Undefined behaviour (a null, dangling or
  out-of-bounds access, a double free, the use of an object that is not alive), a Rust panic, an
  abort, a failed \<open>assert\<close> and a C++ exception are all faults, so that an operation proved
  to return has none of them.
\<close>

subsection \<open>Machine types\<close>

type_synonym ptr = nat
type_synonym oid = nat
type_synonym byte = "8 word"
type_synonym bytes = "byte list"
type_synonym u16 = "16 word"
type_synonym u32 = "32 word"
type_synonym u64 = "64 word"
type_synonym usize = "64 word"

text \<open>The null pointer. The allocator never returns it.\<close>

abbreviation (input) null :: ptr where
  "null \<equiv> 0"

text \<open>A string literal of the source as the bytes it stands for.\<close>

definition bs :: "string \<Rightarrow> bytes" where
  "bs s = map of_char s"

text \<open>Rust and C++ lengths fit a 64-bit \<open>size_t\<close>.\<close>

definition fits64 :: "bytes \<Rightarrow> bool" where
  "fits64 b \<longleftrightarrow> length b < 2 ^ 64"

lemma fits64_unat [simp]: "fits64 b \<Longrightarrow> unat (of_nat (length b) :: u64) = length b"
  by (simp add: fits64_def unat_of_nat)

lemma fits64_zero [simp]: "fits64 b \<Longrightarrow> of_nat (length b) = (0 :: u64) \<longleftrightarrow> b = []"
  using fits64_unat [of b] by (auto simp del: fits64_unat simp flip: unat_eq_0)

subsection \<open>Faults and computations\<close>

datatype ub =
    NullDeref
  | UseAfterFree
  | DoubleFree
  | DeadObject
  | OutOfBounds

datatype fault =
    UB ub
  | Panic string
  | Abort string
  | AssertFail string
  | Throw string

type_synonym ('w, 'a) cm = "'w \<Rightarrow> fault + 'a \<times> 'w"

definition ret :: "'a \<Rightarrow> ('w, 'a) cm" where
  "ret a = (\<lambda>w. Inr (a, w))"

definition fail :: "fault \<Rightarrow> ('w, 'a) cm" where
  "fail e = (\<lambda>w. Inl e)"

definition bnd :: "('w, 'a) cm \<Rightarrow> ('a \<Rightarrow> ('w, 'b) cm) \<Rightarrow> ('w, 'b) cm" where
  "bnd m f = (\<lambda>w. case m w of Inl e \<Rightarrow> Inl e | Inr (a, w') \<Rightarrow> f a w')"

text \<open>\<open>sq\<close> is the semicolon, \<open>whenM\<close> an \<open>if\<close> without an else.\<close>

definition sq :: "('w, 'a) cm \<Rightarrow> ('w, 'b) cm \<Rightarrow> ('w, 'b) cm" where
  "sq m n = bnd m (\<lambda>_. n)"

definition whenM :: "bool \<Rightarrow> ('w, unit) cm \<Rightarrow> ('w, unit) cm" where
  "whenM c m = (if c then m else ret ())"

definition gets :: "('w \<Rightarrow> 'a) \<Rightarrow> ('w, 'a) cm" where
  "gets f = (\<lambda>w. Inr (f w, w))"

definition modify :: "('w \<Rightarrow> 'w) \<Rightarrow> ('w, unit) cm" where
  "modify f = (\<lambda>w. Inr ((), f w))"

text \<open>\<open>assert\<close> in a build with assertions enabled.\<close>

definition assertM :: "bool \<Rightarrow> string \<Rightarrow> ('w, unit) cm" where
  "assertM c msg = (if c then ret () else fail (AssertFail msg))"

text \<open>\<open>Option::expect\<close>: the value, or a panic with the message.\<close>

definition expect :: "'a option \<Rightarrow> string \<Rightarrow> ('w, 'a) cm" where
  "expect x msg = (case x of None \<Rightarrow> fail (Panic msg) | Some a \<Rightarrow> ret a)"

text \<open>
  Execution lemmas: with these in the simpset a computation whose guards are decided runs
  symbolically.
\<close>

named_theorems cm_simps \<open>execution of computations\<close>

lemma ret_run [cm_simps, simp]: "ret a w = Inr (a, w)"
  by (simp add: ret_def)

lemma fail_run [cm_simps, simp]: "fail e w = Inl e"
  by (simp add: fail_def)

lemma gets_run [cm_simps, simp]: "gets f w = Inr (f w, w)"
  by (simp add: gets_def)

lemma modify_run [cm_simps, simp]: "modify f w = Inr ((), f w)"
  by (simp add: modify_def)

lemma bnd_run [cm_simps]: "bnd m f w = (case m w of Inl e \<Rightarrow> Inl e | Inr (a, w') \<Rightarrow> f a w')"
  by (simp add: bnd_def)

lemma sq_run [cm_simps]: "sq m n w = (case m w of Inl e \<Rightarrow> Inl e | Inr (a, w') \<Rightarrow> n w')"
  by (simp add: sq_def bnd_def)

lemma whenM_run [cm_simps]: "whenM c m w = (if c then m w else Inr ((), w))"
  by (simp add: whenM_def)

lemma assertM_run [cm_simps]:
  "assertM c msg w = (if c then Inr ((), w) else Inl (AssertFail msg))"
  by (simp add: assertM_def)

lemma expect_run [cm_simps]:
  "expect x msg w = (case x of None \<Rightarrow> Inl (Panic msg) | Some a \<Rightarrow> Inr (a, w))"
  by (simp add: expect_def split: option.splits)

lemma bnd_Inr: "m w = Inr (a, w') \<Longrightarrow> bnd m f w = f a w'"
  by (simp add: bnd_def)

lemma bnd_Inl: "m w = Inl e \<Longrightarrow> bnd m f w = Inl e"
  by (simp add: bnd_def)

lemma sq_Inr: "m w = Inr (a, w') \<Longrightarrow> sq m n w = n w'"
  by (simp add: sq_def bnd_def)

lemma bnd_assoc: "bnd (bnd m f) g = bnd m (\<lambda>a. bnd (f a) g)"
  by (auto simp: bnd_def fun_eq_iff split: sum.splits)

lemma bnd_ret [simp]: "bnd (ret a) f = f a"
  by (simp add: bnd_def ret_def)

lemma ret_bnd [simp]: "bnd m ret = m"
  by (auto simp: bnd_def ret_def fun_eq_iff split: sum.splits)

lemma bnd_split_Inr:
  "bnd m f w = Inr (b, w'') \<longleftrightarrow> (\<exists>a w'. m w = Inr (a, w') \<and> f a w' = Inr (b, w''))"
  by (auto simp: bnd_def split: sum.splits)

text \<open>\<open>Poll\<close> of a Rust future: not ready yet, or its value.\<close>

datatype 'a poll = Pending | Ready 'a

subsection \<open>The Rust allocator\<close>

text \<open>
  Every world extends \<open>mem\<close>; each kind of heap object has a component of its own in the
  extension, a map from addresses to the boxes alive there, and all kinds draw their addresses
  from \<open>brk\<close>, so that no two boxes of any kind share an address. An address is not reused
  after a free: a dangling access is the fault \<open>UseAfterFree\<close> and not an access to a younger
  box.
\<close>

record mem =
  brk :: ptr

text \<open>\<open>Box::into_raw(Box::new(b))\<close>.\<close>

definition box_into_raw ::
    "(((ptr \<rightharpoonup> 'b) \<Rightarrow> (ptr \<rightharpoonup> 'b)) \<Rightarrow> 'z mem_scheme \<Rightarrow> 'z mem_scheme) \<Rightarrow> 'b
      \<Rightarrow> ('z mem_scheme, ptr) cm" where
  "box_into_raw upd b =
     (\<lambda>w. Inr (brk w, upd (\<lambda>h. h(brk w \<mapsto> b)) (w\<lparr>brk := Suc (brk w)\<rparr>)))"

text \<open>\<open>&*p\<close> and \<open>&mut *p\<close>.\<close>

definition deref :: "('w \<Rightarrow> ptr \<rightharpoonup> 'b) \<Rightarrow> ptr \<Rightarrow> ('w, 'b) cm" where
  "deref h p =
     (\<lambda>w. if p = null then Inl (UB NullDeref)
          else case h w p of None \<Rightarrow> Inl (UB UseAfterFree) | Some b \<Rightarrow> Inr (b, w))"

text \<open>A store through \<open>&mut *p\<close>, after the dereference.\<close>

definition store :: "(((ptr \<rightharpoonup> 'b) \<Rightarrow> (ptr \<rightharpoonup> 'b)) \<Rightarrow> 'w \<Rightarrow> 'w) \<Rightarrow> ptr \<Rightarrow> 'b \<Rightarrow> ('w, unit) cm" where
  "store upd p b = modify (upd (\<lambda>h. h(p \<mapsto> b)))"

text \<open>\<open>Box::from_raw(p)\<close>: the caller owns the box; the address is no longer alive.\<close>

definition box_from_raw ::
    "('w \<Rightarrow> ptr \<rightharpoonup> 'b) \<Rightarrow> (((ptr \<rightharpoonup> 'b) \<Rightarrow> (ptr \<rightharpoonup> 'b)) \<Rightarrow> 'w \<Rightarrow> 'w) \<Rightarrow> ptr \<Rightarrow> ('w, 'b) cm" where
  "box_from_raw h upd p =
     (\<lambda>w. if p = null then Inl (UB NullDeref)
          else case h w p of None \<Rightarrow> Inl (UB DoubleFree)
               | Some b \<Rightarrow> Inr (b, upd (\<lambda>m. m(p := None)) w))"

lemma box_into_raw_run [cm_simps]:
  "box_into_raw upd b w = Inr (brk w, upd (\<lambda>h. h(brk w \<mapsto> b)) (w\<lparr>brk := Suc (brk w)\<rparr>))"
  by (simp add: box_into_raw_def)

lemma deref_run [cm_simps]:
  "deref h p w = (if p = null then Inl (UB NullDeref)
     else case h w p of None \<Rightarrow> Inl (UB UseAfterFree) | Some b \<Rightarrow> Inr (b, w))"
  by (simp add: deref_def)

lemma store_run [cm_simps]: "store upd p b w = Inr ((), upd (\<lambda>h. h(p \<mapsto> b)) w)"
  by (simp add: store_def)

lemma box_from_raw_run [cm_simps]:
  "box_from_raw h upd p w = (if p = null then Inl (UB NullDeref)
     else case h w p of None \<Rightarrow> Inl (UB DoubleFree)
          | Some b \<Rightarrow> Inr (b, upd (\<lambda>m. m(p := None)) w))"
  by (simp add: box_from_raw_def)

text \<open>A heap component is well formed when its boxes lie between null and the break.\<close>

definition heap_ok :: "(ptr \<rightharpoonup> 'b) \<Rightarrow> ptr \<Rightarrow> bool" where
  "heap_ok h b \<longleftrightarrow> 0 < b \<and> (\<forall>p. h p \<noteq> None \<longrightarrow> 0 < p \<and> p < b)"

lemma heap_okD: "heap_ok h b \<Longrightarrow> h p = Some x \<Longrightarrow> 0 < p \<and> p < b"
  by (auto simp: heap_ok_def)

lemma heap_ok_null: "heap_ok h b \<Longrightarrow> h null = None"
  by (auto simp: heap_ok_def)

lemma heap_ok_fresh: "heap_ok h b \<Longrightarrow> h b = None"
  by (auto simp: heap_ok_def)

lemma heap_ok_pos: "heap_ok h b \<Longrightarrow> 0 < b"
  by (simp add: heap_ok_def)

lemma heap_ok_Suc: "heap_ok h b \<Longrightarrow> heap_ok h (Suc b)"
  by (auto simp: heap_ok_def less_Suc_eq)

lemma heap_ok_new: "heap_ok h b \<Longrightarrow> heap_ok (h(b \<mapsto> x)) (Suc b)"
  by (auto simp: heap_ok_def less_Suc_eq)

lemma heap_ok_free: "heap_ok h b \<Longrightarrow> heap_ok (h(p := None)) b"
  by (simp add: heap_ok_def)

lemma heap_ok_store: "heap_ok h b \<Longrightarrow> h p \<noteq> None \<Longrightarrow> heap_ok (h(p \<mapsto> x)) b"
  by (auto simp: heap_ok_def)

lemma heap_ok_empty: "heap_ok Map.empty b \<longleftrightarrow> 0 < b"
  by (simp add: heap_ok_def)

lemmas heap_ok_intros = heap_ok_new heap_ok_free heap_ok_store heap_ok_Suc

subsection \<open>C++ objects\<close>

text \<open>
  The live objects of a class are a map from object identities (the address of the object,
  \<open>this\<close>) to their members. Reading a member of an object that is not alive is undefined
  behaviour.
\<close>

definition obj_get :: "('w \<Rightarrow> oid \<rightharpoonup> 'm) \<Rightarrow> oid \<Rightarrow> ('w, 'm) cm" where
  "obj_get c i = (\<lambda>w. case c w i of None \<Rightarrow> Inl (UB DeadObject) | Some m \<Rightarrow> Inr (m, w))"

text \<open>Writing the members, and the start of the lifetime of a constructed object.\<close>

definition obj_put :: "(((oid \<rightharpoonup> 'm) \<Rightarrow> (oid \<rightharpoonup> 'm)) \<Rightarrow> 'w \<Rightarrow> 'w) \<Rightarrow> oid \<Rightarrow> 'm \<Rightarrow> ('w, unit) cm" where
  "obj_put upd i m = modify (upd (\<lambda>c. c(i \<mapsto> m)))"

text \<open>The end of an object's lifetime, after the body of its destructor.\<close>

definition obj_end :: "(((oid \<rightharpoonup> 'm) \<Rightarrow> (oid \<rightharpoonup> 'm)) \<Rightarrow> 'w \<Rightarrow> 'w) \<Rightarrow> oid \<Rightarrow> ('w, unit) cm" where
  "obj_end upd i = modify (upd (\<lambda>c. c(i := None)))"

lemma obj_get_run [cm_simps]:
  "obj_get c i w = (case c w i of None \<Rightarrow> Inl (UB DeadObject) | Some m \<Rightarrow> Inr (m, w))"
  by (simp add: obj_get_def)

lemma obj_put_run [cm_simps]: "obj_put upd i m w = Inr ((), upd (\<lambda>c. c(i \<mapsto> m)) w)"
  by (simp add: obj_put_def)

lemma obj_end_run [cm_simps]: "obj_end upd i w = Inr ((), upd (\<lambda>c. c(i := None)) w)"
  by (simp add: obj_end_def)

end
