(* ===== verification/Handles.thy ===== *)
theory Handles
  imports Prelude
begin

text \<open>
  Every C++ class of the library that wraps a raw pointer of the Rust side follows one idiom: the
  member is null or stands for one reference to a box, the move operations transfer that
  reference and leave null behind, the destructor gives it back through a delete function of the
  C API, and the copy operations obtain a new reference through a clone function. This theory
  states the idiom once: the reference-counting invariant that ties the references the Rust side
  counts to the objects that hold them, the contract of a class as a locale (what its delete and
  clone functions do to the references, that its special member functions follow the idiom), and
  the theorem that every well-scoped program over the objects of such a class runs without a
  fault and keeps the invariant. The classes of the other theories interpret the locales.
\<close>

subsection \<open>How many objects hold a pointer\<close>

definition holds :: "(oid \<rightharpoonup> ptr) \<Rightarrow> ptr \<Rightarrow> nat" where
  "holds m p = card {i. m i = Some p}"

lemma finite_holders [simp]: "finite (dom m) \<Longrightarrow> finite {i. m i = Some p}"
  by (rule finite_subset [of _ "dom m"]) auto

lemma holds_empty [simp]: "holds Map.empty p = 0"
  by (simp add: holds_def)

lemma card_without: "finite A \<Longrightarrow> card (A - {i}) + (if i \<in> A then 1 else 0) = card A"
  using card_Suc_Diff1 [of A i] by (cases "i \<in> A") simp_all

lemma holders_update:
  "{j. (m(i := x)) j = Some p} = {j. m j = Some p} - {i} \<union> (if x = Some p then {i} else {})"
  by auto

lemma holds_update:
  assumes "finite (dom m)"
  shows "holds (m(i := x)) p + (if m i = Some p then 1 else 0)
       = holds m p + (if x = Some p then 1 else 0)"
proof -
  let ?A = "{j. m j = Some p}"
  have fin: "finite ?A" using assms by simp
  have "holds (m(i := x)) p = card (?A - {i}) + (if x = Some p then 1 else 0)"
    unfolding holds_def holders_update using fin by (simp add: card_Un_disjoint)
  moreover have "card (?A - {i}) + (if m i = Some p then 1 else 0) = card ?A"
    using card_without [OF fin, of i] by simp
  ultimately show ?thesis by (auto simp: holds_def)
qed

lemma holds_new: "finite (dom m) \<Longrightarrow> m i = None \<Longrightarrow>
    holds (m(i \<mapsto> q)) p = holds m p + (if q = p then 1 else 0)"
  using holds_update [of m i "Some q" p] by simp

lemma holds_pos: "finite (dom m) \<Longrightarrow> m i = Some p \<Longrightarrow> 0 < holds m p"
  by (auto simp: holds_def card_gt_0_iff)

lemma holds_two:
  assumes "finite (dom m)" "m i = Some p" "m j = Some p" "i \<noteq> j"
  shows "2 \<le> holds m p"
proof -
  have "0 < holds (m(i := None)) p"
    using assms by (intro holds_pos [of _ j]) auto
  then show ?thesis
    using holds_update [OF assms(1), of i None p] assms(2) by simp
qed

subsection \<open>The reference-counting invariant\<close>

text \<open>
  \<open>refs p\<close> is what the Rust side counts for the box at \<open>p\<close> (0 when there is none),
  \<open>m\<close> the objects of a class with their pointers and \<open>ext\<close> the references held elsewhere:
  by objects of another class or by a raw pointer that no object has adopted yet.
\<close>

definition ref_inv :: "(ptr \<Rightarrow> nat) \<Rightarrow> (oid \<rightharpoonup> ptr) \<Rightarrow> (ptr \<Rightarrow> nat) \<Rightarrow> bool" where
  "ref_inv refs m ext \<longleftrightarrow>
     finite (dom m) \<and> refs null = 0 \<and> (\<forall>p. p \<noteq> null \<longrightarrow> refs p = holds m p + ext p)"

lemma ref_invD:
  assumes "ref_inv refs m ext"
  shows "finite (dom m)" "refs null = 0" "p \<noteq> null \<Longrightarrow> refs p = holds m p + ext p"
  using assms by (auto simp: ref_inv_def)

lemma ref_inv_live:
  "ref_inv refs m ext \<Longrightarrow> m i = Some p \<Longrightarrow> p \<noteq> null \<Longrightarrow> 0 < refs p"
  using holds_pos [of m i p] by (auto simp: ref_inv_def)

lemma ref_inv_shared:
  "ref_inv refs m ext \<Longrightarrow> m i = Some p \<Longrightarrow> m j = Some p \<Longrightarrow> i \<noteq> j \<Longrightarrow> p \<noteq> null \<Longrightarrow> 2 \<le> refs p"
  using holds_two [of m i p j] by (auto simp: ref_inv_def)

text \<open>With no object and no raw reference left, every box has been freed.\<close>

lemma ref_inv_no_leak:
  "ref_inv refs m ext \<Longrightarrow> dom m = {} \<Longrightarrow> (\<And>p. ext p = 0) \<Longrightarrow> refs p = 0"
  by (cases "p = null") (auto simp: ref_inv_def)

text \<open>An object's pointer replaced, with the references adjusted accordingly.\<close>

lemma ref_inv_update:
  assumes "ref_inv refs m ext" "refs' null = 0"
    and "\<And>p. p \<noteq> null \<Longrightarrow>
      refs' p + (if m i = Some p then 1 else 0) + ext p = refs p + (if x = Some p then 1 else 0) + ext' p"
  shows "ref_inv refs' (m(i := x)) ext'"
proof -
  have fin: "finite (dom m)" using assms(1) by (simp add: ref_inv_def)
  have "refs' p = holds (m(i := x)) p + ext' p" if "p \<noteq> null" for p
    using holds_update [OF fin, of i x p] ref_invD(3) [OF assms(1) that] assms(3) [OF that]
    by (auto split: if_splits)
  then show ?thesis using fin assms(2) by (simp add: ref_inv_def)
qed

lemma ref_inv_move:
  assumes "ref_inv refs m ext" "m j = Some q" "i \<noteq> j" "m i = None \<or> m i = Some null"
  shows "ref_inv refs (m(i \<mapsto> q, j \<mapsto> null)) ext"
proof -
  have fin: "finite (dom m)" using assms(1) by (simp add: ref_inv_def)
  have "holds (m(i \<mapsto> q, j \<mapsto> null)) p = holds m p" if "p \<noteq> null" for p
  proof -
    have "holds (m(i \<mapsto> q)) p = holds m p + (if q = p then 1 else 0)"
      using holds_update [OF fin, of i "Some q" p] assms(4) that by auto
    moreover have "holds (m(i \<mapsto> q, j \<mapsto> null)) p + (if q = p then 1 else 0) = holds (m(i \<mapsto> q)) p"
      using holds_update [of "m(i \<mapsto> q)" j "Some null" p] fin assms(2,3) that by auto
    ultimately show ?thesis by simp
  qed
  then show ?thesis using assms(1) fin by (simp add: ref_inv_def)
qed

subsection \<open>The idiom\<close>

text \<open>
  The special member functions of a class whose only member is the raw pointer, over the objects
  \<open>c\<close> of the class, the delete function \<open>del\<close> of the C API and, for a copyable class, what
  its copy operations do with the pointer they copy (\<open>cp\<close>).
\<close>

definition idiom_move_ctor where
  "idiom_move_ctor c upd this other =
     bnd (obj_get c other) (\<lambda>q. sq (obj_put upd this q) (obj_put upd other null))"

definition idiom_dtor where
  "idiom_dtor c upd del this =
     bnd (obj_get c this) (\<lambda>p. sq (whenM (p \<noteq> null) (del p)) (obj_end upd this))"

definition idiom_move_assign where
  "idiom_move_assign c upd del this other =
     (if this = other then ret ()
      else bnd (obj_get c this) (\<lambda>p.
           sq (whenM (p \<noteq> null) (del p))
           (bnd (obj_get c other) (\<lambda>q. sq (obj_put upd this q) (obj_put upd other null)))))"

definition idiom_copy_ctor where
  "idiom_copy_ctor c upd cp this other =
     bnd (obj_get c other) (\<lambda>q. bnd (cp q) (\<lambda>r. obj_put upd this r))"

definition idiom_copy_assign where
  "idiom_copy_assign c upd del cp this other =
     (if this = other then ret ()
      else bnd (obj_get c this) (\<lambda>p.
           sq (whenM (p \<noteq> null) (del p))
           (bnd (obj_get c other) (\<lambda>q. bnd (cp q) (\<lambda>r. obj_put upd this r)))))"

lemmas idiom_defs = idiom_move_ctor_def idiom_dtor_def idiom_move_assign_def
  idiom_copy_ctor_def idiom_copy_assign_def

subsection \<open>Programs over the objects of a class, and when they are well scoped\<close>

text \<open>
  A program is a list of operations on objects: adopting a raw pointer handed out by the Rust
  side, the five special member functions. \<open>scope\<close> is an abstract lifetime check: it knows
  only which objects are alive, whether each holds a pointer or null, and how many raw references
  wait to be adopted. It accepts an operation when its source objects are alive and its target
  storage is free (or alive, for an assignment), and, for a class whose copy operations do not
  test for null, when the copied object is not null.
\<close>

datatype hop =
    HAdopt oid ptr
  | HMove oid oid
  | HMoveAssign oid oid
  | HDestroy oid
  | HCopy oid oid
  | HCopyAssign oid oid

datatype copying = NoCopy | CopyNonNull | CopyAny

fun copy_allowed :: "copying \<Rightarrow> bool \<Rightarrow> bool" where
  "copy_allowed NoCopy nn = False"
| "copy_allowed CopyNonNull nn = nn"
| "copy_allowed CopyAny nn = True"

type_synonym lifetimes = "(oid \<rightharpoonup> bool) \<times> (ptr \<Rightarrow> nat)"

fun scope :: "copying \<Rightarrow> lifetimes \<Rightarrow> hop \<Rightarrow> lifetimes option" where
  "scope k (s, raw) (HAdopt i p) =
     (if s i = None \<and> (p = null \<or> 0 < raw p)
      then Some (s(i \<mapsto> p \<noteq> null), if p = null then raw else raw(p := raw p - 1)) else None)"
| "scope k (s, raw) (HMove i j) =
     (case (s i, s j) of (None, Some nn) \<Rightarrow> Some (s(i \<mapsto> nn, j \<mapsto> False), raw) | _ \<Rightarrow> None)"
| "scope k (s, raw) (HMoveAssign i j) =
     (case (s i, s j) of
        (Some _, Some nn) \<Rightarrow> Some (if i = j then s else s(i \<mapsto> nn, j \<mapsto> False), raw) | _ \<Rightarrow> None)"
| "scope k (s, raw) (HDestroy i) =
     (case s i of Some _ \<Rightarrow> Some (s(i := None), raw) | None \<Rightarrow> None)"
| "scope k (s, raw) (HCopy i j) =
     (case (s i, s j) of
        (None, Some nn) \<Rightarrow> if copy_allowed k nn then Some (s(i \<mapsto> nn), raw) else None | _ \<Rightarrow> None)"
| "scope k (s, raw) (HCopyAssign i j) =
     (case (s i, s j) of
        (Some _, Some nn) \<Rightarrow>
          if copy_allowed k nn then Some (if i = j then s else s(i \<mapsto> nn), raw) else None
      | _ \<Rightarrow> None)"

fun scope_all :: "copying \<Rightarrow> lifetimes \<Rightarrow> hop list \<Rightarrow> lifetimes option" where
  "scope_all k t [] = Some t"
| "scope_all k t (x # xs) = (case scope k t x of None \<Rightarrow> None | Some t' \<Rightarrow> scope_all k t' xs)"

text \<open>The operations of a class, and the run of a program. A deleted copy operation is \<open>deleted\<close>.\<close>

record 'w hclass =
  h_adopt :: "oid \<Rightarrow> ptr \<Rightarrow> ('w, unit) cm"
  h_move :: "oid \<Rightarrow> oid \<Rightarrow> ('w, unit) cm"
  h_move_assign :: "oid \<Rightarrow> oid \<Rightarrow> ('w, unit) cm"
  h_dtor :: "oid \<Rightarrow> ('w, unit) cm"
  h_copy :: "oid \<Rightarrow> oid \<Rightarrow> ('w, unit) cm"
  h_copy_assign :: "oid \<Rightarrow> oid \<Rightarrow> ('w, unit) cm"

definition deleted :: "oid \<Rightarrow> oid \<Rightarrow> ('w, unit) cm" where
  "deleted this other = fail (AssertFail ''deleted function'')"

fun hstep :: "'w hclass \<Rightarrow> hop \<Rightarrow> ('w, unit) cm" where
  "hstep k (HAdopt i p) = h_adopt k i p"
| "hstep k (HMove i j) = h_move k i j"
| "hstep k (HMoveAssign i j) = h_move_assign k i j"
| "hstep k (HDestroy i) = h_dtor k i"
| "hstep k (HCopy i j) = h_copy k i j"
| "hstep k (HCopyAssign i j) = h_copy_assign k i j"

fun hrun :: "'w hclass \<Rightarrow> hop list \<Rightarrow> ('w, unit) cm" where
  "hrun k [] = ret ()"
| "hrun k (x # xs) = sq (hstep k x) (hrun k xs)"

definition nonnull :: "(oid \<rightharpoonup> ptr) \<Rightarrow> (oid \<rightharpoonup> bool)" where
  "nonnull m = (\<lambda>i. map_option (\<lambda>p. p \<noteq> null) (m i))"

lemma nonnull_None [simp]: "nonnull m i = None \<longleftrightarrow> m i = None"
  by (simp add: nonnull_def)

lemma nonnull_Some: "nonnull m i = Some b \<longleftrightarrow> (\<exists>p. m i = Some p \<and> b = (p \<noteq> null))"
  by (auto simp: nonnull_def)

lemma nonnull_update [simp]:
  "nonnull (m(i \<mapsto> p)) = (nonnull m)(i \<mapsto> p \<noteq> null)"
  "nonnull (m(i := None)) = (nonnull m)(i := None)"
  by (auto simp: nonnull_def)

subsection \<open>The contract of a move-only class\<close>

text \<open>
  \<open>wf\<close> is what every operation of the class keeps: the well-formedness of its heap component
  and, in the interpretations, that the rest of the world stays as it is. \<open>del\<close> gives one reference back. The member functions follow the idiom.
\<close>

locale owning_handle =
  fixes cells :: "'w \<Rightarrow> (oid \<rightharpoonup> ptr)"
    and upd :: "((oid \<rightharpoonup> ptr) \<Rightarrow> (oid \<rightharpoonup> ptr)) \<Rightarrow> 'w \<Rightarrow> 'w"
    and wf :: "'w \<Rightarrow> bool"
    and refs :: "'w \<Rightarrow> ptr \<Rightarrow> nat"
    and del :: "ptr \<Rightarrow> ('w, unit) cm"
    and cls :: "'w hclass"
  assumes cells_upd: "cells (upd (\<lambda>c. c(i := x)) w) = (cells w)(i := x)"
    and refs_upd: "refs (upd f w) = refs w"
    and wf_upd: "wf (upd f w) = wf w"
    and refs_null: "wf w \<Longrightarrow> refs w null = 0"
    and del_ok: "wf w \<Longrightarrow> 0 < refs w p \<Longrightarrow>
      \<exists>w'. del p w = Inr ((), w') \<and> wf w' \<and> refs w' = (refs w)(p := refs w p - 1) \<and> cells w' = cells w"
    and adopt_idiom: "h_adopt cls i p = obj_put upd i p"
    and move_idiom: "h_move cls i j = idiom_move_ctor cells upd i j"
    and move_assign_idiom: "h_move_assign cls i j = idiom_move_assign cells upd del i j"
    and dtor_idiom: "h_dtor cls i = idiom_dtor cells upd del i"
begin

lemmas handle_simps = cells_upd refs_upd wf_upd

lemma adopt_ok:
  assumes "wf w" "ref_inv (refs w) (cells w) ext" "cells w i = None" "p \<noteq> null \<Longrightarrow> 0 < ext p"
  shows "\<exists>w'. h_adopt cls i p w = Inr ((), w') \<and> wf w' \<and> refs w' = refs w
    \<and> cells w' = (cells w)(i \<mapsto> p)
    \<and> ref_inv (refs w') (cells w') (if p = null then ext else ext(p := ext p - 1))"
proof -
  have "ref_inv (refs w) ((cells w)(i \<mapsto> p)) (if p = null then ext else ext(p := ext p - 1))"
    using assms by (intro ref_inv_update [OF assms(2)]) (auto simp: refs_null)
  then show ?thesis
    using assms(1) by (simp add: adopt_idiom handle_simps cm_simps)
qed

lemma move_ok:
  assumes "wf w" "ref_inv (refs w) (cells w) ext" "cells w i = None" "cells w j = Some q"
  shows "\<exists>w'. h_move cls i j w = Inr ((), w') \<and> wf w' \<and> refs w' = refs w
    \<and> cells w' = (cells w)(i \<mapsto> q, j \<mapsto> null) \<and> ref_inv (refs w') (cells w') ext"
proof -
  have "i \<noteq> j" using assms(3,4) by auto
  with ref_inv_move [OF assms(2,4)] assms(3)
  have "ref_inv (refs w) ((cells w)(i \<mapsto> q, j \<mapsto> null)) ext" by simp
  then show ?thesis
    using assms by (simp add: move_idiom idiom_move_ctor_def handle_simps cm_simps)
qed

text \<open>Giving an object's reference back, the common first half of the destructor and the assignments.\<close>

lemma give_back:
  assumes "wf w" "ref_inv (refs w) (cells w) ext" "cells w i = Some p"
  shows "\<exists>w'. whenM (p \<noteq> null) (del p) w = Inr ((), w') \<and> wf w' \<and> cells w' = cells w
    \<and> refs w' = (if p = null then refs w else (refs w)(p := refs w p - 1))
    \<and> ref_inv (refs w') ((cells w)(i \<mapsto> null)) ext"
proof (cases "p = null")
  case True
  then have "(cells w)(i \<mapsto> null) = cells w" using assms(3) by auto
  then show ?thesis using True assms by (simp add: cm_simps)
next
  case False
  have live: "0 < refs w p" using ref_inv_live [OF assms(2,3) False] .
  obtain w' where w': "del p w = Inr ((), w')" "wf w'" "cells w' = cells w"
      "refs w' = (refs w)(p := refs w p - 1)"
    using del_ok [OF assms(1) live] by auto
  have "ref_inv (refs w') ((cells w)(i \<mapsto> null)) ext"
    using assms(1,3) live False w'(4)
    by (intro ref_inv_update [OF assms(2)]) (auto simp: refs_null)
  then show ?thesis using False w' by (simp add: cm_simps)
qed

lemma dtor_ok:
  assumes "wf w" "ref_inv (refs w) (cells w) ext" "cells w i = Some p"
  shows "\<exists>w'. h_dtor cls i w = Inr ((), w') \<and> wf w' \<and> cells w' = (cells w)(i := None)
    \<and> refs w' = (if p = null then refs w else (refs w)(p := refs w p - 1))
    \<and> ref_inv (refs w') (cells w') ext"
proof -
  obtain w' where w': "whenM (p \<noteq> null) (del p) w = Inr ((), w')" "wf w'" "cells w' = cells w"
      "refs w' = (if p = null then refs w else (refs w)(p := refs w p - 1))"
    and inv: "ref_inv (refs w') ((cells w)(i \<mapsto> null)) ext"
    using give_back [OF assms] by auto
  have "ref_inv (refs w') (((cells w)(i \<mapsto> null))(i := None)) ext"
    using w'(2) by (intro ref_inv_update [OF inv]) (auto simp: refs_null)
  then show ?thesis
    using w' assms(3) by (simp add: dtor_idiom idiom_dtor_def handle_simps cm_simps)
qed

lemma move_assign_ok:
  assumes "wf w" "ref_inv (refs w) (cells w) ext"
    "cells w i = Some p" "cells w j = Some q" "i \<noteq> j"
  shows "\<exists>w'. h_move_assign cls i j w = Inr ((), w') \<and> wf w'
    \<and> cells w' = (cells w)(i \<mapsto> q, j \<mapsto> null)
    \<and> refs w' = (if p = null then refs w else (refs w)(p := refs w p - 1))
    \<and> ref_inv (refs w') (cells w') ext"
proof -
  obtain w' where w': "whenM (p \<noteq> null) (del p) w = Inr ((), w')" "wf w'" "cells w' = cells w"
      "refs w' = (if p = null then refs w else (refs w)(p := refs w p - 1))"
    and inv: "ref_inv (refs w') ((cells w)(i \<mapsto> null)) ext"
    using give_back [OF assms(1-3)] by auto
  have "ref_inv (refs w') (((cells w)(i \<mapsto> null))(i \<mapsto> q, j \<mapsto> null)) ext"
    by (rule ref_inv_move [OF inv]) (use assms(4,5) in auto)
  then show ?thesis
    using w' assms(3-5) by (simp add: move_assign_idiom idiom_move_assign_def handle_simps cm_simps)
qed

lemma self_move_assign: "h_move_assign cls i i w = Inr ((), w)"
  by (simp add: move_assign_idiom idiom_move_assign_def)

text \<open>
  One operation of a class with deleted copy operations: accepted by the lifetime check, it runs
  without a fault, does to the objects what the check says, and keeps the invariant. No
  reference count grows.
\<close>

lemma owning_step_ok:
  assumes "wf w" "ref_inv (refs w) (cells w) raw"
    and "scope NoCopy (nonnull (cells w), raw) op = Some (s', raw')"
  shows "\<exists>w'. hstep cls op w = Inr ((), w') \<and> wf w' \<and> nonnull (cells w') = s'
    \<and> ref_inv (refs w') (cells w') raw' \<and> (\<forall>p. refs w' p \<le> refs w p)"
proof (cases op)
  case (HAdopt i p)
  with assms(3) have "cells w i = None" "p \<noteq> null \<Longrightarrow> 0 < raw p"
    "s' = (nonnull (cells w))(i \<mapsto> p \<noteq> null)" "raw' = (if p = null then raw else raw(p := raw p - 1))"
    by (auto split: if_splits)
  with adopt_ok [OF assms(1,2), of i p] show ?thesis using HAdopt by fastforce
next
  case (HMove i j)
  with assms(3) obtain q where "cells w i = None" "cells w j = Some q" "raw' = raw"
    "s' = (nonnull (cells w))(i \<mapsto> q \<noteq> null, j \<mapsto> False)"
    by (auto simp: nonnull_Some split: option.splits)
  with move_ok [OF assms(1,2), of i j q] show ?thesis using HMove by fastforce
next
  case (HMoveAssign i j)
  with assms(3) obtain p q where ij: "cells w i = Some p" "cells w j = Some q" "raw' = raw"
    "s' = (if i = j then nonnull (cells w) else (nonnull (cells w))(i \<mapsto> q \<noteq> null, j \<mapsto> False))"
    by (auto simp: nonnull_Some split: option.splits)
  show ?thesis
  proof (cases "i = j")
    case True
    then show ?thesis using HMoveAssign ij assms(1,2) by (simp add: self_move_assign)
  next
    case False
    with move_assign_ok [OF assms(1,2) ij(1,2)] show ?thesis using HMoveAssign ij
      by (auto simp: fun_upd_apply)
  qed
next
  case (HDestroy i)
  with assms(3) obtain p where "cells w i = Some p" "raw' = raw" "s' = (nonnull (cells w))(i := None)"
    by (auto simp: nonnull_Some split: option.splits)
  with dtor_ok [OF assms(1,2), of i p] show ?thesis using HDestroy
    by (auto simp: fun_upd_apply)
next
  case (HCopy i j)
  with assms(3) show ?thesis by (auto split: option.splits)
next
  case (HCopyAssign i j)
  with assms(3) show ?thesis by (auto split: option.splits)
qed

lemma owning_run_ok:
  assumes "wf w" "ref_inv (refs w) (cells w) raw"
    and "scope_all NoCopy (nonnull (cells w), raw) ops = Some (s', raw')"
  shows "\<exists>w'. hrun cls ops w = Inr ((), w') \<and> wf w' \<and> nonnull (cells w') = s'
    \<and> ref_inv (refs w') (cells w') raw'"
  using assms
proof (induction ops arbitrary: w raw)
  case Nil
  then show ?case by simp
next
  case (Cons x xs)
  from Cons.prems(3) obtain s1 raw1 where
    x: "scope NoCopy (nonnull (cells w), raw) x = Some (s1, raw1)"
    and xs: "scope_all NoCopy (s1, raw1) xs = Some (s', raw')"
    by (auto split: option.splits)
  obtain w1 where "hstep cls x w = Inr ((), w1)" "wf w1" "nonnull (cells w1) = s1"
    "ref_inv (refs w1) (cells w1) raw1"
    using owning_step_ok [OF Cons.prems(1,2) x] by blast
  with Cons.IH [of w1 raw1] xs show ?case by (simp add: sq_run)
qed

end

subsection \<open>The contract of a copyable class\<close>

text \<open>
  \<open>clone\<close> obtains a new reference: to the same box, whose count grows by one (a
  reference-counted box), or to a fresh copy. \<open>max_refs\<close> bounds the count of a box.
  \<open>kind\<close> says whether the copy operations test the copied pointer for null.
\<close>

locale cloning_handle = owning_handle cells upd wf refs del cls
  for cells :: "'w \<Rightarrow> (oid \<rightharpoonup> ptr)"
    and upd :: "((oid \<rightharpoonup> ptr) \<Rightarrow> (oid \<rightharpoonup> ptr)) \<Rightarrow> 'w \<Rightarrow> 'w"
    and wf :: "'w \<Rightarrow> bool"
    and refs :: "'w \<Rightarrow> ptr \<Rightarrow> nat"
    and del :: "ptr \<Rightarrow> ('w, unit) cm"
    and cls :: "'w hclass" +
  fixes clone :: "ptr \<Rightarrow> ('w, ptr) cm"
    and kind :: copying
    and cp :: "ptr \<Rightarrow> ('w, ptr) cm"
    and max_refs :: nat
  assumes clone_ok: "wf w \<Longrightarrow> 0 < refs w p \<Longrightarrow> refs w p < max_refs \<Longrightarrow>
      \<exists>q w'. clone p w = Inr (q, w') \<and> q \<noteq> null \<and> wf w'
        \<and> refs w' = (refs w)(q := Suc (refs w q)) \<and> cells w' = cells w
        \<and> refs w q < max_refs"
    and cp_nonnull: "p \<noteq> null \<Longrightarrow> cp p = clone p"
    and cp_null: "kind = CopyAny \<Longrightarrow> cp null = ret null"
    and copyable: "kind \<noteq> NoCopy"
    and copy_idiom: "h_copy cls i j = idiom_copy_ctor cells upd cp i j"
    and copy_assign_idiom: "h_copy_assign cls i j = idiom_copy_assign cells upd del cp i j"
begin

text \<open>The pointer a copy operation stores, with the reference that goes with it.\<close>

lemma cp_ok:
  assumes "wf w" "copy_allowed kind (q \<noteq> null)"
    and "q \<noteq> null \<Longrightarrow> 0 < refs w q" "q \<noteq> null \<Longrightarrow> refs w q < max_refs"
  shows "\<exists>r w'. cp q w = Inr (r, w') \<and> (r \<noteq> null) = (q \<noteq> null) \<and> wf w' \<and> cells w' = cells w
    \<and> refs w' = (if r = null then refs w else (refs w)(r := Suc (refs w r)))
    \<and> (r \<noteq> null \<longrightarrow> refs w r < max_refs)"
proof (cases "q = null")
  case True
  then have "kind = CopyAny" using assms(2) copyable by (cases kind) auto
  then show ?thesis using True assms(1) by (simp add: cp_null)
next
  case False
  then show ?thesis using clone_ok [OF assms(1) assms(3,4)] by (auto simp: cp_nonnull)
qed

lemma copy_ok:
  assumes "wf w" "ref_inv (refs w) (cells w) ext" "cells w i = None" "cells w j = Some q"
    and "copy_allowed kind (q \<noteq> null)" "\<And>p. refs w p < max_refs"
  shows "\<exists>r w'. h_copy cls i j w = Inr ((), w') \<and> wf w' \<and> (r \<noteq> null) = (q \<noteq> null)
    \<and> cells w' = (cells w)(i \<mapsto> r) \<and> (\<forall>p. refs w' p \<le> Suc (refs w p))
    \<and> ref_inv (refs w') (cells w') ext"
proof -
  have "q \<noteq> null \<Longrightarrow> 0 < refs w q" using ref_inv_live [OF assms(2,4)] by blast
  then obtain r w' where w': "cp q w = Inr (r, w')" "(r \<noteq> null) = (q \<noteq> null)" "wf w'"
      "cells w' = cells w" "refs w' = (if r = null then refs w else (refs w)(r := Suc (refs w r)))"
    using cp_ok [OF assms(1,5)] assms(6) by blast
  have "ref_inv (refs w') ((cells w)(i \<mapsto> r)) ext"
    using assms(1,3) w'(5) by (intro ref_inv_update [OF assms(2)]) (auto simp: refs_null)
  then show ?thesis
    using w' assms(4)
    by (intro exI [of _ r]) (auto simp: copy_idiom idiom_copy_ctor_def handle_simps cm_simps)
qed

lemma copy_assign_ok:
  assumes "wf w" "ref_inv (refs w) (cells w) ext"
    and ij: "cells w i = Some p" "cells w j = Some q" "i \<noteq> j"
    and "copy_allowed kind (q \<noteq> null)" and small: "\<And>p. refs w p < max_refs"
  shows "\<exists>r w'. h_copy_assign cls i j w = Inr ((), w') \<and> wf w' \<and> (r \<noteq> null) = (q \<noteq> null)
    \<and> cells w' = (cells w)(i \<mapsto> r) \<and> (\<forall>p. refs w' p \<le> Suc (refs w p))
    \<and> ref_inv (refs w') (cells w') ext"
proof -
  obtain w1 where w1: "whenM (p \<noteq> null) (del p) w = Inr ((), w1)" "wf w1" "cells w1 = cells w"
      "refs w1 = (if p = null then refs w else (refs w)(p := refs w p - 1))"
    and inv1: "ref_inv (refs w1) ((cells w)(i \<mapsto> null)) ext"
    using give_back [OF assms(1,2) ij(1)] by auto
  have live: "q \<noteq> null \<Longrightarrow> 0 < refs w1 q"
    using ref_inv_live [OF inv1, of j q] ij by simp
  have "refs w1 x < max_refs" for x
    using small [of x] w1(4) by (auto simp: fun_upd_apply)
  then obtain r w' where w': "cp q w1 = Inr (r, w')" "(r \<noteq> null) = (q \<noteq> null)" "wf w'"
      "cells w' = cells w1" "refs w' = (if r = null then refs w1 else (refs w1)(r := Suc (refs w1 r)))"
    using cp_ok [OF w1(2) assms(6) live] by blast
  have "ref_inv (refs w') (((cells w)(i \<mapsto> null))(i \<mapsto> r)) ext"
    using w1(2) w'(5) by (intro ref_inv_update [OF inv1]) (auto simp: refs_null)
  moreover have "\<forall>x. refs w' x \<le> Suc (refs w x)"
    using w1(4) w'(5) by (auto simp: fun_upd_apply)
  ultimately show ?thesis
    using w1 w' ij
    by (intro exI [of _ r])
      (auto simp: copy_assign_idiom idiom_copy_assign_def handle_simps cm_simps)
qed

lemma self_copy_assign: "h_copy_assign cls i i w = Inr ((), w)"
  by (simp add: copy_assign_idiom idiom_copy_assign_def)

text \<open>Operations other than copies are accepted alike for every kind of class.\<close>

lemma scope_no_copy:
  "(\<And>i j. op \<noteq> HCopy i j \<and> op \<noteq> HCopyAssign i j) \<Longrightarrow> scope k t op = scope NoCopy t op"
  by (cases op; cases t) auto

lemma cloning_step_ok:
  assumes "wf w" "ref_inv (refs w) (cells w) raw" "\<And>p. refs w p < max_refs"
    and "scope kind (nonnull (cells w), raw) op = Some (s', raw')"
  shows "\<exists>w'. hstep cls op w = Inr ((), w') \<and> wf w' \<and> nonnull (cells w') = s'
    \<and> ref_inv (refs w') (cells w') raw' \<and> (\<forall>p. refs w' p \<le> Suc (refs w p))"
proof -
  consider (cp) i j where "op = HCopy i j" | (cpa) i j where "op = HCopyAssign i j"
    | (own) "\<And>i j. op \<noteq> HCopy i j \<and> op \<noteq> HCopyAssign i j"
    by (cases op) auto
  then show ?thesis
  proof cases
    case cp
    with assms(4) obtain q where "cells w i = None" "cells w j = Some q" "raw' = raw"
      "copy_allowed kind (q \<noteq> null)" "s' = (nonnull (cells w))(i \<mapsto> q \<noteq> null)"
      by (auto simp: nonnull_Some split: option.splits if_splits)
    with copy_ok [OF assms(1,2), of i j q] assms(3) show ?thesis using cp by fastforce
  next
    case cpa
    with assms(4) obtain p q where ij: "cells w i = Some p" "cells w j = Some q" "raw' = raw"
      "copy_allowed kind (q \<noteq> null)"
      "s' = (if i = j then nonnull (cells w) else (nonnull (cells w))(i \<mapsto> q \<noteq> null))"
      by (auto simp: nonnull_Some split: option.splits if_splits)
    show ?thesis
    proof (cases "i = j")
      case True
      then show ?thesis using cpa ij assms(1,2) by (simp add: self_copy_assign)
    next
      case False
      with copy_assign_ok [OF assms(1,2) ij(1,2) False ij(4)] assms(3) show ?thesis
        using cpa ij by fastforce
    qed
  next
    case own
    then have "scope NoCopy (nonnull (cells w), raw) op = Some (s', raw')"
      using assms(4) scope_no_copy by metis
    with owning_step_ok [OF assms(1,2)] show ?thesis by (meson le_SucI)
  qed
qed

text \<open>
  A whole program, with room for as many references as it has operations.
\<close>

lemma cloning_run_ok:
  assumes "wf w" "ref_inv (refs w) (cells w) raw" "\<And>p. refs w p + length ops \<le> max_refs"
    and "scope_all kind (nonnull (cells w), raw) ops = Some (s', raw')"
  shows "\<exists>w'. hrun cls ops w = Inr ((), w') \<and> wf w' \<and> nonnull (cells w') = s'
    \<and> ref_inv (refs w') (cells w') raw'"
  using assms
proof (induction ops arbitrary: w raw)
  case Nil
  then show ?case by simp
next
  case (Cons x xs)
  from Cons.prems(4) obtain s1 raw1 where
    x: "scope kind (nonnull (cells w), raw) x = Some (s1, raw1)"
    and xs: "scope_all kind (s1, raw1) xs = Some (s', raw')"
    by (auto split: option.splits)
  have room: "refs w p < max_refs" for p
    using Cons.prems(3) [of p] by simp
  obtain w1 where w1: "hstep cls x w = Inr ((), w1)" "wf w1" "nonnull (cells w1) = s1"
    "ref_inv (refs w1) (cells w1) raw1" "\<And>p. refs w1 p \<le> Suc (refs w p)"
    using cloning_step_ok [OF Cons.prems(1,2) room x] by blast
  have "refs w1 p + length xs \<le> max_refs" for p
    using Cons.prems(3) [of p] w1(5) [of p] by simp
  with Cons.IH [of w1 raw1] xs w1 show ?case by (simp add: sq_run)
qed

end

end
