(* ===== verification/Boxes.thy ===== *)
theory Boxes
  imports Handles
begin

text \<open>
  The two ways the Rust side owns what a raw pointer names, as contracts of a heap component and
  of the delete and clone functions the C API exports for it. A reference-counted box
  (\<open>AsyncNatsMessage\<close>, \<open>AsyncNatsConnectError\<close>, \<open>AsyncNatsRequestError\<close>) carries an
  atomic 64-bit counter: clone adds one and returns the same pointer, delete subtracts one and
  frees the box when the counter was one. A plain box belongs to one pointer: delete frees it, a
  clone is a fresh box. Both contracts give the laws on references that a handle class relies on.
\<close>

subsection \<open>Reference-counted boxes\<close>

text \<open>
  \<open>fetch_sub\<close> and \<open>fetch_add\<close> wrap around and return the old value.
\<close>

definition idiom_rc_delete where
  "idiom_rc_delete h upd cnt set_cnt p =
     bnd (deref h p) (\<lambda>b.
     sq (store upd p (set_cnt (cnt b - (1 :: u64)) b))
        (whenM (cnt b = 1) (bnd (box_from_raw h upd p) (\<lambda>_. ret ()))))"

definition idiom_rc_clone where
  "idiom_rc_clone h upd cnt set_cnt p =
     bnd (deref h p) (\<lambda>b. sq (store upd p (set_cnt (cnt b + (1 :: u64)) b)) (ret p))"

definition rc_refs :: "('w \<Rightarrow> ptr \<rightharpoonup> 'b) \<Rightarrow> ('b \<Rightarrow> u64) \<Rightarrow> 'w \<Rightarrow> ptr \<Rightarrow> nat" where
  "rc_refs h cnt w p = (case h w p of None \<Rightarrow> 0 | Some b \<Rightarrow> unat (cnt b))"

definition rc_wf :: "('z mem_scheme \<Rightarrow> ptr \<rightharpoonup> 'b) \<Rightarrow> ('b \<Rightarrow> u64) \<Rightarrow> 'z mem_scheme \<Rightarrow> bool" where
  "rc_wf h cnt w \<longleftrightarrow> heap_ok (h w) (brk w) \<and> (\<forall>p b. h w p = Some b \<longrightarrow> cnt b \<noteq> 0)"

lemma rc_refs_null: "rc_wf h cnt w \<Longrightarrow> rc_refs h cnt w null = 0"
  by (auto simp: rc_wf_def rc_refs_def dest: heap_ok_null)

lemma rc_freed: "rc_wf h cnt w \<Longrightarrow> rc_refs h cnt w p = 0 \<Longrightarrow> h w p = None"
  by (auto simp: rc_wf_def rc_refs_def unat_eq_0 split: option.splits)

lemma rc_refs_frame: "h w' = h w \<Longrightarrow> rc_refs h cnt w' = rc_refs h cnt w"
  by (simp add: rc_refs_def fun_eq_iff)

lemma rc_wf_frame: "h w' = h w \<Longrightarrow> brk w' = brk w \<Longrightarrow> rc_wf h cnt w' = rc_wf h cnt w"
  by (simp add: rc_wf_def)

lemma unat_dec: "x \<noteq> (0 :: u64) \<Longrightarrow> unat (x - 1) = unat x - 1"
  by (simp add: unat_minus_one)

lemma unat_inc: "Suc (unat (x :: u64)) < 2 ^ 64 \<Longrightarrow> unat (x + 1) = Suc (unat x)"
  by (simp add: unat_word_ariths)

locale rc_box =
  fixes h :: "'z mem_scheme \<Rightarrow> ptr \<rightharpoonup> 'b"
    and upd :: "((ptr \<rightharpoonup> 'b) \<Rightarrow> (ptr \<rightharpoonup> 'b)) \<Rightarrow> 'z mem_scheme \<Rightarrow> 'z mem_scheme"
    and cnt :: "'b \<Rightarrow> u64"
    and set_cnt :: "u64 \<Rightarrow> 'b \<Rightarrow> 'b"
    and del :: "ptr \<Rightarrow> ('z mem_scheme, unit) cm"
  assumes h_upd: "h (upd (\<lambda>m. m(i := x)) w) = (h w)(i := x)"
    and upd_upd: "upd (\<lambda>m. m(i := y)) (upd (\<lambda>m. m(i := x)) w) = upd (\<lambda>m. m(i := y)) w"
    and brk_upd: "brk (upd f w) = brk w"
    and cnt_set: "cnt (set_cnt n b) = n"
    and del_idiom: "p \<noteq> null \<Longrightarrow> del p = idiom_rc_delete h upd cnt set_cnt p"
begin

lemma rc_box_live:
  assumes "rc_wf h cnt w" "0 < rc_refs h cnt w p"
  obtains b where "h w p = Some b" "p \<noteq> null" "rc_refs h cnt w p = unat (cnt b)" "cnt b \<noteq> 0"
  using assms by (auto simp: rc_refs_def rc_wf_def heap_ok_def split: option.splits)

lemma rc_refs_upd: "rc_refs h cnt (upd (\<lambda>m. m(p := x)) w)
    = (rc_refs h cnt w)(p := (case x of None \<Rightarrow> 0 | Some b \<Rightarrow> unat (cnt b)))"
  by (auto simp: rc_refs_def h_upd)

lemma rc_del_ok:
  assumes "rc_wf h cnt w" "0 < rc_refs h cnt w p"
  shows "\<exists>x. del p w = Inr ((), upd (\<lambda>m. m(p := x)) w)
    \<and> rc_wf h cnt (upd (\<lambda>m. m(p := x)) w)
    \<and> rc_refs h cnt (upd (\<lambda>m. m(p := x)) w) = (rc_refs h cnt w)(p := rc_refs h cnt w p - 1)"
proof -
  obtain b where b: "h w p = Some b" "p \<noteq> null" "rc_refs h cnt w p = unat (cnt b)" "cnt b \<noteq> 0"
    using rc_box_live [OF assms] .
  let ?x = "if cnt b = 1 then None else Some (set_cnt (cnt b - 1) b)"
  have "del p w = Inr ((), upd (\<lambda>m. m(p := ?x)) w)"
    using b by (simp add: del_idiom idiom_rc_delete_def cm_simps h_upd upd_upd)
  moreover have "rc_wf h cnt (upd (\<lambda>m. m(p := ?x)) w)"
    using assms(1) b
    by (auto simp: rc_wf_def h_upd brk_upd cnt_set intro: heap_ok_intros split: if_splits)
  moreover have "rc_refs h cnt (upd (\<lambda>m. m(p := ?x)) w) = (rc_refs h cnt w)(p := rc_refs h cnt w p - 1)"
    using b by (auto simp: rc_refs_upd cnt_set unat_dec)
  ultimately show ?thesis by blast
qed

text \<open>A dead pointer is undefined behaviour.\<close>

lemma rc_del_dead: "h w p = None \<Longrightarrow> p \<noteq> null \<Longrightarrow> del p w = Inl (UB UseAfterFree)"
  by (simp add: del_idiom idiom_rc_delete_def cm_simps)

end

locale rc_clone_box = rc_box h upd cnt set_cnt del
  for h :: "'z mem_scheme \<Rightarrow> ptr \<rightharpoonup> 'b"
    and upd :: "((ptr \<rightharpoonup> 'b) \<Rightarrow> (ptr \<rightharpoonup> 'b)) \<Rightarrow> 'z mem_scheme \<Rightarrow> 'z mem_scheme"
    and cnt :: "'b \<Rightarrow> u64"
    and set_cnt :: "u64 \<Rightarrow> 'b \<Rightarrow> 'b"
    and del :: "ptr \<Rightarrow> ('z mem_scheme, unit) cm" +
  fixes clone :: "ptr \<Rightarrow> ('z mem_scheme, ptr) cm"
  assumes clone_idiom: "clone p = idiom_rc_clone h upd cnt set_cnt p"
begin

lemma rc_clone_ok:
  assumes "rc_wf h cnt w" "0 < rc_refs h cnt w p" "rc_refs h cnt w p < 2 ^ 64 - 1"
  shows "\<exists>x. clone p w = Inr (p, upd (\<lambda>m. m(p := x)) w) \<and> p \<noteq> null
    \<and> rc_wf h cnt (upd (\<lambda>m. m(p := x)) w)
    \<and> rc_refs h cnt (upd (\<lambda>m. m(p := x)) w) = (rc_refs h cnt w)(p := Suc (rc_refs h cnt w p))"
proof -
  obtain b where b: "h w p = Some b" "p \<noteq> null" "rc_refs h cnt w p = unat (cnt b)" "cnt b \<noteq> 0"
    using rc_box_live [OF assms(1,2)] .
  have inc: "unat (cnt b + 1) = Suc (unat (cnt b))"
    using assms(3) b(3) by (intro unat_inc) simp
  then have "cnt b + 1 \<noteq> 0" by (metis nat.distinct(1) unat_0)
  let ?x = "Some (set_cnt (cnt b + 1) b)"
  have "clone p w = Inr (p, upd (\<lambda>m. m(p := ?x)) w)"
    using b by (simp add: clone_idiom idiom_rc_clone_def cm_simps)
  moreover have "rc_wf h cnt (upd (\<lambda>m. m(p := ?x)) w)"
    using assms(1) b \<open>cnt b + 1 \<noteq> 0\<close>
    by (auto simp: rc_wf_def h_upd brk_upd cnt_set intro: heap_ok_intros split: if_splits)
  moreover have "rc_refs h cnt (upd (\<lambda>m. m(p := ?x)) w) = (rc_refs h cnt w)(p := Suc (rc_refs h cnt w p))"
    using b by (simp add: rc_refs_upd cnt_set inc)
  ultimately show ?thesis using b(2) by blast
qed

lemma rc_clone_bad:
  "clone null w = Inl (UB NullDeref)"
  "h w p = None \<Longrightarrow> p \<noteq> null \<Longrightarrow> clone p w = Inl (UB UseAfterFree)"
  by (simp_all add: clone_idiom idiom_rc_clone_def cm_simps)

end

subsection \<open>Plain boxes\<close>

text \<open>\<open>keep\<close> is the part of the world that neither a deletion nor an allocation touches.\<close>

definition own_refs :: "('w \<Rightarrow> ptr \<rightharpoonup> 'b) \<Rightarrow> 'w \<Rightarrow> ptr \<Rightarrow> nat" where
  "own_refs h w p = (case h w p of None \<Rightarrow> 0 | Some _ \<Rightarrow> 1)"

definition own_wf :: "('z mem_scheme \<Rightarrow> ptr \<rightharpoonup> 'b) \<Rightarrow> 'z mem_scheme \<Rightarrow> bool" where
  "own_wf h w \<longleftrightarrow> heap_ok (h w) (brk w)"

lemma own_refs_null: "own_wf h w \<Longrightarrow> own_refs h w null = 0"
  by (auto simp: own_wf_def own_refs_def dest: heap_ok_null)

lemma own_freed: "own_refs h w p = 0 \<Longrightarrow> h w p = None"
  by (simp add: own_refs_def split: option.splits)

lemma own_refs_frame: "h w' = h w \<Longrightarrow> own_refs h w' = own_refs h w"
  by (simp add: own_refs_def fun_eq_iff)

lemma own_wf_frame: "h w' = h w \<Longrightarrow> brk w' = brk w \<Longrightarrow> own_wf h w' = own_wf h w"
  by (simp add: own_wf_def)

lemma own_refs_le: "own_refs h w p \<le> 1"
  by (simp add: own_refs_def split: option.splits)

locale own_box =
  fixes h :: "'z mem_scheme \<Rightarrow> ptr \<rightharpoonup> 'b"
    and upd :: "((ptr \<rightharpoonup> 'b) \<Rightarrow> (ptr \<rightharpoonup> 'b)) \<Rightarrow> 'z mem_scheme \<Rightarrow> 'z mem_scheme"
    and del :: "ptr \<Rightarrow> ('z mem_scheme, unit) cm"
    and keep :: "'z mem_scheme \<Rightarrow> 'k"
  assumes h_upd: "h (upd (\<lambda>m. m(i := x)) w) = (h w)(i := x)"
    and brk_upd: "brk (upd f w) = brk w"
    and keep_upd: "keep (upd f w) = keep w"
    and keep_brk: "keep (brk_update g w) = keep w"
    and h_brk: "h (brk_update g w) = h w"
    and del_run: "h w p = Some b \<Longrightarrow> p \<noteq> null \<Longrightarrow>
      \<exists>w'. del p w = Inr ((), w') \<and> h w' = (h w)(p := None) \<and> brk w' = brk w \<and> keep w' = keep w"
begin

lemma own_box_live:
  assumes "own_wf h w" "0 < own_refs h w p"
  obtains b where "h w p = Some b" "p \<noteq> null" "own_refs h w p = 1"
  using assms by (auto simp: own_refs_def own_wf_def heap_ok_def split: option.splits)

lemma own_del_ok:
  assumes "own_wf h w" "0 < own_refs h w p"
  shows "\<exists>w'. del p w = Inr ((), w') \<and> own_wf h w'
    \<and> own_refs h w' = (own_refs h w)(p := own_refs h w p - 1) \<and> keep w' = keep w"
proof -
  obtain b where b: "h w p = Some b" "p \<noteq> null" "own_refs h w p = 1"
    using own_box_live [OF assms] .
  obtain w' where "del p w = Inr ((), w')" "h w' = (h w)(p := None)" "brk w' = brk w"
      "keep w' = keep w"
    using del_run [OF b(1,2)] by blast
  then show ?thesis
    using assms(1) b(3)
    by (auto simp: own_wf_def heap_ok_free own_refs_def)
qed

text \<open>A new box: one more reference, at a fresh address.\<close>

lemma own_new_ok:
  assumes "own_wf h w"
  shows "\<exists>q w'. box_into_raw upd b w = Inr (q, w') \<and> q \<noteq> null \<and> q = brk w \<and> own_wf h w'
    \<and> own_refs h w' = (own_refs h w)(q := Suc (own_refs h w q)) \<and> own_refs h w q = 0
    \<and> keep w' = keep w \<and> h w' = (h w)(q \<mapsto> b)"
  using assms
  by (auto simp: cm_simps own_wf_def heap_ok_new heap_ok_fresh heap_ok_pos own_refs_def h_upd h_brk
      brk_upd keep_upd keep_brk)

end

end
