(* ===== verification/Utf8.thy ===== *)
theory Utf8
  imports Prelude
begin

text \<open>
  \<open>String::from_utf8_lossy\<close> of the Rust standard library, which every string that crosses the
  C API goes through (\<open>lossy_convert\<close> of api.rs): the well-formed UTF-8 of the input is kept
  and every maximal ill-formed piece is replaced by U+FFFD. A Rust string is the list of its
  UTF-8 bytes.
\<close>

subsection \<open>One code point\<close>

text \<open>The ranges of a leading byte, by the number of bytes it announces.\<close>

definition lead1 :: "byte \<Rightarrow> bool" where
  "lead1 b \<longleftrightarrow> b < 0x80"

definition lead2 :: "byte \<Rightarrow> bool" where
  "lead2 b \<longleftrightarrow> 0xC2 \<le> b \<and> b \<le> 0xDF"

definition lead3 :: "byte \<Rightarrow> bool" where
  "lead3 b \<longleftrightarrow> 0xE0 \<le> b \<and> b \<le> 0xEF"

definition lead4 :: "byte \<Rightarrow> bool" where
  "lead4 b \<longleftrightarrow> 0xF0 \<le> b \<and> b \<le> 0xF4"

definition is_cont :: "byte \<Rightarrow> bool" where
  "is_cont c \<longleftrightarrow> 0x80 \<le> c \<and> c \<le> 0xBF"

definition second3 :: "byte \<Rightarrow> byte \<Rightarrow> bool" where
  "second3 b c \<longleftrightarrow>
     (if b = 0xE0 then 0xA0 \<le> c \<and> c \<le> 0xBF
      else if b = 0xED then 0x80 \<le> c \<and> c \<le> 0x9F
      else is_cont c)"

definition second4 :: "byte \<Rightarrow> byte \<Rightarrow> bool" where
  "second4 b c \<longleftrightarrow>
     (if b = 0xF0 then 0x90 \<le> c \<and> c \<le> 0xBF
      else if b = 0xF4 then 0x80 \<le> c \<and> c \<le> 0x8F
      else is_cont c)"

text \<open>
  \<open>next_char\<close> looks at the front of a non-empty input: whether a well-formed code point stands
  there, and how many bytes it has; of an ill-formed piece, how many bytes are replaced.
\<close>

fun next_char :: "bytes \<Rightarrow> bool \<times> nat" where
  "next_char [] = (False, 0)"
| "next_char (b # r) =
     (if lead1 b then (True, 1)
      else if lead2 b then
        (case r of [] \<Rightarrow> (False, 1) | c # _ \<Rightarrow> if is_cont c then (True, 2) else (False, 1))
      else if lead3 b then
        (case r of [] \<Rightarrow> (False, 1)
         | c # r' \<Rightarrow> if second3 b c
             then (case r' of [] \<Rightarrow> (False, 2)
                   | d # _ \<Rightarrow> if is_cont d then (True, 3) else (False, 2))
             else (False, 1))
      else if lead4 b then
        (case r of [] \<Rightarrow> (False, 1)
         | c # r' \<Rightarrow> if second4 b c
             then (case r' of [] \<Rightarrow> (False, 2)
                   | d # r'' \<Rightarrow> if is_cont d
                       then (case r'' of [] \<Rightarrow> (False, 3)
                             | e # _ \<Rightarrow> if is_cont e then (True, 4) else (False, 3))
                       else (False, 2))
             else (False, 1))
      else (False, 1))"

declare next_char.simps(2) [simp del]

lemma next_char_len:
  "xs \<noteq> [] \<Longrightarrow> 0 < snd (next_char xs) \<and> snd (next_char xs) \<le> length xs"
  by (cases xs) (auto simp: next_char.simps(2) split: list.splits)

text \<open>What follows a well-formed code point does not matter for it.\<close>

lemma next_char_prefix:
  assumes "next_char xs = (True, n)"
  shows "next_char (take n xs @ ys) = (True, n)"
proof (cases xs)
  case Nil
  with assms show ?thesis by simp
next
  case (Cons b r)
  with assms show ?thesis
    by (auto simp: next_char.simps(2) take_Cons' split: if_splits list.splits)
qed

subsection \<open>Strings\<close>

definition REPLACEMENT :: bytes where
  "REPLACEMENT = [0xEF, 0xBF, 0xBD]"

lemma next_char_REPLACEMENT [simp]: "next_char (REPLACEMENT @ ys) = (True, 3)"
  by (simp add: REPLACEMENT_def next_char.simps(2) second3_def is_cont_def lead1_def lead2_def lead3_def)

function from_utf8_lossy :: "bytes \<Rightarrow> bytes" where
  "from_utf8_lossy xs =
     (if xs = [] then []
      else (if fst (next_char xs) then take (snd (next_char xs)) xs else REPLACEMENT)
           @ from_utf8_lossy (drop (snd (next_char xs)) xs))"
  by pat_completeness auto
termination
  by (relation "measure length") (use next_char_len in auto)

text \<open>Well-formed UTF-8: what \<open>str::from_utf8\<close> accepts.\<close>

function utf8_valid :: "bytes \<Rightarrow> bool" where
  "utf8_valid xs \<longleftrightarrow>
     (if xs = [] then True else fst (next_char xs) \<and> utf8_valid (drop (snd (next_char xs)) xs))"
  by pat_completeness auto
termination
  by (relation "measure length") (use next_char_len in auto)

declare from_utf8_lossy.simps [simp del] utf8_valid.simps [simp del]

lemma utf8_empty [simp]: "from_utf8_lossy [] = []" "utf8_valid []"
  by (simp_all add: from_utf8_lossy.simps [of "[]"] utf8_valid.simps [of "[]"])

text \<open>Prepending a code point.\<close>

lemma utf8_valid_step:
  assumes "next_char (cs @ ys) = (True, length cs)" "cs \<noteq> []"
  shows "utf8_valid (cs @ ys) \<longleftrightarrow> utf8_valid ys"
  using assms by (simp add: utf8_valid.simps [of "cs @ ys"])

lemma lossy_step:
  assumes "next_char (cs @ ys) = (True, length cs)" "cs \<noteq> []"
  shows "from_utf8_lossy (cs @ ys) = cs @ from_utf8_lossy ys"
  using assms by (simp add: from_utf8_lossy.simps [of "cs @ ys"])

lemma lossy_valid_id: "utf8_valid xs \<Longrightarrow> from_utf8_lossy xs = xs"
proof (induction xs rule: from_utf8_lossy.induct)
  case (1 xs)
  show ?case
  proof (cases "xs = []")
    case True
    then show ?thesis by simp
  next
    case False
    with "1.prems" have ok: "fst (next_char xs)" "utf8_valid (drop (snd (next_char xs)) xs)"
      by (auto simp: utf8_valid.simps [of xs])
    with "1.IH" [OF False] False show ?thesis
      by (simp add: from_utf8_lossy.simps [of xs])
  qed
qed

lemma lossy_is_valid: "utf8_valid (from_utf8_lossy xs)"
proof (induction xs rule: from_utf8_lossy.induct)
  case (1 xs)
  show ?case
  proof (cases "xs = []")
    case True
    then show ?thesis by simp
  next
    case False
    let ?n = "snd (next_char xs)" and ?rest = "from_utf8_lossy (drop (snd (next_char xs)) xs)"
    have len: "0 < ?n" "?n \<le> length xs" using next_char_len [OF False] by auto
    have IH: "utf8_valid ?rest" by (rule "1.IH" [OF False])
    show ?thesis
    proof (cases "fst (next_char xs)")
      case True
      then have "next_char (take ?n xs @ ?rest) = (True, length (take ?n xs))"
        using len by (simp add: next_char_prefix prod_eq_iff)
      then have "utf8_valid (take ?n xs @ ?rest)"
        using IH len False by (subst utf8_valid_step) auto
      then show ?thesis using True False by (simp add: from_utf8_lossy.simps [of xs])
    next
      case False
      have "utf8_valid (REPLACEMENT @ ?rest)"
        using IH by (subst utf8_valid_step) (simp_all add: REPLACEMENT_def [symmetric], simp_all add: REPLACEMENT_def)
      then show ?thesis using False \<open>xs \<noteq> []\<close> by (simp add: from_utf8_lossy.simps [of xs])
    qed
  qed
qed

text \<open>ASCII is well formed, and a NUL byte is never introduced.\<close>

lemma utf8_ascii: "\<forall>b \<in> set xs. b < 0x80 \<Longrightarrow> utf8_valid xs"
proof (induction xs)
  case (Cons b xs)
  then show ?case using utf8_valid_step [of "[b]" xs] by (simp add: next_char.simps(2) lead1_def)
qed simp

lemma lossy_no_nul: "0 \<notin> set xs \<Longrightarrow> 0 \<notin> set (from_utf8_lossy xs)"
proof (induction xs rule: from_utf8_lossy.induct)
  case (1 xs)
  show ?case
  proof (cases "xs = []")
    case False
    have "0 \<notin> set (drop (snd (next_char xs)) xs)"
      using "1.prems" by (meson in_set_dropD)
    then show ?thesis using "1.IH" [OF False] "1.prems" False
      by (auto simp: from_utf8_lossy.simps [of xs] REPLACEMENT_def dest: in_set_takeD)
  qed simp
qed



end
