(* ===== verification/Api.thy ===== *)
theory Api
  imports Boxes Utf8
begin

text \<open>
  rust/src/api.rs and include/async\_nats/owned\_string.h: what crosses the C API. The memory a
  slice or a C string can point into (buffers of the C++ caller, C strings handed out by the Rust
  side, the strings inside a received message), \<open>AsyncNatsSlice\<close> and its conversions, owned C
  strings and the class \<open>OwnedString\<close>.
\<close>

subsection \<open>Messages of the async\_nats crate\<close>

text \<open>
  The fields of \<open>async_nats::Message\<close> that the sources read. A header map is the list of its
  entries in the order in which its \<open>iter()\<close> yields them, an entry the header's name and the
  strings its value's \<open>iter()\<close> yields. A status is its \<open>as_u16()\<close>.
\<close>

type_synonym header_map = "(bytes \<times> bytes list) list"

record nats_message =
  subject :: bytes
  reply :: "bytes option"
  payload :: bytes
  headers :: "header_map option"
  status :: "u16 option"
  description :: "bytes option"
  msg_length :: usize

text \<open>\<open>AsyncNatsMessage\<close>: the message and its atomic reference counter.\<close>

record AsyncNatsMessage =
  am_msg :: nats_message
  am_refs :: u64

subsection \<open>Memory\<close>

text \<open>
  \<open>cbuf\<close> holds the buffers of the caller, \<open>strs\<close> the allocations of \<open>CString\<close>s with their
  terminating NUL, \<open>sobjs\<close> the live \<open>OwnedString\<close> objects. \<open>layout_errs\<close> counts
  deallocations whose layout is not the layout of the allocation.
\<close>

record cw = mem +
  cbuf :: "ptr \<rightharpoonup> bytes"
  strs :: "ptr \<rightharpoonup> bytes"
  layout_errs :: nat
  sobjs :: "oid \<rightharpoonup> ptr"
  msgs :: "ptr \<rightharpoonup> AsyncNatsMessage"

datatype field =
    FSubject
  | FPayload
  | FReply
  | FDescription
  | FHeaderKey nat
  | FHeaderVal nat nat

fun msg_field :: "nats_message \<Rightarrow> field \<Rightarrow> bytes option" where
  "msg_field m FSubject = Some (subject m)"
| "msg_field m FPayload = Some (payload m)"
| "msg_field m FReply = reply m"
| "msg_field m FDescription = description m"
| "msg_field m (FHeaderKey k) =
     (case headers m of None \<Rightarrow> None
      | Some hs \<Rightarrow> if k < length hs then Some (fst (hs ! k)) else None)"
| "msg_field m (FHeaderVal k i) =
     (case headers m of None \<Rightarrow> None
      | Some hs \<Rightarrow> if k < length hs \<and> i < length (snd (hs ! k)) then Some (snd (hs ! k) ! i) else None)"

text \<open>A data pointer: null, or the first byte of a string of one of the memories.\<close>

datatype dptr =
    DNull
  | DBuf ptr
  | DStr ptr
  | DMsg ptr field
  | DStatic bytes

fun mem_at :: "'z cw_scheme \<Rightarrow> dptr \<Rightarrow> ub + bytes" where
  "mem_at w DNull = Inl NullDeref"
| "mem_at w (DBuf p) = (case cbuf w p of None \<Rightarrow> Inl UseAfterFree | Some b \<Rightarrow> Inr b)"
| "mem_at w (DStr p) = (case strs w p of None \<Rightarrow> Inl UseAfterFree | Some b \<Rightarrow> Inr b)"
| "mem_at w (DMsg p f) =
     (case msgs w p of None \<Rightarrow> Inl UseAfterFree
      | Some m \<Rightarrow> (case msg_field (am_msg m) f of None \<Rightarrow> Inl OutOfBounds | Some b \<Rightarrow> Inr b))"
| "mem_at w (DStatic b) = Inr b"

text \<open>
  \<open>slice::from_raw_parts(d, n)\<close>: the pointer must not be null, also when \<open>n\<close> is 0, and
  \<open>n\<close> bytes must be readable there.
\<close>

definition from_raw_parts :: "dptr \<Rightarrow> nat \<Rightarrow> ('z cw_scheme, bytes) cm" where
  "from_raw_parts d n = (\<lambda>w. case mem_at w d of
      Inl e \<Rightarrow> Inl (UB e)
    | Inr b \<Rightarrow> if n \<le> length b then Inr (take n b, w) else Inl (UB OutOfBounds))"

text \<open>\<open>CStr::from_ptr(d).to_bytes()\<close>, also \<open>strlen\<close>: the bytes before the first NUL.\<close>

definition cstr_bytes :: "dptr \<Rightarrow> ('z cw_scheme, bytes) cm" where
  "cstr_bytes d = (\<lambda>w. case mem_at w d of
      Inl e \<Rightarrow> Inl (UB e)
    | Inr b \<Rightarrow> if 0 \<in> set b then Inr (takeWhile (\<lambda>c. c \<noteq> 0) b, w) else Inl (UB OutOfBounds))"

lemma from_raw_parts_run [cm_simps]:
  "from_raw_parts d n w = (case mem_at w d of Inl e \<Rightarrow> Inl (UB e)
     | Inr b \<Rightarrow> if n \<le> length b then Inr (take n b, w) else Inl (UB OutOfBounds))"
  by (simp add: from_raw_parts_def)

lemma cstr_bytes_run [cm_simps]:
  "cstr_bytes d w = (case mem_at w d of Inl e \<Rightarrow> Inl (UB e)
     | Inr b \<Rightarrow> if 0 \<in> set b then Inr (takeWhile (\<lambda>c. c \<noteq> 0) b, w) else Inl (UB OutOfBounds))"
  by (simp add: cstr_bytes_def)

subsection \<open>Slices\<close>

record AsyncNatsSlice =
  sl_data :: dptr
  sl_size :: u64

definition slice_default :: AsyncNatsSlice where
  "slice_default = \<lparr>sl_data = DNull, sl_size = 0\<rparr>"

definition as_slice :: "AsyncNatsSlice \<Rightarrow> ('z cw_scheme, bytes option) cm" where
  "as_slice s =
     (if sl_data s = DNull then ret None
      else bnd (from_raw_parts (sl_data s) (unat (sl_size s))) (\<lambda>b. ret (Some b)))"

definition as_str :: "AsyncNatsSlice \<Rightarrow> ('z cw_scheme, bytes option) cm" where
  "as_str s = bnd (as_slice s) (\<lambda>d. case d of None \<Rightarrow> ret None | Some b \<Rightarrow> ret (Some b))"

text \<open>\<open>LossyConvert\<close> for a slice does not test for null; for a C string it reads up to the NUL.\<close>

definition slice_lossy_convert :: "AsyncNatsSlice \<Rightarrow> ('z cw_scheme, bytes) cm" where
  "slice_lossy_convert s =
     bnd (from_raw_parts (sl_data s) (unat (sl_size s))) (\<lambda>b. ret (from_utf8_lossy b))"

definition cstr_lossy_convert :: "dptr \<Rightarrow> ('z cw_scheme, bytes) cm" where
  "cstr_lossy_convert d = bnd (cstr_bytes d) (\<lambda>b. ret (from_utf8_lossy b))"

text \<open>
  \<open>std::string_view\<close> and \<open>boost::asio::const_buffer\<close> of the C++ side: a pointer and a length.
  Reading \<open>n\<close> characters of a view reads the memory it points into at that moment.
\<close>

datatype string_view = View dptr u64

fun view_bytes :: "string_view \<Rightarrow> ('z cw_scheme, bytes) cm" where
  "view_bytes (View d n) = (if n = 0 then ret [] else from_raw_parts d (unat n))"

definition slice_view :: "AsyncNatsSlice \<Rightarrow> string_view" where
  "slice_view s = View (sl_data s) (sl_size s)"

subsection \<open>Owned strings\<close>

text \<open>
  \<open>string_to_owned_string\<close>: \<open>CString::new\<close> refuses an interior NUL, the \<open>expect\<close> panics
  then; \<open>CString::into_raw\<close> hands the allocation out.
\<close>

definition string_to_owned_string :: "bytes \<Rightarrow> ('z cw_scheme, ptr) cm" where
  "string_to_owned_string s =
     (if 0 \<in> set s then fail (Panic ''Unable to convert error into CString'')
      else box_into_raw strs_update (s @ [0]))"

text \<open>
  \<open>async_nats_owned_string_delete\<close> builds a \<open>Box<c_char>\<close> from the pointer, so that the
  deallocation asks for a layout of one byte whatever the length of the string.
\<close>

definition async_nats_owned_string_delete :: "ptr \<Rightarrow> ('z cw_scheme, unit) cm" where
  "async_nats_owned_string_delete s =
     bnd (box_from_raw strs strs_update s) (\<lambda>b.
     whenM (length b \<noteq> 1) (modify (layout_errs_update Suc)))"

text \<open>The class \<open>OwnedString\<close>.\<close>

definition OwnedString_ctor :: "oid \<Rightarrow> ptr \<Rightarrow> ('z cw_scheme, unit) cm" where
  "OwnedString_ctor this s = obj_put sobjs_update this s"

definition OwnedString_move_ctor :: "oid \<Rightarrow> oid \<Rightarrow> ('z cw_scheme, unit) cm" where
  "OwnedString_move_ctor this other =
     bnd (obj_get sobjs other) (\<lambda>s.
     sq (obj_put sobjs_update this s) (obj_put sobjs_update other null))"

definition OwnedString_dtor :: "oid \<Rightarrow> ('z cw_scheme, unit) cm" where
  "OwnedString_dtor this =
     bnd (obj_get sobjs this) (\<lambda>s.
     sq (whenM (s \<noteq> null) (async_nats_owned_string_delete s)) (obj_end sobjs_update this))"

definition OwnedString_move_assign :: "oid \<Rightarrow> oid \<Rightarrow> ('z cw_scheme, unit) cm" where
  "OwnedString_move_assign this other =
     (if this = other then ret ()
      else bnd (obj_get sobjs this) (\<lambda>s.
           sq (whenM (s \<noteq> null) (async_nats_owned_string_delete s))
           (bnd (obj_get sobjs other) (\<lambda>s'.
            sq (obj_put sobjs_update this s') (obj_put sobjs_update other null)))))"

text \<open>The conversions to \<open>AsyncNatsAsyncString\<close> and to \<open>std::string_view\<close> (through \<open>strlen\<close>).\<close>

definition cstr_ptr :: "ptr \<Rightarrow> dptr" where
  "cstr_ptr s = (if s = null then DNull else DStr s)"

definition OwnedString_c_str :: "oid \<Rightarrow> ('z cw_scheme, dptr) cm" where
  "OwnedString_c_str this = bnd (obj_get sobjs this) (\<lambda>s. ret (cstr_ptr s))"

definition OwnedString_view :: "oid \<Rightarrow> ('z cw_scheme, string_view) cm" where
  "OwnedString_view this =
     bnd (obj_get sobjs this) (\<lambda>s.
     bnd (cstr_bytes (cstr_ptr s)) (\<lambda>b. ret (View (cstr_ptr s) (of_nat (length b)))))"

definition OwnedString_class :: "'z cw_scheme hclass" where
  "OwnedString_class =
     \<lparr>h_adopt = OwnedString_ctor, h_move = OwnedString_move_ctor,
      h_move_assign = OwnedString_move_assign, h_dtor = OwnedString_dtor,
      h_copy = deleted, h_copy_assign = deleted\<rparr>"

lemmas OwnedString_defs = OwnedString_ctor_def OwnedString_move_ctor_def OwnedString_dtor_def
  OwnedString_move_assign_def OwnedString_class_def

text \<open>What the operations of the class leave alone.\<close>

definition str_frame where
  "str_frame w = (cbuf w, msgs w, cw.more w)"

definition str_wf where
  "str_wf F w \<longleftrightarrow> own_wf strs w \<and> str_frame w = F"

interpretation str_box: own_box strs strs_update async_nats_owned_string_delete
  "\<lambda>w. (sobjs w, str_frame w)"
  by unfold_locales (auto simp: async_nats_owned_string_delete_def str_frame_def cm_simps)

lemma str_delete_ok:
  "str_wf F w \<Longrightarrow> 0 < own_refs strs w p \<Longrightarrow>
    \<exists>w'. async_nats_owned_string_delete p w = Inr ((), w') \<and> str_wf F w'
      \<and> own_refs strs w' = (own_refs strs w)(p := own_refs strs w p - 1) \<and> sobjs w' = sobjs w"
  using str_box.own_del_ok [of w p] by (auto simp: str_wf_def)

lemma str_wf_null: "str_wf F w \<Longrightarrow> own_refs strs w null = 0"
  by (simp add: str_wf_def own_refs_null)

lemma str_obj_frame:
  "own_refs strs (sobjs_update f w) = own_refs strs w" "str_wf F (sobjs_update f w) = str_wf F w"
  by (rule own_refs_frame, simp) (simp add: str_wf_def str_frame_def own_wf_def)

interpretation str_handle: owning_handle sobjs sobjs_update "str_wf F" "own_refs strs"
  async_nats_owned_string_delete OwnedString_class for F
  by unfold_locales
    (simp_all add: str_delete_ok str_wf_null str_obj_frame OwnedString_defs idiom_defs
      del: One_nat_def)

subsection \<open>Properties\<close>

definition ex_cw :: cw where
  "ex_cw = \<lparr>brk = 5, cbuf = [2 \<mapsto> bs ''topic''], strs = [1 \<mapsto> bs ''inbox'' @ [0]],
     layout_errs = 0, sobjs = Map.empty, msgs = Map.empty\<rparr>"

lemma ex_cw_wf: "str_wf (str_frame ex_cw) ex_cw"
  by (simp add: str_wf_def own_wf_def heap_ok_def ex_cw_def)

text \<open>
  C38: a string without NUL survives the way out through \<open>string_to_owned_string\<close>: an
  \<open>OwnedString\<close> built from the result reads it back through its \<open>string_view\<close> conversion, and
  handed back to the Rust side as a C string it is converted to the same string when it is
  well-formed UTF-8. A string with a NUL panics.
\<close>

theorem owned_string_roundtrip:
  assumes "own_wf strs w" "fits64 s"
  shows "if 0 \<in> set s
    then string_to_owned_string s w = Inl (Panic ''Unable to convert error into CString'')
    else \<exists>w'. bnd (string_to_owned_string s) (OwnedString_ctor i) w = Inr ((), w')
      \<and> bnd (OwnedString_view i) view_bytes w' = Inr (s, w')
      \<and> bnd (OwnedString_c_str i) cstr_bytes w' = Inr (s, w')
      \<and> (utf8_valid s \<longrightarrow> bnd (OwnedString_c_str i) cstr_lossy_convert w' = Inr (s, w'))"
proof -
  have "0 < brk w" using assms(1) by (simp add: own_wf_def heap_ok_pos)
  moreover have "takeWhile (\<lambda>c. c \<noteq> 0) (s @ [0]) = s" if "0 \<notin> set s"
    using that by (induction s) auto
  ultimately show ?thesis
    using assms(2)
    by (auto simp: string_to_owned_string_def OwnedString_ctor_def OwnedString_view_def cstr_ptr_def
        OwnedString_c_str_def cstr_lossy_convert_def cm_simps lossy_valid_id)
qed

theorem owned_string_roundtrip_witness:
  "\<exists>w'. bnd (string_to_owned_string (bs ''hi'')) (OwnedString_ctor 3) ex_cw = Inr ((), w')
      \<and> bnd (OwnedString_view 3) view_bytes w' = Inr (bs ''hi'', w')
      \<and> bnd (OwnedString_c_str 3) cstr_lossy_convert w' = Inr (bs ''hi'', w')"
proof -
  have "own_wf strs ex_cw" using ex_cw_wf by (simp add: str_wf_def)
  moreover have "fits64 (bs ''hi'')" "0 \<notin> set (bs ''hi'')" by (simp_all add: fits64_def bs_def)
  moreover have "utf8_valid (bs ''hi'')" by (rule utf8_ascii) (simp add: bs_def)
  ultimately show ?thesis
    using owned_string_roundtrip [of ex_cw "bs ''hi''" 3] by auto
qed

text \<open>
  Every well-scoped program over \<open>OwnedString\<close> objects runs without a fault, frees each C
  string exactly once, and has freed all of them when no object and no raw pointer is left.
\<close>

theorem owned_string_programs_safe:
  assumes "str_wf F w" "ref_inv (own_refs strs w) (sobjs w) raw"
    and "scope_all NoCopy (nonnull (sobjs w), raw) ops = Some (s', raw')"
  shows "\<exists>w'. hrun OwnedString_class ops w = Inr ((), w') \<and> str_wf F w'
    \<and> nonnull (sobjs w') = s' \<and> ref_inv (own_refs strs w') (sobjs w') raw'
    \<and> (s' = Map.empty \<and> raw' = (\<lambda>_. 0) \<longrightarrow> strs w' = Map.empty)"
proof -
  obtain w' where w': "hrun OwnedString_class ops w = Inr ((), w')" "str_wf F w'"
    "nonnull (sobjs w') = s'" "ref_inv (own_refs strs w') (sobjs w') raw'"
    using str_handle.owning_run_ok [OF assms] by blast
  have "strs w' = Map.empty" if "s' = Map.empty" "raw' = (\<lambda>_. 0)"
  proof -
    have "dom (sobjs w') = {}" using w'(3) that(1) by (auto simp: fun_eq_iff nonnull_def)
    then have "own_refs strs w' p = 0" for p
      using ref_inv_no_leak [OF w'(4)] that(2) by simp
    then show ?thesis by (intro ext own_freed)
  qed
  with w' show ?thesis by blast
qed

theorem owned_string_programs_safe_witness:
  "\<exists>w'. hrun OwnedString_class [HAdopt 0 1, HMove 1 0, HMoveAssign 0 1, HMoveAssign 0 0, HDestroy 0,
      HDestroy 1] ex_cw = Inr ((), w') \<and> strs w' = Map.empty"
proof -
  have "ref_inv (own_refs strs ex_cw) (sobjs ex_cw) (\<lambda>p. if p = 1 then 1 else 0)"
    by (simp add: ref_inv_def own_refs_def ex_cw_def)
  moreover have "scope_all NoCopy (nonnull (sobjs ex_cw), \<lambda>p. if p = 1 then 1 else 0)
      [HAdopt 0 1, HMove 1 0, HMoveAssign 0 1, HMoveAssign 0 0, HDestroy 0, HDestroy 1]
      = Some (Map.empty, \<lambda>_. 0)"
    by (auto simp: ex_cw_def nonnull_def fun_eq_iff)
  ultimately show ?thesis
    using owned_string_programs_safe [OF ex_cw_wf] by blast
qed

text \<open>
  Destroying an \<open>OwnedString\<close> deallocates its C string with the layout of a single byte: the
  layout differs from that of the allocation exactly when the string is not empty.
\<close>

theorem owned_string_delete_layout:
  assumes "sobjs w i = Some p" "p \<noteq> null" "strs w p = Some (s @ [0])"
  shows "\<exists>w'. OwnedString_dtor i w = Inr ((), w') \<and> strs w' = (strs w)(p := None)
    \<and> layout_errs w' = layout_errs w + (if s = [] then 0 else 1)"
  using assms by (simp add: OwnedString_dtor_def async_nats_owned_string_delete_def cm_simps)

theorem owned_string_delete_layout_witness:
  "\<exists>w'. OwnedString_dtor 0 (ex_cw\<lparr>sobjs := [0 \<mapsto> 1]\<rparr>) = Inr ((), w') \<and> layout_errs w' = 1"
  using owned_string_delete_layout [of "ex_cw\<lparr>sobjs := [0 \<mapsto> 1]\<rparr>" 0 1 "bs ''inbox''"]
  by (auto simp: ex_cw_def bs_def)

text \<open>
  A slice over a buffer of the caller is converted to its first \<open>size\<close> bytes, made
  well-formed; a size beyond the buffer is an out-of-bounds read; a null slice is \<open>None\<close> for
  \<open>as_slice\<close> and \<open>as_str\<close> but undefined behaviour for \<open>lossy_convert\<close>, also when its size is
  0.
\<close>

theorem slice_conversions:
  assumes "cbuf w p = Some b"
  shows "slice_lossy_convert \<lparr>sl_data = DBuf p, sl_size = n\<rparr> w
      = (if unat n \<le> length b then Inr (from_utf8_lossy (take (unat n) b), w) else Inl (UB OutOfBounds))
    \<and> as_slice \<lparr>sl_data = DBuf p, sl_size = n\<rparr> w
      = (if unat n \<le> length b then Inr (Some (take (unat n) b), w) else Inl (UB OutOfBounds))
    \<and> as_str slice_default w = Inr (None, w)
    \<and> slice_lossy_convert slice_default w = Inl (UB NullDeref)"
  using assms
  by (simp add: slice_lossy_convert_def as_slice_def as_str_def slice_default_def cm_simps)

theorem slice_conversions_witness:
  "slice_lossy_convert \<lparr>sl_data = DBuf 2, sl_size = 3\<rparr> ex_cw = Inr (bs ''top'', ex_cw)"
proof -
  have b: "cbuf ex_cw 2 = Some (bs ''topic'')" by (simp add: ex_cw_def)
  have "utf8_valid (bs ''top'')" by (rule utf8_ascii) (simp add: bs_def)
  then show ?thesis
    using slice_conversions [OF b, of 3] by (simp add: bs_def lossy_valid_id)
qed

end
