(* ===== verification/Message.thy ===== *)
theory Message
  imports Api
begin

text \<open>
  rust/src/message.rs and the classes \<open>Message\<close> and \<open>HeadersView\<close> of
  include/async\_nats/message.hpp: the reference-counted message box with its accessors, the
  special member functions of the two classes that hold references to it, and the accessors of
  \<open>Message\<close>. The headers themselves are in the theory Headers.
\<close>

record mw = cw +
  mobjs :: "oid \<rightharpoonup> ptr"
  hvobjs :: "oid \<rightharpoonup> ptr"

subsection \<open>The C API of a message\<close>

definition message_into :: "nats_message \<Rightarrow> AsyncNatsMessage" where
  "message_into m = \<lparr>am_msg = m, am_refs = 1\<rparr>"

definition async_nats_message_delete :: "ptr \<Rightarrow> ('z mw_scheme, unit) cm" where
  "async_nats_message_delete p =
     bnd (deref msgs p) (\<lambda>m.
     sq (store msgs_update p (m\<lparr>am_refs := am_refs m - 1\<rparr>))
        (whenM (am_refs m = 1) (bnd (box_from_raw msgs msgs_update p) (\<lambda>_. ret ()))))"

definition async_nats_message_clone :: "ptr \<Rightarrow> ('z mw_scheme, ptr) cm" where
  "async_nats_message_clone p =
     bnd (deref msgs p) (\<lambda>m.
     sq (store msgs_update p (m\<lparr>am_refs := am_refs m + 1\<rparr>)) (ret p))"

definition async_nats_message_topic :: "ptr \<Rightarrow> ('z mw_scheme, AsyncNatsSlice) cm" where
  "async_nats_message_topic p =
     bnd (deref msgs p) (\<lambda>m.
     ret \<lparr>sl_data = DMsg p FSubject, sl_size = of_nat (length (subject (am_msg m)))\<rparr>)"

definition async_nats_message_data :: "ptr \<Rightarrow> ('z mw_scheme, AsyncNatsSlice) cm" where
  "async_nats_message_data p =
     bnd (deref msgs p) (\<lambda>m.
     ret \<lparr>sl_data = DMsg p FPayload, sl_size = of_nat (length (payload (am_msg m)))\<rparr>)"

definition async_nats_message_reply_to :: "ptr \<Rightarrow> ('z mw_scheme, AsyncNatsSlice) cm" where
  "async_nats_message_reply_to p =
     bnd (deref msgs p) (\<lambda>m.
     case reply (am_msg m) of
       None \<Rightarrow> ret slice_default
     | Some r \<Rightarrow> ret \<lparr>sl_data = DMsg p FReply, sl_size = of_nat (length r)\<rparr>)"

definition async_nats_message_has_headers :: "ptr \<Rightarrow> ('z mw_scheme, bool) cm" where
  "async_nats_message_has_headers p =
     bnd (deref msgs p) (\<lambda>m. ret (headers (am_msg m) \<noteq> None))"

definition async_nats_message_status :: "ptr \<Rightarrow> ('z mw_scheme, u16) cm" where
  "async_nats_message_status p =
     bnd (deref msgs p) (\<lambda>m.
     case status (am_msg m) of None \<Rightarrow> ret 0 | Some s \<Rightarrow> ret s)"

definition async_nats_message_description :: "ptr \<Rightarrow> ('z mw_scheme, AsyncNatsSlice) cm" where
  "async_nats_message_description p =
     bnd (deref msgs p) (\<lambda>m.
     case description (am_msg m) of
       None \<Rightarrow> ret slice_default
     | Some d \<Rightarrow> ret \<lparr>sl_data = DMsg p FDescription, sl_size = of_nat (length d)\<rparr>)"

definition async_nats_message_length :: "ptr \<Rightarrow> ('z mw_scheme, u64) cm" where
  "async_nats_message_length p = bnd (deref msgs p) (\<lambda>m. ret (msg_length (am_msg m)))"

text \<open>\<open>debug\<close> is the \<open>Debug\<close> formatting of \<open>async_nats::Message\<close>, a function of that crate.\<close>

definition async_nats_message_to_string ::
    "(nats_message \<Rightarrow> bytes) \<Rightarrow> ptr \<Rightarrow> ('z mw_scheme, ptr) cm" where
  "async_nats_message_to_string debug p =
     bnd (deref msgs p) (\<lambda>m. string_to_owned_string (debug (am_msg m)))"

subsection \<open>The class Message\<close>

definition status_None :: u16 where "status_None = 0"
definition status_IdleHeartbeat :: u16 where "status_IdleHeartbeat = 100"
definition status_Ok :: u16 where "status_Ok = 200"
definition status_NotFound :: u16 where "status_NotFound = 404"
definition status_Timeout :: u16 where "status_Timeout = 408"
definition status_NoResponders :: u16 where "status_NoResponders = 503"
definition status_RequestTerminated :: u16 where "status_RequestTerminated = 409"

definition Message_default :: "oid \<Rightarrow> ('z mw_scheme, unit) cm" where
  "Message_default this = obj_put mobjs_update this null"

definition Message_from_raw :: "oid \<Rightarrow> ptr \<Rightarrow> ('z mw_scheme, unit) cm" where
  "Message_from_raw this message = obj_put mobjs_update this message"

definition Message_copy_ctor :: "oid \<Rightarrow> oid \<Rightarrow> ('z mw_scheme, unit) cm" where
  "Message_copy_ctor this other =
     bnd (obj_get mobjs other) (\<lambda>o_message.
     if o_message = null then obj_put mobjs_update this null
     else bnd (async_nats_message_clone o_message) (\<lambda>p. obj_put mobjs_update this p))"

definition Message_move_ctor :: "oid \<Rightarrow> oid \<Rightarrow> ('z mw_scheme, unit) cm" where
  "Message_move_ctor this other =
     bnd (obj_get mobjs other) (\<lambda>o_message.
     sq (obj_put mobjs_update this o_message) (obj_put mobjs_update other null))"

definition Message_dtor :: "oid \<Rightarrow> ('z mw_scheme, unit) cm" where
  "Message_dtor this =
     bnd (obj_get mobjs this) (\<lambda>message.
     sq (whenM (message \<noteq> null) (async_nats_message_delete message)) (obj_end mobjs_update this))"

definition Message_copy_assign :: "oid \<Rightarrow> oid \<Rightarrow> ('z mw_scheme, unit) cm" where
  "Message_copy_assign this other =
     (if this = other then ret ()
      else bnd (obj_get mobjs this) (\<lambda>message.
           sq (whenM (message \<noteq> null)
                (sq (async_nats_message_delete message) (obj_put mobjs_update this null)))
           (bnd (obj_get mobjs other) (\<lambda>o_message.
            if o_message = null then ret ()
            else bnd (async_nats_message_clone o_message) (\<lambda>p. obj_put mobjs_update this p)))))"

definition Message_move_assign :: "oid \<Rightarrow> oid \<Rightarrow> ('z mw_scheme, unit) cm" where
  "Message_move_assign this other =
     (if this = other then ret ()
      else bnd (obj_get mobjs this) (\<lambda>message.
           sq (whenM (message \<noteq> null) (async_nats_message_delete message))
           (bnd (obj_get mobjs other) (\<lambda>o_message.
            sq (obj_put mobjs_update this o_message) (obj_put mobjs_update other null)))))"

definition Message_bool :: "oid \<Rightarrow> ('z mw_scheme, bool) cm" where
  "Message_bool this = bnd (obj_get mobjs this) (\<lambda>message. ret (message \<noteq> null))"

abbreviation (input) null_check :: string where
  "null_check \<equiv> ''Message must be checked for null before usage''"

definition Message_topic :: "oid \<Rightarrow> ('z mw_scheme, string_view) cm" where
  "Message_topic this =
     bnd (obj_get mobjs this) (\<lambda>message.
     sq (assertM (message \<noteq> null) null_check)
     (bnd (async_nats_message_topic message) (\<lambda>slice. ret (slice_view slice))))"

definition Message_data :: "oid \<Rightarrow> ('z mw_scheme, string_view) cm" where
  "Message_data this =
     bnd (obj_get mobjs this) (\<lambda>message.
     bnd (async_nats_message_data message) (\<lambda>slice. ret (slice_view slice)))"

definition Message_reply_to :: "oid \<Rightarrow> ('z mw_scheme, string_view option) cm" where
  "Message_reply_to this =
     bnd (obj_get mobjs this) (\<lambda>message.
     sq (assertM (message \<noteq> null) null_check)
     (bnd (async_nats_message_reply_to message) (\<lambda>slice.
      if sl_data slice \<noteq> DNull then ret (Some (slice_view slice)) else ret None)))"

definition Message_status :: "oid \<Rightarrow> ('z mw_scheme, u16) cm" where
  "Message_status this =
     bnd (obj_get mobjs this) (\<lambda>message.
     sq (assertM (message \<noteq> null) null_check) (async_nats_message_status message))"

definition Message_description :: "oid \<Rightarrow> ('z mw_scheme, string_view option) cm" where
  "Message_description this =
     bnd (obj_get mobjs this) (\<lambda>message.
     sq (assertM (message \<noteq> null) null_check)
     (bnd (async_nats_message_description message) (\<lambda>slice.
      if sl_data slice \<noteq> DNull then ret (Some (slice_view slice)) else ret None)))"

definition Message_length :: "oid \<Rightarrow> ('z mw_scheme, u64) cm" where
  "Message_length this = bnd (obj_get mobjs this) (\<lambda>message. async_nats_message_length message)"

text \<open>\<open>to_string\<close> constructs its result, the \<open>OwnedString\<close> object \<open>res\<close>.\<close>

definition Message_to_string ::
    "(nats_message \<Rightarrow> bytes) \<Rightarrow> oid \<Rightarrow> oid \<Rightarrow> ('z mw_scheme, unit) cm" where
  "Message_to_string debug this res =
     bnd (obj_get mobjs this) (\<lambda>message.
     sq (assertM (message \<noteq> null) null_check)
     (bnd (async_nats_message_to_string debug message) (\<lambda>s. OwnedString_ctor res s)))"

definition Message_class :: "'z mw_scheme hclass" where
  "Message_class =
     \<lparr>h_adopt = Message_from_raw, h_move = Message_move_ctor,
      h_move_assign = Message_move_assign, h_dtor = Message_dtor,
      h_copy = Message_copy_ctor, h_copy_assign = Message_copy_assign\<rparr>"

subsection \<open>The class HeadersView\<close>

text \<open>The constructor from a message takes a reference of its own.\<close>

definition HeadersView_init :: "oid \<Rightarrow> ptr \<Rightarrow> ('z mw_scheme, unit) cm" where
  "HeadersView_init this message = obj_put hvobjs_update this message"

definition HeadersView_ctor :: "oid \<Rightarrow> ptr \<Rightarrow> ('z mw_scheme, unit) cm" where
  "HeadersView_ctor this message =
     (if message \<noteq> null
      then bnd (async_nats_message_clone message) (\<lambda>p. HeadersView_init this p)
      else HeadersView_init this null)"

definition HeadersView_move_ctor :: "oid \<Rightarrow> oid \<Rightarrow> ('z mw_scheme, unit) cm" where
  "HeadersView_move_ctor this other =
     bnd (obj_get hvobjs other) (\<lambda>o_message.
     sq (obj_put hvobjs_update this o_message) (obj_put hvobjs_update other null))"

definition HeadersView_dtor :: "oid \<Rightarrow> ('z mw_scheme, unit) cm" where
  "HeadersView_dtor this =
     bnd (obj_get hvobjs this) (\<lambda>message.
     sq (whenM (message \<noteq> null) (async_nats_message_delete message)) (obj_end hvobjs_update this))"

definition HeadersView_move_assign :: "oid \<Rightarrow> oid \<Rightarrow> ('z mw_scheme, unit) cm" where
  "HeadersView_move_assign this other =
     (if this = other then ret ()
      else bnd (obj_get hvobjs this) (\<lambda>message.
           sq (whenM (message \<noteq> null) (async_nats_message_delete message))
           (bnd (obj_get hvobjs other) (\<lambda>o_message.
            sq (obj_put hvobjs_update this o_message) (obj_put hvobjs_update other null)))))"

definition HeadersView_bool :: "oid \<Rightarrow> ('z mw_scheme, bool) cm" where
  "HeadersView_bool this =
     bnd (obj_get hvobjs this) (\<lambda>message. async_nats_message_has_headers message)"

text \<open>\<open>Message::headers()\<close> constructs the view \<open>res\<close>.\<close>

definition Message_headers :: "oid \<Rightarrow> oid \<Rightarrow> ('z mw_scheme, unit) cm" where
  "Message_headers this res =
     bnd (obj_get mobjs this) (\<lambda>message. HeadersView_ctor res message)"

definition HeadersView_class :: "'z mw_scheme hclass" where
  "HeadersView_class =
     \<lparr>h_adopt = HeadersView_init, h_move = HeadersView_move_ctor,
      h_move_assign = HeadersView_move_assign, h_dtor = HeadersView_dtor,
      h_copy = deleted, h_copy_assign = deleted\<rparr>"

lemmas Message_defs = Message_from_raw_def Message_move_ctor_def Message_dtor_def
  Message_move_assign_def Message_copy_ctor_def Message_copy_assign_def Message_class_def

lemmas HeadersView_defs = HeadersView_init_def HeadersView_move_ctor_def HeadersView_dtor_def
  HeadersView_move_assign_def HeadersView_class_def

subsection \<open>The references to a message\<close>

abbreviation msg_refs :: "'z mw_scheme \<Rightarrow> ptr \<Rightarrow> nat" where
  "msg_refs \<equiv> rc_refs msgs am_refs"

text \<open>
  What the operations of the two classes keep: the message boxes are well formed, the message in
  a box never changes (\<open>C\<close> gives the message of each address), and the rest of the world
  (\<open>F\<close>) stays as it is.
\<close>

definition msg_frame where
  "msg_frame w = (cbuf w, strs w, layout_errs w, sobjs w, mw.more w)"

definition msg_wf :: "(ptr \<Rightarrow> nats_message) \<Rightarrow> _ \<Rightarrow> 'z mw_scheme \<Rightarrow> bool" where
  "msg_wf C F w \<longleftrightarrow>
     rc_wf msgs am_refs w \<and> (\<forall>p m. msgs w p = Some m \<longrightarrow> am_msg m = C p) \<and> msg_frame w = F"

interpretation msg_box: rc_clone_box msgs msgs_update am_refs "\<lambda>n m. m\<lparr>am_refs := n\<rparr>"
  async_nats_message_delete async_nats_message_clone
  by unfold_locales
    (simp_all add: async_nats_message_delete_def async_nats_message_clone_def idiom_rc_delete_def
      idiom_rc_clone_def)

lemma msg_wf_rc: "msg_wf C F w \<Longrightarrow> rc_wf msgs am_refs w"
  by (simp add: msg_wf_def)

lemma message_delete_content:
  "async_nats_message_delete p w = Inr (u, w') \<Longrightarrow>
    (\<forall>q m. msgs w' q = Some m \<longrightarrow> (\<exists>m'. msgs w q = Some m' \<and> am_msg m = am_msg m'))
    \<and> msg_frame w' = msg_frame w \<and> mobjs w' = mobjs w \<and> hvobjs w' = hvobjs w"
  by (auto simp: async_nats_message_delete_def msg_frame_def cm_simps split: if_splits option.splits)

lemma message_clone_content:
  "async_nats_message_clone p w = Inr (q, w') \<Longrightarrow>
    (\<forall>q m. msgs w' q = Some m \<longrightarrow> (\<exists>m'. msgs w q = Some m' \<and> am_msg m = am_msg m'))
    \<and> msg_frame w' = msg_frame w \<and> mobjs w' = mobjs w \<and> hvobjs w' = hvobjs w"
  by (auto simp: async_nats_message_clone_def msg_frame_def cm_simps split: if_splits option.splits)

lemma message_delete_ok:
  assumes "msg_wf C F w" "0 < msg_refs w p"
  shows "\<exists>w'. async_nats_message_delete p w = Inr ((), w') \<and> msg_wf C F w'
    \<and> msg_refs w' = (msg_refs w)(p := msg_refs w p - 1) \<and> mobjs w' = mobjs w \<and> hvobjs w' = hvobjs w"
proof -
  obtain w' where w': "async_nats_message_delete p w = Inr ((), w')" "rc_wf msgs am_refs w'"
    "msg_refs w' = (msg_refs w)(p := msg_refs w p - 1)"
    using msg_box.rc_del_ok [OF msg_wf_rc [OF assms(1)] assms(2)] by blast
  with message_delete_content [OF w'(1)] assms(1) show ?thesis
    by (fastforce simp: msg_wf_def)
qed

lemma message_clone_ok:
  assumes "msg_wf C F w" "0 < msg_refs w p" "msg_refs w p < 2 ^ 64 - 1"
  shows "\<exists>w'. async_nats_message_clone p w = Inr (p, w') \<and> p \<noteq> null \<and> msg_wf C F w'
    \<and> msg_refs w' = (msg_refs w)(p := Suc (msg_refs w p)) \<and> mobjs w' = mobjs w \<and> hvobjs w' = hvobjs w"
proof -
  obtain w' where w': "async_nats_message_clone p w = Inr (p, w')" "rc_wf msgs am_refs w'" "p \<noteq> null"
    "msg_refs w' = (msg_refs w)(p := Suc (msg_refs w p))"
    using msg_box.rc_clone_ok [OF msg_wf_rc [OF assms(1)] assms(2,3)] by blast
  with message_clone_content [OF w'(1)] assms(1) show ?thesis
    by (fastforce simp: msg_wf_def)
qed

lemma msg_obj_frame:
  "msg_refs (mobjs_update f w) = msg_refs w" "msg_refs (hvobjs_update f w) = msg_refs w"
  "msg_wf C F (mobjs_update f w) = msg_wf C F w" "msg_wf C F (hvobjs_update f w) = msg_wf C F w"
  by (rule rc_refs_frame, simp, rule rc_refs_frame, simp)
    (simp_all add: msg_wf_def msg_frame_def rc_wf_def)

lemma msg_wf_null: "msg_wf C F w \<Longrightarrow> msg_refs w null = 0"
  by (simp add: msg_wf_def rc_refs_null)

text \<open>
  What the copy operations of \<open>Message\<close> do with the pointer they copy. The copy assignment
  writes null first; the result is that of the idiom.
\<close>

definition Message_copy_ptr :: "ptr \<Rightarrow> ('z mw_scheme, ptr) cm" where
  "Message_copy_ptr p = (if p = null then ret null else async_nats_message_clone p)"

lemma Message_copy_ctor_idiom:
  "Message_copy_ctor i j = idiom_copy_ctor mobjs mobjs_update Message_copy_ptr i j"
  by (auto simp: fun_eq_iff Message_copy_ctor_def idiom_copy_ctor_def Message_copy_ptr_def cm_simps
      split: option.splits)

lemma mobjs_same: "mobjs w i = Some p \<Longrightarrow> mobjs_update (\<lambda>c. c(i \<mapsto> p)) w = w"
  by (cases w) (simp add: fun_upd_idem)

lemma Message_copy_assign_idiom:
  "Message_copy_assign i j
     = idiom_copy_assign mobjs mobjs_update async_nats_message_delete Message_copy_ptr i j"
proof (cases "i = j")
  case True
  then show ?thesis by (simp add: Message_copy_assign_def idiom_copy_assign_def)
next
  case False
  then show ?thesis
    by (auto simp: fun_eq_iff Message_copy_assign_def idiom_copy_assign_def Message_copy_ptr_def
        async_nats_message_delete_def async_nats_message_clone_def cm_simps mobjs_same
        split: option.splits)
qed

text \<open>The laws of delete and clone as the two classes see them.\<close>

lemma message_delete_law:
  assumes "msg_wf C F w \<and> hvobjs w = H" "0 < msg_refs w p"
  shows "\<exists>w'. async_nats_message_delete p w = Inr ((), w') \<and> (msg_wf C F w' \<and> hvobjs w' = H)
    \<and> msg_refs w' = (msg_refs w)(p := msg_refs w p - 1) \<and> mobjs w' = mobjs w"
  using message_delete_ok [of C F w p] assms by auto

lemma message_clone_law:
  assumes "msg_wf C F w \<and> hvobjs w = H" "0 < msg_refs w p" "msg_refs w p < 2 ^ 64 - 1"
  shows "\<exists>q w'. async_nats_message_clone p w = Inr (q, w') \<and> q \<noteq> null
    \<and> (msg_wf C F w' \<and> hvobjs w' = H)
    \<and> msg_refs w' = (msg_refs w)(q := Suc (msg_refs w q)) \<and> mobjs w' = mobjs w
    \<and> msg_refs w q < 2 ^ 64 - 1"
  using message_clone_ok [of C F w p] assms by auto

lemma view_delete_law:
  assumes "msg_wf C F w \<and> mobjs w = M" "0 < msg_refs w p"
  shows "\<exists>w'. async_nats_message_delete p w = Inr ((), w') \<and> (msg_wf C F w' \<and> mobjs w' = M)
    \<and> msg_refs w' = (msg_refs w)(p := msg_refs w p - 1) \<and> hvobjs w' = hvobjs w"
  using message_delete_ok [of C F w p] assms by auto

interpretation msg_handle: cloning_handle mobjs mobjs_update
  "\<lambda>w. msg_wf C F w \<and> hvobjs w = H" msg_refs async_nats_message_delete Message_class
  async_nats_message_clone CopyAny Message_copy_ptr "2 ^ 64 - 1" for C F H
  by unfold_locales
    ((rule message_delete_law message_clone_law; assumption) | (elim conjE, erule msg_wf_null) |
     (simp add: msg_obj_frame Message_class_def Message_copy_ctor_idiom Message_copy_assign_idiom; fail) |
     (simp add: Message_copy_ptr_def Message_defs idiom_defs; fail))+

interpretation hv_handle: owning_handle hvobjs hvobjs_update
  "\<lambda>w. msg_wf C F w \<and> mobjs w = M" msg_refs async_nats_message_delete HeadersView_class for C F M
  by unfold_locales
    ((rule view_delete_law; assumption) | (elim conjE, erule msg_wf_null) |
     (simp add: msg_obj_frame HeadersView_defs idiom_defs; fail))+

subsection \<open>Programs over messages and header views\<close>

text \<open>
  Both classes hold references to the same boxes. A program mixes the operations of the two
  classes with \<open>Message::headers()\<close>; its lifetime check keeps both sets of objects. A view is
  never built from a raw pointer outside \<open>headers()\<close> (its constructor is private).
\<close>

datatype mop = OnMessage hop | OnView hop | Headers oid oid

fun mstep :: "mop \<Rightarrow> ('z mw_scheme, unit) cm" where
  "mstep (OnMessage x) = hstep Message_class x"
| "mstep (OnView x) = hstep HeadersView_class x"
| "mstep (Headers i v) = Message_headers i v"

fun mrun :: "mop list \<Rightarrow> ('z mw_scheme, unit) cm" where
  "mrun [] = ret ()"
| "mrun (x # xs) = sq (mstep x) (mrun xs)"

type_synonym msg_lifetimes = "(oid \<rightharpoonup> bool) \<times> (oid \<rightharpoonup> bool) \<times> (ptr \<Rightarrow> nat)"

fun mscope :: "msg_lifetimes \<Rightarrow> mop \<Rightarrow> msg_lifetimes option" where
  "mscope (s, v, raw) (OnMessage x) =
     map_option (\<lambda>(s', raw'). (s', v, raw')) (scope CopyAny (s, raw) x)"
| "mscope (s, v, raw) (OnView x) =
     (case x of HAdopt _ _ \<Rightarrow> None
      | _ \<Rightarrow> map_option (\<lambda>(v', raw'). (s, v', raw')) (scope NoCopy (v, raw) x))"
| "mscope (s, v, raw) (Headers i j) =
     (case (s i, v j) of (Some nn, None) \<Rightarrow> Some (s, v(j \<mapsto> nn), raw) | _ \<Rightarrow> None)"

fun mscope_all :: "msg_lifetimes \<Rightarrow> mop list \<Rightarrow> msg_lifetimes option" where
  "mscope_all t [] = Some t"
| "mscope_all t (x # xs) = (case mscope t x of None \<Rightarrow> None | Some t' \<Rightarrow> mscope_all t' xs)"

text \<open>
  The invariant: the counter of a message is the number of \<open>Message\<close> objects, header views and
  raw pointers that hold it.
\<close>

definition msg_inv :: "(ptr \<Rightarrow> nat) \<Rightarrow> 'z mw_scheme \<Rightarrow> bool" where
  "msg_inv raw w \<longleftrightarrow>
     ref_inv (msg_refs w) (mobjs w) (\<lambda>p. holds (hvobjs w) p + raw p) \<and> finite (dom (hvobjs w))"

lemma msg_inv_swap:
  "msg_inv raw w \<longleftrightarrow>
     ref_inv (msg_refs w) (hvobjs w) (\<lambda>p. holds (mobjs w) p + raw p) \<and> finite (dom (mobjs w))"
  by (auto simp: msg_inv_def ref_inv_def)

lemma scope_extra:
  "scope k (s, raw) x = Some (s', raw') \<Longrightarrow>
    scope k (s, \<lambda>p. b p + raw p) x = Some (s', \<lambda>p. b p + raw' p)"
  by (cases x; cases k) (auto split: option.splits if_splits)

lemma mscope_view:
  "mscope (s, v, raw) (OnView x) = Some (s', v', raw') \<Longrightarrow>
    s' = s \<and> scope NoCopy (v, raw) x = Some (v', raw')"
  by (auto simp del: scope.simps split: hop.splits)

text \<open>\<open>headers()\<close> takes a reference for the view it returns.\<close>

lemma headers_ok:
  assumes "msg_wf C F w" "msg_inv raw w" "\<And>p. msg_refs w p < 2 ^ 64 - 1"
    and p: "mobjs w i = Some p" "hvobjs w j = None"
  shows "\<exists>w'. Message_headers i j w = Inr ((), w') \<and> msg_wf C F w' \<and> msg_inv raw w'
    \<and> mobjs w' = mobjs w \<and> hvobjs w' = (hvobjs w)(j \<mapsto> p) \<and> (\<forall>p. msg_refs w' p \<le> Suc (msg_refs w p))"
proof -
  have inv: "ref_inv (msg_refs w) (hvobjs w) (\<lambda>p. holds (mobjs w) p + raw p)"
    using assms(2) by (simp add: msg_inv_swap)
  show ?thesis
  proof (cases "p = null")
    case True
    have "ref_inv (msg_refs w) ((hvobjs w)(j \<mapsto> null)) (\<lambda>p. holds (mobjs w) p + raw p)"
      using p(2) msg_wf_null [OF assms(1)] by (intro ref_inv_update [OF inv]) auto
    then show ?thesis using True p assms(1,2)
      by (simp add: Message_headers_def HeadersView_ctor_def HeadersView_init_def cm_simps
          msg_obj_frame msg_inv_swap)
  next
    case False
    have "0 < msg_refs w p"
      using ref_inv_live [of "msg_refs w" "mobjs w" _ i p] assms(2) p(1) False
      by (auto simp: msg_inv_def)
    then obtain w' where w': "async_nats_message_clone p w = Inr (p, w')" "msg_wf C F w'"
      "msg_refs w' = (msg_refs w)(p := Suc (msg_refs w p))" "mobjs w' = mobjs w" "hvobjs w' = hvobjs w"
      using message_clone_ok [OF assms(1) _ assms(3)] by blast
    have "ref_inv (msg_refs w') ((hvobjs w)(j \<mapsto> p)) (\<lambda>p. holds (mobjs w) p + raw p)"
      using p(2) w'(3) msg_wf_null [OF w'(2)] False by (intro ref_inv_update [OF inv]) auto
    then show ?thesis using False p w' assms(2)
      by (simp add: Message_headers_def HeadersView_ctor_def HeadersView_init_def cm_simps
          msg_obj_frame msg_inv_swap)
  qed
qed

lemma mstep_ok:
  assumes "msg_wf C F w" "msg_inv raw w" "\<And>p. msg_refs w p < 2 ^ 64 - 1"
    and "mscope (nonnull (mobjs w), nonnull (hvobjs w), raw) x = Some (s', v', raw')"
  shows "\<exists>w'. mstep x w = Inr ((), w') \<and> msg_wf C F w' \<and> msg_inv raw' w'
    \<and> nonnull (mobjs w') = s' \<and> nonnull (hvobjs w') = v' \<and> (\<forall>p. msg_refs w' p \<le> Suc (msg_refs w p))"
proof (cases x)
  case (OnMessage y)
  with assms(4) have sc: "v' = nonnull (hvobjs w)"
    "scope CopyAny (nonnull (mobjs w), \<lambda>p. holds (hvobjs w) p + raw p) y
       = Some (s', \<lambda>p. holds (hvobjs w) p + raw' p)"
    by (auto intro: scope_extra)
  obtain w' where "hstep Message_class y w = Inr ((), w')" "msg_wf C F w' \<and> hvobjs w' = hvobjs w"
    "nonnull (mobjs w') = s'" "\<forall>p. msg_refs w' p \<le> Suc (msg_refs w p)"
    "ref_inv (msg_refs w') (mobjs w') (\<lambda>p. holds (hvobjs w) p + raw' p)"
    using msg_handle.cloning_step_ok [of C F w "hvobjs w", OF _ _ assms(3) sc(2)] assms(1,2)
    by (auto simp: msg_inv_def)
  then show ?thesis using OnMessage sc(1) assms(2) by (auto simp: msg_inv_def)
next
  case (OnView y)
  with assms(4) have sc: "s' = nonnull (mobjs w)"
    "scope NoCopy (nonnull (hvobjs w), \<lambda>p. holds (mobjs w) p + raw p) y
       = Some (v', \<lambda>p. holds (mobjs w) p + raw' p)"
    using mscope_view [of _ _ _ y] by (auto intro: scope_extra simp del: mscope.simps)
  obtain w' where "hstep HeadersView_class y w = Inr ((), w')" "msg_wf C F w' \<and> mobjs w' = mobjs w"
    "nonnull (hvobjs w') = v'" "\<forall>p. msg_refs w' p \<le> msg_refs w p"
    "ref_inv (msg_refs w') (hvobjs w') (\<lambda>p. holds (mobjs w) p + raw' p)"
    using hv_handle.owning_step_ok [of C F w "mobjs w", OF _ _ sc(2)] assms(1,2)
    by (auto simp: msg_inv_swap)
  then show ?thesis using OnView sc(1) assms(2)
    by (auto simp: msg_inv_swap intro: le_SucI)
next
  case (Headers i j)
  with assms(4) obtain p where p: "mobjs w i = Some p" "hvobjs w j = None" "s' = nonnull (mobjs w)"
    "v' = (nonnull (hvobjs w))(j \<mapsto> p \<noteq> null)" "raw' = raw"
    by (auto simp: nonnull_Some split: option.splits)
  with headers_ok [OF assms(1-3) p(1,2)] Headers show ?thesis by auto
qed

lemma mrun_ok:
  assumes "msg_wf C F w" "msg_inv raw w" "\<And>p. msg_refs w p + length xs \<le> 2 ^ 64 - 1"
    and "mscope_all (nonnull (mobjs w), nonnull (hvobjs w), raw) xs = Some (s', v', raw')"
  shows "\<exists>w'. mrun xs w = Inr ((), w') \<and> msg_wf C F w' \<and> msg_inv raw' w'
    \<and> nonnull (mobjs w') = s' \<and> nonnull (hvobjs w') = v'"
  using assms
proof (induction xs arbitrary: w raw)
  case Nil
  then show ?case by simp
next
  case (Cons x xs)
  from Cons.prems(4) obtain s1 v1 raw1 where
    x: "mscope (nonnull (mobjs w), nonnull (hvobjs w), raw) x = Some (s1, v1, raw1)"
    and xs: "mscope_all (s1, v1, raw1) xs = Some (s', v', raw')"
    by (auto split: option.splits)
  have room: "msg_refs w p < 2 ^ 64 - 1" for p
    using Cons.prems(3) [of p] by simp
  obtain w1 where w1: "mstep x w = Inr ((), w1)" "msg_wf C F w1" "msg_inv raw1 w1"
    "nonnull (mobjs w1) = s1" "nonnull (hvobjs w1) = v1" "\<And>p. msg_refs w1 p \<le> Suc (msg_refs w p)"
    using mstep_ok [OF Cons.prems(1,2) room x] by blast
  have "msg_refs w1 p + length xs \<le> 2 ^ 64 - 1" for p
    using Cons.prems(3) [of p] w1(6) [of p] by simp
  with Cons.IH [OF w1(2,3)] xs w1 show ?case by (simp add: sq_run)
qed

subsection \<open>Properties\<close>

text \<open>A concrete world: one message, received and not adopted yet.\<close>

definition ex_message :: nats_message where
  "ex_message = \<lparr>subject = bs ''test'', reply = Some (bs ''inbox''), payload = bs ''hello'',
     headers = Some [(bs ''k'', [bs ''v1'', bs ''v2'']), (bs ''n'', [bs ''w''])],
     status = Some 503, description = None, msg_length = 30\<rparr>"

definition ex_world :: mw where
  "ex_world = \<lparr>brk = 2, cbuf = Map.empty, strs = Map.empty, layout_errs = 0, sobjs = Map.empty,
     msgs = [1 \<mapsto> message_into ex_message], mobjs = Map.empty, hvobjs = Map.empty\<rparr>"

definition ex_raw :: "ptr \<Rightarrow> nat" where
  "ex_raw = (\<lambda>p. if p = 1 then 1 else 0)"

lemma ex_refs: "msg_refs ex_world p = (if p = 1 then 1 else 0)"
  by (simp add: rc_refs_def ex_world_def message_into_def)

lemma ex_wf: "msg_wf (\<lambda>_. ex_message) (msg_frame ex_world) ex_world"
  by (simp add: msg_wf_def rc_wf_def heap_ok_def ex_world_def message_into_def)

lemma ex_inv: "msg_inv ex_raw ex_world"
  by (auto simp: msg_inv_def ref_inv_def ex_refs ex_raw_def, auto simp: ex_world_def)

lemma ex_objs: "mobjs ex_world = Map.empty" "hvobjs ex_world = Map.empty"
  by (simp_all add: ex_world_def)

text \<open>
  C5: every well-scoped program over \<open>Message\<close> and \<open>HeadersView\<close> objects (copies, moves,
  assignments with self-assignment included, \<open>headers()\<close>, destructions) that creates fewer than
  \<open>2 ^ 64\<close> references runs without undefined behaviour and without any other fault, keeps the
  counter of every message equal to the number of its holders, keeps the contents of every
  message, touches nothing else, and leaves alive exactly the objects its scoping says.
\<close>

theorem message_programs_safe:
  assumes "msg_wf C F w" "msg_inv raw w" "\<And>p. msg_refs w p + length xs \<le> 2 ^ 64 - 1"
    and "mscope_all (nonnull (mobjs w), nonnull (hvobjs w), raw) xs = Some (s', v', raw')"
  shows "\<exists>w'. mrun xs w = Inr ((), w') \<and> msg_wf C F w' \<and> msg_inv raw' w'
    \<and> nonnull (mobjs w') = s' \<and> nonnull (hvobjs w') = v'"
  using mrun_ok [OF assms] .

text \<open>The program of the witness: adopt the message, copy it, view its headers, assign, destroy two.\<close>

definition ex_program :: "mop list" where
  "ex_program = [OnMessage (HAdopt 0 1), OnMessage (HCopy 1 0), Headers 1 7,
     OnMessage (HCopyAssign 0 1), OnMessage (HMove 2 1), OnMessage (HDestroy 0), OnMessage (HDestroy 1)]"

lemma ex_room: "msg_refs ex_world p + length ex_program \<le> 2 ^ 64 - 1"
  "msg_refs ex_world p + length (ex_program @ [x, y]) \<le> 2 ^ 64 - 1"
  by (simp_all add: ex_refs ex_program_def)

theorem message_programs_safe_witness:
  "\<exists>w'. mrun ex_program ex_world = Inr ((), w') \<and> msg_inv (\<lambda>_. 0) w'
    \<and> nonnull (mobjs w') = [2 \<mapsto> True] \<and> nonnull (hvobjs w') = [7 \<mapsto> True]"
proof -
  have "mscope_all (nonnull (mobjs ex_world), nonnull (hvobjs ex_world), ex_raw) ex_program
    = Some ([2 \<mapsto> True], [7 \<mapsto> True], \<lambda>_. 0)"
    by (auto simp: ex_program_def ex_objs nonnull_def ex_raw_def fun_eq_iff)
  then show ?thesis
    using message_programs_safe [OF ex_wf ex_inv ex_room(1)] by blast
qed

text \<open>
  C13: no leak. When such a program ends with no object alive and no raw pointer left, every
  message box has been freed.
\<close>

theorem message_programs_no_leak:
  assumes "msg_wf C F w" "msg_inv raw w" "\<And>p. msg_refs w p + length xs \<le> 2 ^ 64 - 1"
    and "mscope_all (nonnull (mobjs w), nonnull (hvobjs w), raw) xs
      = Some (Map.empty, Map.empty, \<lambda>_. 0)"
  shows "\<exists>w'. mrun xs w = Inr ((), w') \<and> msgs w' = Map.empty"
proof -
  obtain w' where w': "mrun xs w = Inr ((), w')" "msg_wf C F w'" "msg_inv (\<lambda>_. 0) w'"
    "nonnull (mobjs w') = Map.empty" "nonnull (hvobjs w') = Map.empty"
    using mrun_ok [OF assms] by blast
  then have "mobjs w' = Map.empty" "hvobjs w' = Map.empty"
    by (auto simp: fun_eq_iff nonnull_def)
  with w'(3) have "msg_refs w' p = 0" for p
    by (intro ref_inv_no_leak [of _ "mobjs w'"]) (auto simp: msg_inv_def)
  with w'(1) rc_freed [OF msg_wf_rc [OF w'(2)]] show ?thesis by auto
qed

theorem message_programs_no_leak_witness:
  "\<exists>w'. mrun (ex_program @ [OnView (HDestroy 7), OnMessage (HDestroy 2)]) ex_world = Inr ((), w')
    \<and> msgs w' = Map.empty"
proof -
  have "mscope_all (nonnull (mobjs ex_world), nonnull (hvobjs ex_world), ex_raw)
      (ex_program @ [OnView (HDestroy 7), OnMessage (HDestroy 2)])
    = Some (Map.empty, Map.empty, \<lambda>_. 0)"
    by (auto simp: ex_program_def ex_objs nonnull_def ex_raw_def fun_eq_iff)
  then show ?thesis
    using message_programs_no_leak [OF ex_wf ex_inv ex_room(2)] by blast
qed

definition read_opt :: "string_view option \<Rightarrow> ('z cw_scheme, bytes option) cm" where
  "read_opt v = (case v of None \<Rightarrow> ret None | Some x \<Rightarrow> bnd (view_bytes x) (\<lambda>b. ret (Some b)))"

lemmas accessor_defs = Message_topic_def Message_data_def Message_reply_to_def Message_status_def
  Message_description_def Message_length_def async_nats_message_topic_def async_nats_message_data_def
  async_nats_message_reply_to_def async_nats_message_status_def async_nats_message_description_def
  async_nats_message_length_def slice_view_def slice_default_def read_opt_def

definition msg_fits :: "nats_message \<Rightarrow> bool" where
  "msg_fits m \<longleftrightarrow> fits64 (subject m) \<and> fits64 (payload m)
     \<and> pred_option fits64 (reply m) \<and> pred_option fits64 (description m)"

text \<open>
  C33: the accessors of a message that is held and not null return what was received: the views
  of topic, data, reply subject and description read the bytes of the message, an absent reply
  subject or description is \<open>nullopt\<close>, the status is 0 when there is none.
\<close>

theorem message_accessors:
  assumes "mobjs w i = Some p" "p \<noteq> null" "msgs w p = Some b" "msg_fits (am_msg b)"
  shows "bnd (Message_topic i) view_bytes w = Inr (subject (am_msg b), w)
    \<and> bnd (Message_data i) view_bytes w = Inr (payload (am_msg b), w)
    \<and> bnd (Message_reply_to i) read_opt w = Inr (reply (am_msg b), w)
    \<and> bnd (Message_description i) read_opt w = Inr (description (am_msg b), w)
    \<and> Message_status i w = Inr (case status (am_msg b) of None \<Rightarrow> 0 | Some s \<Rightarrow> s, w)
    \<and> Message_length i w = Inr (msg_length (am_msg b), w)"
proof (intro conjI)
  note fits = assms(4) [unfolded msg_fits_def]
  show "bnd (Message_topic i) view_bytes w = Inr (subject (am_msg b), w)"
    "bnd (Message_data i) view_bytes w = Inr (payload (am_msg b), w)"
    using assms(1-3) fits by (simp_all add: accessor_defs cm_simps)
  show "bnd (Message_reply_to i) read_opt w = Inr (reply (am_msg b), w)"
    using assms(1-3) fits by (cases "reply (am_msg b)") (simp_all add: accessor_defs cm_simps)
  show "bnd (Message_description i) read_opt w = Inr (description (am_msg b), w)"
    using assms(1-3) fits by (cases "description (am_msg b)") (simp_all add: accessor_defs cm_simps)
  show "Message_status i w = Inr (case status (am_msg b) of None \<Rightarrow> 0 | Some s \<Rightarrow> s, w)"
    "Message_length i w = Inr (msg_length (am_msg b), w)"
    using assms(1-3) by (simp_all add: accessor_defs cm_simps split: option.splits)
qed

theorem message_accessors_witness:
  "bnd (Message_topic 0) view_bytes (ex_world\<lparr>mobjs := [0 \<mapsto> 1]\<rparr>)
    = Inr (bs ''test'', ex_world\<lparr>mobjs := [0 \<mapsto> 1]\<rparr>)"
proof -
  let ?w = "ex_world\<lparr>mobjs := [0 \<mapsto> 1]\<rparr>"
  have w: "mobjs ?w 0 = Some 1" "msgs ?w 1 = Some (message_into ex_message)"
    by (simp_all add: ex_world_def)
  moreover have "msg_fits (am_msg (message_into ex_message))"
    by (simp add: msg_fits_def fits64_def message_into_def ex_message_def bs_def)
  ultimately have "bnd (Message_topic 0) view_bytes ?w
      = Inr (subject (am_msg (message_into ex_message)), ?w)"
    using message_accessors [of ?w 0 1] by blast
  then show ?thesis by (simp add: message_into_def ex_message_def)
qed

text \<open>
  On a null message the accessors that assert stop at the assertion; \<open>data()\<close>,
  \<open>length()\<close> and the boolean conversion of the view that \<open>headers()\<close> builds have no assertion
  and dereference null.
\<close>

theorem message_null_accessors:
  assumes "mobjs w i = Some null"
  shows "Message_topic i w = Inl (AssertFail null_check)
    \<and> Message_reply_to i w = Inl (AssertFail null_check)
    \<and> Message_status i w = Inl (AssertFail null_check)
    \<and> Message_description i w = Inl (AssertFail null_check)
    \<and> Message_to_string debug i r w = Inl (AssertFail null_check)
    \<and> Message_data i w = Inl (UB NullDeref)
    \<and> Message_length i w = Inl (UB NullDeref)
    \<and> sq (Message_headers i v) (HeadersView_bool v) w = Inl (UB NullDeref)"
  using assms
  by (simp add: accessor_defs Message_to_string_def Message_headers_def HeadersView_ctor_def
      HeadersView_init_def HeadersView_bool_def async_nats_message_has_headers_def cm_simps)

theorem message_null_accessors_witness:
  "Message_data 3 (ex_world\<lparr>mobjs := [3 \<mapsto> null]\<rparr>) = Inl (UB NullDeref)"
  using message_null_accessors [of "ex_world\<lparr>mobjs := [3 \<mapsto> null]\<rparr>" 3] by simp

lemma held_message_live:
  assumes "msg_wf C F w" "msg_inv raw w" "p \<noteq> null" "mobjs w k = Some p \<or> hvobjs w k = Some p"
  shows "\<exists>m. msgs w p = Some m \<and> am_msg m = C p"
proof -
  have "0 < msg_refs w p"
    using assms(4)
  proof
    assume "mobjs w k = Some p"
    with assms(2,3) show ?thesis unfolding msg_inv_def by (blast intro: ref_inv_live)
  next
    assume "hvobjs w k = Some p"
    with assms(2,3) show ?thesis unfolding msg_inv_swap by (blast intro: ref_inv_live)
  qed
  then show ?thesis
    using assms(1) by (auto simp: rc_refs_def msg_wf_def split: option.splits)
qed

text \<open>
  C34: a view taken from a message stays valid, and keeps reading the same bytes, through every
  well-scoped program at whose end some \<open>Message\<close> or \<open>HeadersView\<close> object still holds the
  message, whether or not the object the view was taken from is still alive.
\<close>

theorem message_view_lifetime:
  assumes "msg_wf C F w" "msg_inv raw w" "\<And>p. msg_refs w p + length xs \<le> 2 ^ 64 - 1"
    and "mscope_all (nonnull (mobjs w), nonnull (hvobjs w), raw) xs = Some t"
    and "mobjs w i = Some p" "p \<noteq> null" "msg_fits (C p)"
    and "mrun xs w = Inr ((), w')" "mobjs w' k = Some p \<or> hvobjs w' k = Some p"
  shows "\<exists>v d. Message_topic i w = Inr (v, w) \<and> view_bytes v w' = Inr (subject (C p), w')
    \<and> Message_data i w = Inr (d, w) \<and> view_bytes d w' = Inr (payload (C p), w')"
proof -
  obtain m where m: "msgs w p = Some m" "am_msg m = C p"
    using held_message_live [OF assms(1,2,6)] assms(5) by blast
  obtain s' v' raw' where t: "t = (s', v', raw')" by (cases t)
  have "msg_wf C F w'" "msg_inv raw' w'"
    using mrun_ok [OF assms(1-3) assms(4) [unfolded t]] assms(8) by auto
  then obtain m' where m': "msgs w' p = Some m'" "am_msg m' = C p"
    using held_message_live [OF _ _ assms(6,9)] by blast
  show ?thesis
    using m m' assms(5-7) by (auto simp: accessor_defs cm_simps msg_fits_def)
qed

theorem message_view_lifetime_witness:
  "\<exists>v d w'. mrun [OnMessage (HCopy 4 0), OnMessage (HDestroy 0)] (ex_world\<lparr>mobjs := [0 \<mapsto> 1]\<rparr>)
      = Inr ((), w')
    \<and> Message_topic 0 (ex_world\<lparr>mobjs := [0 \<mapsto> 1]\<rparr>) = Inr (v, ex_world\<lparr>mobjs := [0 \<mapsto> 1]\<rparr>)
    \<and> view_bytes v w' = Inr (bs ''test'', w')
    \<and> view_bytes d w' = Inr (bs ''hello'', w')"
proof -
  let ?w = "ex_world\<lparr>mobjs := [0 \<mapsto> 1]\<rparr>" and ?xs = "[OnMessage (HCopy 4 0), OnMessage (HDestroy 0)]"
  have wf: "msg_wf (\<lambda>_. ex_message) (msg_frame ex_world) ?w"
    using ex_wf by (simp add: msg_obj_frame)
  have inv: "msg_inv (\<lambda>_. 0) ?w"
    by (auto simp: msg_inv_def ref_inv_def msg_obj_frame ex_refs holds_def, simp_all add: ex_world_def)
  have room: "msg_refs ?w p + length ?xs \<le> 2 ^ 64 - 1" for p
    by (simp add: msg_obj_frame ex_refs)
  have sc: "mscope_all (nonnull (mobjs ?w), nonnull (hvobjs ?w), \<lambda>_. 0) ?xs
      = Some ([4 \<mapsto> True], Map.empty, \<lambda>_. 0)"
    by (auto simp: ex_world_def nonnull_def fun_eq_iff)
  obtain w' where w': "mrun ?xs ?w = Inr ((), w')" "mobjs w' 4 = Some 1"
    by (auto simp: ex_world_def message_into_def Message_class_def Message_copy_ctor_def
        Message_dtor_def async_nats_message_clone_def async_nats_message_delete_def cm_simps)
  have "msg_fits ex_message"
    by (simp add: msg_fits_def fits64_def ex_message_def bs_def)
  then show ?thesis
    using message_view_lifetime [OF wf inv room sc, of 0 1 w' 4] w'
    by (auto simp: ex_message_def)
qed

text \<open>
  Once the last holder of a message is destroyed, a view of its (non-empty) topic dangles:
  reading it is a use after free.
\<close>

theorem message_view_dangles:
  assumes "msg_wf C F w" "mobjs w i = Some p" "msg_refs w p = 1"
    and "subject (C p) \<noteq> []" "fits64 (subject (C p))"
  shows "\<exists>v w'. Message_topic i w = Inr (v, w) \<and> Message_dtor i w = Inr ((), w')
    \<and> view_bytes v w' = Inl (UB UseAfterFree)"
proof -
  obtain m where m: "msgs w p = Some m" "am_msg m = C p" "am_refs m = 1" "p \<noteq> null"
    using assms(1,3) msg_wf_null [OF assms(1)]
    by (cases "p = null") (auto simp: rc_refs_def msg_wf_def word_unat_eq_iff split: option.splits)
  then show ?thesis
    using assms(2,4,5)
    by (simp add: accessor_defs Message_dtor_def async_nats_message_delete_def cm_simps)
qed

theorem message_view_dangles_witness:
  "\<exists>v w'. Message_topic 0 (ex_world\<lparr>mobjs := [0 \<mapsto> 1]\<rparr>) = Inr (v, ex_world\<lparr>mobjs := [0 \<mapsto> 1]\<rparr>)
    \<and> Message_dtor 0 (ex_world\<lparr>mobjs := [0 \<mapsto> 1]\<rparr>) = Inr ((), w')
    \<and> view_bytes v w' = Inl (UB UseAfterFree)"
proof (rule message_view_dangles)
  show "msg_wf (\<lambda>_. ex_message) (msg_frame ex_world) (ex_world\<lparr>mobjs := [0 \<mapsto> 1]\<rparr>)"
    using ex_wf by (simp add: msg_obj_frame)
  show "msg_refs (ex_world\<lparr>mobjs := [0 \<mapsto> 1]\<rparr>) 1 = 1"
    by (simp add: msg_obj_frame ex_refs)
qed (simp_all add: ex_message_def bs_def fits64_def)

end
