(* ===== verification/Headers.thy ===== *)
theory Headers
  imports Message
begin

text \<open>
  The headers of a message: the header iterator of rust/src/message.rs and, of
  include/async\_nats/message.hpp, \<open>HeadersView::HeaderIterator\<close>, \<open>HeaderVectorView\<close> with its
  \<open>Iterator\<close>, and the lookups of \<open>HeadersView\<close>.
\<close>

subsection \<open>State\<close>

text \<open>
  The Rust \<open>HeaderIterator\<close> borrows the header map of a message: \<open>hi_msg\<close> is the message,
  \<open>hi_iter\<close> the number of entries its \<open>hash_map::Iter\<close> has yielded, \<open>hi_val\<close> the
  current pair, of a name and of the value of an entry of the map.
\<close>

datatype name_ref = EntryName nat | DummyName

record HeaderIterator =
  hi_msg :: ptr
  hi_iter :: "nat option"
  hi_val :: "(name_ref \<times> nat) option"
  hi_refcnt :: usize

record HeaderVectorView =
  vv_owns :: bool
  vv_it :: ptr
  vv_size :: u64

record hw = mw +
  iters :: "ptr \<rightharpoonup> HeaderIterator"
  hiobjs :: "oid \<rightharpoonup> ptr"
  vvobjs :: "oid \<rightharpoonup> HeaderVectorView"

subsection \<open>The C API of the header iterator\<close>

definition header_iterator_from_ptr :: "ptr \<Rightarrow> ('z hw_scheme, HeaderIterator) cm" where
  "header_iterator_from_ptr p =
     (if p = null then fail (Abort ''Fatal error, got NULL `AsyncNatsHeaderIterator` pointer'')
      else deref iters p)"

text \<open>An access to the borrowed map: the message must be alive.\<close>

definition borrowed_headers :: "ptr \<Rightarrow> ('z hw_scheme, header_map) cm" where
  "borrowed_headers p =
     bnd (deref msgs p) (\<lambda>m.
     expect (headers (am_msg m)) ''Headers are empty. Check HeadersView before using it'')"

definition async_nats_message_header_iterator :: "ptr \<Rightarrow> ('z hw_scheme, ptr) cm" where
  "async_nats_message_header_iterator p =
     bnd (borrowed_headers p) (\<lambda>_.
     box_into_raw iters_update \<lparr>hi_msg = p, hi_iter = Some 0, hi_val = None, hi_refcnt = 1\<rparr>)"

definition async_nats_message_header_iterator_copy :: "ptr \<Rightarrow> ('z hw_scheme, unit) cm" where
  "async_nats_message_header_iterator_copy p =
     bnd (header_iterator_from_ptr p) (\<lambda>ctx.
     store iters_update p (ctx\<lparr>hi_refcnt := hi_refcnt ctx + 1\<rparr>))"

definition async_nats_message_header_iterator_free :: "ptr \<Rightarrow> ('z hw_scheme, unit) cm" where
  "async_nats_message_header_iterator_free p =
     bnd (header_iterator_from_ptr p) (\<lambda>ctx.
     sq (store iters_update p (ctx\<lparr>hi_refcnt := hi_refcnt ctx - 1\<rparr>))
        (whenM (hi_refcnt ctx - 1 = 0) (bnd (box_from_raw iters iters_update p) (\<lambda>_. ret ()))))"

definition async_nats_message_header_iterator_next :: "ptr \<Rightarrow> ('z hw_scheme, bool) cm" where
  "async_nats_message_header_iterator_next p =
     bnd (header_iterator_from_ptr p) (\<lambda>ctx.
     bnd (expect (hi_iter ctx) ''Iter must be valid. This value must be checked on C++ side'') (\<lambda>k.
     bnd (borrowed_headers (hi_msg ctx)) (\<lambda>hs.
     if k < length hs
     then sq (store iters_update p (ctx\<lparr>hi_iter := Some (Suc k), hi_val := Some (EntryName k, k)\<rparr>))
             (ret True)
     else sq (store iters_update p (ctx\<lparr>hi_val := None\<rparr>)) (ret False))))"

definition current_val :: "HeaderIterator \<Rightarrow> ('z hw_scheme, name_ref \<times> nat) cm" where
  "current_val ctx = expect (hi_val ctx) ''Trying to derev an empty header''"

definition dummy_header :: bytes where
  "dummy_header = bs ''dummy_header''"

definition async_nats_message_header_iterator_key :: "ptr \<Rightarrow> ('z hw_scheme, AsyncNatsSlice) cm" where
  "async_nats_message_header_iterator_key p =
     bnd (header_iterator_from_ptr p) (\<lambda>ctx.
     bnd (current_val ctx) (\<lambda>(k, _).
     case k of
       DummyName \<Rightarrow> ret \<lparr>sl_data = DStatic dummy_header, sl_size = of_nat (length dummy_header)\<rparr>
     | EntryName i \<Rightarrow>
         bnd (borrowed_headers (hi_msg ctx)) (\<lambda>hs.
         ret \<lparr>sl_data = DMsg (hi_msg ctx) (FHeaderKey i), sl_size = of_nat (length (fst (hs ! i)))\<rparr>)))"

text \<open>
  \<open>name_from_str\<close> is \<open>HeaderName::from_str\<close> of the async\_nats crate (a name as its string,
  \<open>None\<close> for an error), \<open>map_get\<close> its \<open>HeaderMap::get\<close> (the position of the entry whose
  value it returns).
\<close>

definition async_nats_message_get_header ::
    "(bytes \<Rightarrow> bytes option) \<Rightarrow> (header_map \<Rightarrow> bytes \<Rightarrow> nat option) \<Rightarrow> ptr \<Rightarrow> AsyncNatsSlice
      \<Rightarrow> ('z hw_scheme, ptr) cm" where
  "async_nats_message_get_header name_from_str map_get p header =
     bnd (deref msgs p) (\<lambda>m.
     case headers (am_msg m) of
       None \<Rightarrow> ret null
     | Some hs \<Rightarrow>
         bnd (as_str header) (\<lambda>s.
         bnd (expect s ''Header is empty. Validity must be checked on C++ side'') (\<lambda>s.
         case name_from_str s of
           None \<Rightarrow> ret null
         | Some h \<Rightarrow>
             (case map_get hs h of
                None \<Rightarrow> ret null
              | Some i \<Rightarrow>
                  box_into_raw iters_update
                    \<lparr>hi_msg = p, hi_iter = None, hi_val = Some (DummyName, i), hi_refcnt = 1\<rparr>))))"

definition async_nats_message_header_iterator_value_count :: "ptr \<Rightarrow> ('z hw_scheme, u64) cm" where
  "async_nats_message_header_iterator_value_count p =
     bnd (header_iterator_from_ptr p) (\<lambda>ctx.
     bnd (current_val ctx) (\<lambda>(_, v).
     bnd (borrowed_headers (hi_msg ctx)) (\<lambda>hs. ret (of_nat (length (snd (hs ! v)))))))"

definition async_nats_message_header_iterator_value_at ::
    "ptr \<Rightarrow> u64 \<Rightarrow> ('z hw_scheme, AsyncNatsSlice) cm" where
  "async_nats_message_header_iterator_value_at p index =
     bnd (header_iterator_from_ptr p) (\<lambda>ctx.
     bnd (current_val ctx) (\<lambda>(_, v).
     bnd (borrowed_headers (hi_msg ctx)) (\<lambda>hs.
     if unat index < length (snd (hs ! v))
     then ret \<lparr>sl_data = DMsg (hi_msg ctx) (FHeaderVal v (unat index)),
               sl_size = of_nat (length (snd (hs ! v) ! unat index))\<rparr>
     else fail (Panic ''Index is out of range. Must be checked on C++ side''))))"

subsection \<open>The class HeaderVectorView\<close>

definition HeaderVectorView_ctor :: "oid \<Rightarrow> ptr \<Rightarrow> bool \<Rightarrow> ('z hw_scheme, unit) cm" where
  "HeaderVectorView_ctor this it own =
     bnd (async_nats_message_header_iterator_value_count it) (\<lambda>n.
     obj_put vvobjs_update this \<lparr>vv_owns = own, vv_it = it, vv_size = n\<rparr>)"

definition HeaderVectorView_move_ctor :: "oid \<Rightarrow> oid \<Rightarrow> ('z hw_scheme, unit) cm" where
  "HeaderVectorView_move_ctor this other =
     bnd (obj_get vvobjs other) (\<lambda>v.
     sq (obj_put vvobjs_update this v) (obj_put vvobjs_update other (v\<lparr>vv_it := null\<rparr>)))"

definition HeaderVectorView_dtor :: "oid \<Rightarrow> ('z hw_scheme, unit) cm" where
  "HeaderVectorView_dtor this =
     bnd (obj_get vvobjs this) (\<lambda>v.
     sq (whenM (vv_owns v \<and> vv_it v \<noteq> null) (async_nats_message_header_iterator_free (vv_it v)))
        (obj_end vvobjs_update this))"

text \<open>The move assignment copies the members and leaves those of \<open>o\<close> as they are.\<close>

definition HeaderVectorView_move_assign :: "oid \<Rightarrow> oid \<Rightarrow> ('z hw_scheme, unit) cm" where
  "HeaderVectorView_move_assign this other =
     (if this = other then ret ()
      else bnd (obj_get vvobjs this) (\<lambda>v.
           sq (whenM (vv_owns v \<and> vv_it v \<noteq> null) (async_nats_message_header_iterator_free (vv_it v)))
           (bnd (obj_get vvobjs other) (\<lambda>v'. obj_put vvobjs_update this v'))))"

definition HeaderVectorView_size :: "oid \<Rightarrow> ('z hw_scheme, u64) cm" where
  "HeaderVectorView_size this = bnd (obj_get vvobjs this) (\<lambda>v. ret (vv_size v))"

definition HeaderVectorView_at :: "oid \<Rightarrow> u64 \<Rightarrow> ('z hw_scheme, string_view) cm" where
  "HeaderVectorView_at this index =
     bnd (obj_get vvobjs this) (\<lambda>v.
     if index \<ge> vv_size v then fail (Throw ''HeaderVectorView index is out of range'')
     else bnd (async_nats_message_header_iterator_value_at (vv_it v) index) (\<lambda>slice.
          ret (slice_view slice)))"

text \<open>\<open>HeaderVectorView::Iterator\<close>, a value with \<open>size_t\<close> arithmetic.\<close>

record VVIterator =
  vi_it :: ptr
  vi_pos :: u64
  vi_size :: u64

definition VVIterator_inc :: "VVIterator \<Rightarrow> VVIterator" where
  "VVIterator_inc i = (if vi_pos i < vi_size i then i\<lparr>vi_pos := vi_pos i + 1\<rparr> else i)"

definition VVIterator_plus :: "VVIterator \<Rightarrow> u64 \<Rightarrow> VVIterator" where
  "VVIterator_plus i n =
     (if vi_pos i + n < vi_size i then i\<lparr>vi_pos := vi_pos i + n\<rparr> else i)"

definition VVIterator_dec :: "VVIterator \<Rightarrow> VVIterator" where
  "VVIterator_dec i = (if vi_pos i \<noteq> 0 then i\<lparr>vi_pos := vi_pos i - 1\<rparr> else i)"

definition VVIterator_minus :: "VVIterator \<Rightarrow> u64 \<Rightarrow> VVIterator" where
  "VVIterator_minus i n = (if vi_pos i \<le> n then i\<lparr>vi_pos := vi_pos i - n\<rparr> else i)"

definition VVIterator_eq :: "VVIterator \<Rightarrow> VVIterator \<Rightarrow> bool" where
  "VVIterator_eq i j \<longleftrightarrow> vi_pos i = vi_pos j"

definition VVIterator_neq :: "VVIterator \<Rightarrow> VVIterator \<Rightarrow> bool" where
  "VVIterator_neq i j \<longleftrightarrow> \<not> vi_pos i = vi_pos j"

definition VVIterator_deref :: "VVIterator \<Rightarrow> ('z hw_scheme, string_view) cm" where
  "VVIterator_deref i =
     (if vi_pos i \<ge> vi_size i then fail (Throw ''Iterator is out of range'')
      else bnd (async_nats_message_header_iterator_value_at (vi_it i) (vi_pos i)) (\<lambda>slice.
           ret (slice_view slice)))"

definition HeaderVectorView_begin :: "oid \<Rightarrow> ('z hw_scheme, VVIterator) cm" where
  "HeaderVectorView_begin this =
     bnd (obj_get vvobjs this) (\<lambda>v. ret \<lparr>vi_it = vv_it v, vi_pos = 0, vi_size = vv_size v\<rparr>)"

definition HeaderVectorView_end :: "oid \<Rightarrow> ('z hw_scheme, VVIterator) cm" where
  "HeaderVectorView_end this =
     bnd (obj_get vvobjs this) (\<lambda>v. ret \<lparr>vi_it = vv_it v, vi_pos = vv_size v, vi_size = vv_size v\<rparr>)"

subsection \<open>The class HeadersView::HeaderIterator\<close>

definition HeaderIterator_default :: "oid \<Rightarrow> ('z hw_scheme, unit) cm" where
  "HeaderIterator_default this = obj_put hiobjs_update this null"

definition HeaderIterator_inc :: "oid \<Rightarrow> ('z hw_scheme, unit) cm" where
  "HeaderIterator_inc this =
     bnd (obj_get hiobjs this) (\<lambda>it.
     bnd (async_nats_message_header_iterator_next it) (\<lambda>more.
     whenM (\<not> more)
       (sq (whenM (it \<noteq> null) (async_nats_message_header_iterator_free it))
           (obj_put hiobjs_update this null))))"

definition HeaderIterator_init :: "oid \<Rightarrow> ptr \<Rightarrow> ('z hw_scheme, unit) cm" where
  "HeaderIterator_init this it = obj_put hiobjs_update this it"

definition HeaderIterator_from_raw :: "oid \<Rightarrow> ptr \<Rightarrow> ('z hw_scheme, unit) cm" where
  "HeaderIterator_from_raw this it = sq (HeaderIterator_init this it) (HeaderIterator_inc this)"

definition HeaderIterator_move_ctor :: "oid \<Rightarrow> oid \<Rightarrow> ('z hw_scheme, unit) cm" where
  "HeaderIterator_move_ctor this other =
     bnd (obj_get hiobjs other) (\<lambda>it.
     sq (obj_put hiobjs_update this it) (obj_put hiobjs_update other null))"

definition HeaderIterator_dtor :: "oid \<Rightarrow> ('z hw_scheme, unit) cm" where
  "HeaderIterator_dtor this =
     bnd (obj_get hiobjs this) (\<lambda>it.
     sq (whenM (it \<noteq> null) (async_nats_message_header_iterator_free it)) (obj_end hiobjs_update this))"

definition HeaderIterator_move_assign :: "oid \<Rightarrow> oid \<Rightarrow> ('z hw_scheme, unit) cm" where
  "HeaderIterator_move_assign this other =
     (if this = other then ret ()
      else bnd (obj_get hiobjs this) (\<lambda>it.
           sq (whenM (it \<noteq> null) (async_nats_message_header_iterator_free it))
           (bnd (obj_get hiobjs other) (\<lambda>it'.
            sq (obj_put hiobjs_update this it') (obj_put hiobjs_update other null)))))"

text \<open>
  \<open>operator*\<close> moves a temporary \<open>HeaderVectorView\<close> (\<open>tmp\<close>) into the pair it returns, whose
  second component is the object \<open>res\<close>.
\<close>

definition HeaderIterator_deref :: "oid \<Rightarrow> oid \<Rightarrow> oid \<Rightarrow> ('z hw_scheme, string_view) cm" where
  "HeaderIterator_deref this tmp res =
     bnd (obj_get hiobjs this) (\<lambda>it.
     bnd (async_nats_message_header_iterator_key it) (\<lambda>h.
     sq (HeaderVectorView_ctor tmp it False)
     (sq (HeaderVectorView_move_ctor res tmp)
     (sq (HeaderVectorView_dtor tmp) (ret (slice_view h))))))"

definition HeaderIterator_eq :: "oid \<Rightarrow> oid \<Rightarrow> ('z hw_scheme, bool) cm" where
  "HeaderIterator_eq this other =
     bnd (obj_get hiobjs other) (\<lambda>o_it. bnd (obj_get hiobjs this) (\<lambda>it. ret (o_it \<noteq> it)))"

definition HeaderIterator_neq :: "oid \<Rightarrow> oid \<Rightarrow> ('z hw_scheme, bool) cm" where
  "HeaderIterator_neq this other =
     bnd (obj_get hiobjs other) (\<lambda>o_it. bnd (obj_get hiobjs this) (\<lambda>it. ret (\<not> o_it = it)))"

definition HeaderIterator_class :: "'z hw_scheme hclass" where
  "HeaderIterator_class =
     \<lparr>h_adopt = HeaderIterator_init, h_move = HeaderIterator_move_ctor,
      h_move_assign = HeaderIterator_move_assign, h_dtor = HeaderIterator_dtor,
      h_copy = deleted, h_copy_assign = deleted\<rparr>"

subsection \<open>The lookups of HeadersView\<close>

text \<open>
  \<open>get_header\<close> returns an \<open>optional\<close>: the result says whether the object \<open>res\<close>, moved
  from the temporary \<open>tmp\<close>, has been constructed.
\<close>

definition HeadersView_get_header ::
    "(bytes \<Rightarrow> bytes option) \<Rightarrow> (header_map \<Rightarrow> bytes \<Rightarrow> nat option) \<Rightarrow> oid \<Rightarrow> string_view \<Rightarrow> oid \<Rightarrow> oid
      \<Rightarrow> ('z hw_scheme, bool) cm" where
  "HeadersView_get_header name_from_str map_get this header tmp res =
     (case header of View d n \<Rightarrow>
      if n = 0 then ret False
      else bnd (obj_get hvobjs this) (\<lambda>message.
           bnd (async_nats_message_get_header name_from_str map_get message
                  \<lparr>sl_data = d, sl_size = n\<rparr>) (\<lambda>r.
           if r = null then ret False
           else sq (HeaderVectorView_ctor tmp r True)
                (sq (HeaderVectorView_move_ctor res tmp)
                (sq (HeaderVectorView_dtor tmp) (ret True))))))"

definition HeadersView_begin :: "oid \<Rightarrow> oid \<Rightarrow> ('z hw_scheme, unit) cm" where
  "HeadersView_begin this res =
     bnd (obj_get hvobjs this) (\<lambda>message.
     sq (assertM (message \<noteq> null) null_check)
     (bnd (async_nats_message_has_headers message) (\<lambda>has.
      if \<not> has then HeaderIterator_default res
      else bnd (async_nats_message_header_iterator message) (\<lambda>it. HeaderIterator_from_raw res it))))"

definition HeadersView_end :: "oid \<Rightarrow> ('z hw_scheme, unit) cm" where
  "HeadersView_end res = HeaderIterator_default res"

lemmas HeaderIterator_defs = HeaderIterator_init_def HeaderIterator_move_ctor_def
  HeaderIterator_dtor_def HeaderIterator_move_assign_def HeaderIterator_class_def

subsection \<open>Iterators as reference-counted boxes\<close>

abbreviation iter_refs :: "'z hw_scheme \<Rightarrow> ptr \<Rightarrow> nat" where
  "iter_refs \<equiv> rc_refs iters hi_refcnt"

definition iter_frame where
  "iter_frame w = (cbuf w, strs w, layout_errs w, sobjs w, msgs w, mobjs w, hvobjs w, vvobjs w, hw.more w)"

definition iter_wf where
  "iter_wf F w \<longleftrightarrow> rc_wf iters hi_refcnt w \<and> iter_frame w = F"

interpretation iter_box: rc_box iters iters_update hi_refcnt "\<lambda>n i. i\<lparr>hi_refcnt := n\<rparr>"
  async_nats_message_header_iterator_free
  by unfold_locales
    (simp_all add: async_nats_message_header_iterator_free_def idiom_rc_delete_def
      header_iterator_from_ptr_def)

lemma iter_free_ok:
  assumes "iter_wf F w" "0 < iter_refs w p"
  shows "\<exists>w'. async_nats_message_header_iterator_free p w = Inr ((), w') \<and> iter_wf F w'
    \<and> iter_refs w' = (iter_refs w)(p := iter_refs w p - 1) \<and> hiobjs w' = hiobjs w"
proof -
  obtain x where "async_nats_message_header_iterator_free p w = Inr ((), iters_update (\<lambda>m. m(p := x)) w)"
    "rc_wf iters hi_refcnt (iters_update (\<lambda>m. m(p := x)) w)"
    "iter_refs (iters_update (\<lambda>m. m(p := x)) w) = (iter_refs w)(p := iter_refs w p - 1)"
    using iter_box.rc_del_ok assms by (auto simp: iter_wf_def)
  with assms(1) show ?thesis by (simp add: iter_wf_def iter_frame_def)
qed

lemma iter_obj_frame:
  "iter_refs (hiobjs_update f w) = iter_refs w" "iter_wf F (hiobjs_update f w) = iter_wf F w"
  by (rule rc_refs_frame, simp) (simp add: iter_wf_def iter_frame_def rc_wf_def)

lemma iter_wf_null: "iter_wf F w \<Longrightarrow> iter_refs w null = 0"
  by (simp add: iter_wf_def rc_refs_null)

interpretation iter_handle: owning_handle hiobjs hiobjs_update "iter_wf F" iter_refs
  async_nats_message_header_iterator_free HeaderIterator_class for F
  by unfold_locales
    ((rule iter_free_ok; assumption) | (erule iter_wf_null) |
     (simp add: iter_obj_frame HeaderIterator_defs idiom_defs; fail))+

subsection \<open>Walking the headers\<close>

text \<open>
  What a caller does with the classes: \<open>read_from\<close> reads the values of a \<open>HeaderVectorView\<close>
  by index, \<open>header_loop\<close> is the loop \<open>for (auto [k, v] : view)\<close> with a bound on its rounds,
  \<open>all_headers\<close> the loop with its \<open>begin()\<close> and \<open>end()\<close>. The loop variable is the object
  \<open>vv\<close>, destroyed at the end of each round.
\<close>

fun read_from :: "oid \<Rightarrow> nat \<Rightarrow> nat \<Rightarrow> ('z hw_scheme, bytes list) cm" where
  "read_from vv i 0 = ret []"
| "read_from vv i (Suc n) =
     bnd (HeaderVectorView_at vv (of_nat i)) (\<lambda>v.
     bnd (view_bytes v) (\<lambda>b.
     bnd (read_from vv (Suc i) n) (\<lambda>bs. ret (b # bs))))"

definition read_all :: "oid \<Rightarrow> ('z hw_scheme, bytes list) cm" where
  "read_all vv = bnd (HeaderVectorView_size vv) (\<lambda>n. read_from vv 0 (unat n))"

fun header_loop :: "nat \<Rightarrow> oid \<Rightarrow> oid \<Rightarrow> oid \<Rightarrow> oid \<Rightarrow> ('z hw_scheme, header_map option) cm" where
  "header_loop 0 it e tmp vv = ret None"
| "header_loop (Suc f) it e tmp vv =
     bnd (HeaderIterator_neq it e) (\<lambda>go.
     if \<not> go then ret (Some [])
     else bnd (HeaderIterator_deref it tmp vv) (\<lambda>k.
          bnd (view_bytes k) (\<lambda>key.
          bnd (read_all vv) (\<lambda>vals.
          sq (HeaderVectorView_dtor vv)
          (sq (HeaderIterator_inc it)
          (bnd (header_loop f it e tmp vv) (\<lambda>r. ret (map_option (Cons (key, vals)) r))))))))"

definition all_headers :: "nat \<Rightarrow> oid \<Rightarrow> oid \<Rightarrow> oid \<Rightarrow> oid \<Rightarrow> oid \<Rightarrow> ('z hw_scheme, header_map option) cm" where
  "all_headers f hv it e tmp vv =
     sq (HeadersView_begin hv it) (sq (HeadersView_end e) (header_loop f it e tmp vv))"

text \<open>The sizes of a header map fit the slices and counts of the C API.\<close>

definition entry_fits :: "bytes \<times> bytes list \<Rightarrow> bool" where
  "entry_fits e \<longleftrightarrow> fits64 (fst e) \<and> length (snd e) < 2 ^ 64 \<and> list_all fits64 (snd e)"

definition map_fits :: "header_map \<Rightarrow> bool" where
  "map_fits hs \<longleftrightarrow> list_all entry_fits hs"

lemma map_fitsD:
  assumes "map_fits hs" "k < length hs"
  shows "fits64 (fst (hs ! k))" "length (snd (hs ! k)) < 2 ^ 64"
    "i < length (snd (hs ! k)) \<Longrightarrow> fits64 (snd (hs ! k) ! i)"
  using assms by (auto simp: map_fits_def entry_fits_def list_all_length)

text \<open>An iterator box whose current value is entry \<open>k\<close> of the headers \<open>hs\<close> of message \<open>p\<close>.\<close>

definition points_at :: "'z hw_scheme \<Rightarrow> ptr \<Rightarrow> ptr \<Rightarrow> header_map \<Rightarrow> nat \<Rightarrow> bool" where
  "points_at w q p hs k \<longleftrightarrow> q \<noteq> null \<and> p \<noteq> null \<and> k < length hs
     \<and> (\<exists>m. msgs w p = Some m \<and> headers (am_msg m) = Some hs)
     \<and> (\<exists>c n. iters w q = Some c \<and> hi_msg c = p \<and> hi_val c = Some (n, k))"

lemma value_count_at:
  "points_at w q p hs k \<Longrightarrow>
    async_nats_message_header_iterator_value_count q w = Inr (of_nat (length (snd (hs ! k))), w)"
  by (auto simp: points_at_def async_nats_message_header_iterator_value_count_def current_val_def
      header_iterator_from_ptr_def borrowed_headers_def cm_simps)

lemma vector_at:
  assumes "points_at w q p hs k" "map_fits hs" "i < length (snd (hs ! k))"
    and "vvobjs w vv = Some v" "vv_it v = q" "vv_size v = of_nat (length (snd (hs ! k)))"
  shows "bnd (HeaderVectorView_at vv (of_nat i)) view_bytes w = Inr (snd (hs ! k) ! i, w)"
proof -
  have k: "k < length hs" using assms(1) by (simp add: points_at_def)
  note f = map_fitsD [OF assms(2) k]
  have "unat (of_nat i :: u64) = i"
    using assms(3) f(2) by (simp add: unat_of_nat)
  moreover have "(of_nat i :: u64) < of_nat (length (snd (hs ! k)))"
    using assms(3) f(2) by (simp add: word_less_nat_alt unat_of_nat)
  ultimately show ?thesis
    using assms f(3) [OF assms(3)] k
    by (auto simp: points_at_def HeaderVectorView_at_def current_val_def slice_view_def
        async_nats_message_header_iterator_value_at_def header_iterator_from_ptr_def
        borrowed_headers_def cm_simps)
qed

lemma read_from_ok:
  assumes "points_at w q p hs k" "map_fits hs" "i + n \<le> length (snd (hs ! k))"
    and "vvobjs w vv = Some v" "vv_it v = q" "vv_size v = of_nat (length (snd (hs ! k)))"
  shows "read_from vv i n w = Inr (take n (drop i (snd (hs ! k))), w)"
  using assms(3)
proof (induction n arbitrary: i)
  case 0
  then show ?case by simp
next
  case (Suc n)
  have "i < length (snd (hs ! k))" using Suc.prems by simp
  moreover from this have "bnd (HeaderVectorView_at vv (of_nat i)) view_bytes w = Inr (snd (hs ! k) ! i, w)"
    using vector_at [OF assms(1,2) _ assms(4-6)] by blast
  moreover have "read_from vv (Suc i) n w = Inr (take n (drop (Suc i) (snd (hs ! k))), w)"
    using Suc.prems by (intro Suc.IH) simp
  ultimately show ?case
    by (auto simp: bnd_split_Inr bnd_run Cons_nth_drop_Suc [symmetric] split: sum.splits)
qed

lemma read_all_ok:
  assumes "points_at w q p hs k" "map_fits hs"
    and "vvobjs w vv = Some v" "vv_it v = q" "vv_size v = of_nat (length (snd (hs ! k)))"
  shows "read_all vv w = Inr (snd (hs ! k), w)"
proof -
  have "k < length hs" using assms(1) by (simp add: points_at_def)
  then have "unat (of_nat (length (snd (hs ! k))) :: u64) = length (snd (hs ! k))"
    using map_fitsD(2) [OF assms(2)] by (simp add: unat_of_nat)
  then show ?thesis
    using assms(3,5) read_from_ok [OF assms(1,2) _ assms(3-5), of 0]
    by (simp add: read_all_def HeaderVectorView_size_def cm_simps)
qed

text \<open>The box of a live \<open>HeaderIterator\<close> that stands at entry \<open>k\<close>.\<close>

definition at_entry :: "ptr \<Rightarrow> nat \<Rightarrow> HeaderIterator" where
  "at_entry p k = \<lparr>hi_msg = p, hi_iter = Some (Suc k), hi_val = Some (EntryName k, k), hi_refcnt = 1\<rparr>"

text \<open>One round of the loop, up to the increment, gives the entry and leaves no view behind.\<close>

lemma header_round:
  assumes at: "iters w q = Some (at_entry p k)" "points_at w q p hs k" and fits: "map_fits hs"
    and objs: "hiobjs w it = Some q" "tmp \<noteq> vv"
  shows "bnd (HeaderIterator_deref it tmp vv) (\<lambda>x. bnd (view_bytes x) (\<lambda>key. bnd (read_all vv) (\<lambda>vals.
      sq (HeaderVectorView_dtor vv) (f key vals)))) w
    = f (fst (hs ! k)) (snd (hs ! k)) (w\<lparr>vvobjs := (vvobjs w)(tmp := None, vv := None)\<rparr>)"
proof -
  obtain m where k: "k < length hs" "q \<noteq> null" "p \<noteq> null" "msgs w p = Some m"
    "headers (am_msg m) = Some hs"
    using at(2) by (auto simp: points_at_def)
  define v where "v = \<lparr>vv_owns = False, vv_it = q, vv_size = of_nat (length (snd (hs ! k)))\<rparr>"
  define w1 where "w1 = w\<lparr>vvobjs := (vvobjs w)(vv \<mapsto> v, tmp := None)\<rparr>"
  have p1: "points_at w1 q p hs k" using at(2) by (simp add: points_at_def w1_def)
  have "HeaderIterator_deref it tmp vv w
      = Inr (View (DMsg p (FHeaderKey k)) (of_nat (length (fst (hs ! k)))), w1)"
    using at k objs value_count_at [OF at(2)]
    by (simp add: HeaderIterator_deref_def async_nats_message_header_iterator_key_def
        header_iterator_from_ptr_def current_val_def at_entry_def borrowed_headers_def slice_view_def
        HeaderVectorView_ctor_def HeaderVectorView_move_ctor_def HeaderVectorView_dtor_def cm_simps
        w1_def v_def fun_upd_twist)
  moreover have "view_bytes (View (DMsg p (FHeaderKey k)) (of_nat (length (fst (hs ! k))))) w1
      = Inr (fst (hs ! k), w1)"
    using k map_fitsD(1) [OF fits k(1)] by (simp add: w1_def cm_simps)
  moreover have "read_all vv w1 = Inr (snd (hs ! k), w1)"
    by (rule read_all_ok [OF p1 fits, of vv v]) (use objs(2) in \<open>simp_all add: w1_def v_def\<close>)
  moreover have "HeaderVectorView_dtor vv w1
      = Inr ((), w\<lparr>vvobjs := (vvobjs w)(tmp := None, vv := None)\<rparr>)"
    using objs(2) by (simp add: HeaderVectorView_dtor_def w1_def v_def cm_simps fun_upd_twist)
  ultimately show ?thesis by (simp only: bnd_Inr sq_Inr)
qed

text \<open>The increment at entry \<open>k\<close>: to the next entry, or past the end with the box freed.\<close>

lemma header_inc:
  assumes "iters w q = Some (at_entry p k)" "q \<noteq> null" "p \<noteq> null" "hiobjs w it = Some q"
    and "msgs w p = Some m" "headers (am_msg m) = Some hs"
  shows "HeaderIterator_inc it w
    = (if Suc k < length hs then Inr ((), w\<lparr>iters := (iters w)(q \<mapsto> at_entry p (Suc k))\<rparr>)
       else Inr ((), w\<lparr>iters := (iters w)(q := None), hiobjs := (hiobjs w)(it \<mapsto> null)\<rparr>))"
  using assms
  by (simp add: HeaderIterator_inc_def async_nats_message_header_iterator_next_def at_entry_def
      header_iterator_from_ptr_def borrowed_headers_def async_nats_message_header_iterator_free_def
      cm_simps)

lemma header_loop_end:
  "hiobjs w it = Some null \<Longrightarrow> hiobjs w e = Some null \<Longrightarrow> 0 < f \<Longrightarrow>
    header_loop f it e tmp vv w = Inr (Some [], w)"
  by (cases f) (simp_all add: HeaderIterator_neq_def cm_simps)

lemma header_loop_ok:
  assumes "iters w q = Some (at_entry p k)" "points_at w q p hs k" "map_fits hs"
    and "hiobjs w it = Some q" "hiobjs w e = Some null" "it \<noteq> e" "tmp \<noteq> vv"
    and "length hs - k < f"
  shows "\<exists>w'. header_loop f it e tmp vv w = Inr (Some (drop k hs), w')
    \<and> iters w' = (iters w)(q := None) \<and> hiobjs w' = (hiobjs w)(it \<mapsto> null)
    \<and> vvobjs w' = (vvobjs w)(tmp := None, vv := None)
    \<and> brk w' = brk w \<and> msgs w' = msgs w \<and> hvobjs w' = hvobjs w"
  using assms
proof (induction f arbitrary: w k)
  case 0
  then show ?case by simp
next
  case (Suc f)
  obtain m where k: "k < length hs" "q \<noteq> null" "p \<noteq> null" "msgs w p = Some m"
    "headers (am_msg m) = Some hs"
    using Suc.prems(2) by (auto simp: points_at_def)
  define w1 where "w1 = w\<lparr>vvobjs := (vvobjs w)(tmp := None, vv := None)\<rparr>"
  have neq: "HeaderIterator_neq it e w = Inr (True, w)"
    using Suc.prems(4,5) k(2) by (simp add: HeaderIterator_neq_def cm_simps)
  have round: "header_loop (Suc f) it e tmp vv w
      = sq (HeaderIterator_inc it) (bnd (header_loop f it e tmp vv)
          (\<lambda>r. ret (map_option (Cons (hs ! k)) r))) w1"
    using header_round [OF Suc.prems(1-4,7), of "\<lambda>key vals. sq (HeaderIterator_inc it)
        (bnd (header_loop f it e tmp vv) (\<lambda>r. ret (map_option (Cons (key, vals)) r)))"] neq
    by (simp add: bnd_Inr w1_def)
  have inc: "HeaderIterator_inc it w1
    = (if Suc k < length hs then Inr ((), w1\<lparr>iters := (iters w1)(q \<mapsto> at_entry p (Suc k))\<rparr>)
       else Inr ((), w1\<lparr>iters := (iters w1)(q := None), hiobjs := (hiobjs w1)(it \<mapsto> null)\<rparr>))"
    by (rule header_inc) (use Suc.prems(1,4) k in \<open>simp_all add: w1_def\<close>)
  show ?case
  proof (cases "Suc k < length hs")
    case True
    define w2 where "w2 = w1\<lparr>iters := (iters w1)(q \<mapsto> at_entry p (Suc k))\<rparr>"
    have "\<exists>w'. header_loop f it e tmp vv w2 = Inr (Some (drop (Suc k) hs), w')
      \<and> iters w' = (iters w2)(q := None) \<and> hiobjs w' = (hiobjs w2)(it \<mapsto> null)
      \<and> vvobjs w' = (vvobjs w2)(tmp := None, vv := None)
      \<and> brk w' = brk w2 \<and> msgs w' = msgs w2 \<and> hvobjs w' = hvobjs w2"
      using Suc.prems k True
      by (intro Suc.IH) (auto simp: w2_def w1_def points_at_def at_entry_def)
    then show ?thesis
      using inc True k(1) unfolding round
      by (auto simp: sq_Inr bnd_Inr w2_def [symmetric] Cons_nth_drop_Suc)
        (auto simp: w2_def w1_def fun_eq_iff)
  next
    case False
    define w2 where "w2 = w1\<lparr>iters := (iters w1)(q := None), hiobjs := (hiobjs w1)(it \<mapsto> null)\<rparr>"
    have "header_loop f it e tmp vv w2 = Inr (Some [], w2)"
      using Suc.prems(5,6,8) k(1) by (intro header_loop_end) (auto simp: w2_def w1_def)
    moreover have "drop k hs = [hs ! k]"
      using False k(1) by (simp add: Cons_nth_drop_Suc [symmetric])
    ultimately show ?thesis
      using inc False unfolding round
      by (simp add: sq_Inr bnd_Inr w2_def [symmetric]) (simp add: w2_def w1_def fun_eq_iff)
  qed
qed

text \<open>\<open>begin()\<close> on a message with headers: at the first entry, or at the end when there is none.\<close>

lemma begin_ok:
  assumes "hvobjs w hv = Some p" "p \<noteq> null" "msgs w p = Some m" "0 < brk w"
  shows "HeadersView_begin hv it w = (case headers (am_msg m) of
      None \<Rightarrow> Inr ((), w\<lparr>hiobjs := (hiobjs w)(it \<mapsto> null)\<rparr>)
    | Some [] \<Rightarrow> Inr ((), w\<lparr>brk := Suc (brk w), iters := (iters w)(brk w := None), hiobjs := (hiobjs w)(it \<mapsto> null)\<rparr>)
    | Some hs \<Rightarrow> Inr ((), w\<lparr>brk := Suc (brk w), iters := (iters w)(brk w \<mapsto> at_entry p 0),
        hiobjs := (hiobjs w)(it \<mapsto> brk w)\<rparr>))"
  using assms
  by (simp add: HeadersView_begin_def HeaderIterator_default_def async_nats_message_has_headers_def
      async_nats_message_header_iterator_def HeaderIterator_from_raw_def HeaderIterator_init_def
      HeaderIterator_inc_def async_nats_message_header_iterator_next_def header_iterator_from_ptr_def
      async_nats_message_header_iterator_free_def borrowed_headers_def at_entry_def cm_simps
      split: option.splits list.splits)

subsection \<open>Properties\<close>

definition ex_hw :: hw where
  "ex_hw = mw.extend ex_world \<lparr>iters = Map.empty, hiobjs = Map.empty, vvobjs = Map.empty\<rparr>
     \<lparr>brk := 5, cbuf := [4 \<mapsto> bs ''n''], hvobjs := [0 \<mapsto> 1]\<rparr>"

lemma ex_hw_simps [simp]:
  "brk ex_hw = 5" "cbuf ex_hw = [4 \<mapsto> bs ''n'']" "hvobjs ex_hw = [0 \<mapsto> 1]" "iters ex_hw = Map.empty"
  "hiobjs ex_hw = Map.empty" "vvobjs ex_hw = Map.empty" "msgs ex_hw = [1 \<mapsto> message_into ex_message]"
  by (simp_all add: ex_hw_def ex_world_def mw.defs)

definition ex_headers :: header_map where
  "ex_headers = [(bs ''k'', [bs ''v1'', bs ''v2'']), (bs ''n'', [bs ''w''])]"

lemma ex_headers: "headers (am_msg (message_into ex_message)) = Some ex_headers" "map_fits ex_headers"
  by (simp_all add: message_into_def ex_message_def ex_headers_def map_fits_def entry_fits_def
      fits64_def bs_def)

text \<open>
  C14: the loop over \<open>HeadersView::begin()\<close> and \<open>end()\<close> ends, visits the entries of the header
  map exactly once each in the map's order, with all their values, and visits none for a message
  without headers; it leaves no iterator box behind and the message as it was.
\<close>

theorem all_headers_correct:
  assumes "hvobjs w hv = Some p" "p \<noteq> null" "msgs w p = Some m" "heap_ok (iters w) (brk w)"
    and "hs = (case headers (am_msg m) of None \<Rightarrow> [] | Some l \<Rightarrow> l)" "map_fits hs"
    and "it \<noteq> e" "tmp \<noteq> vv" "length hs < f"
  shows "\<exists>w'. all_headers f hv it e tmp vv w = Inr (Some hs, w')
    \<and> iters w' = iters w \<and> hiobjs w' = (hiobjs w)(it \<mapsto> null, e \<mapsto> null)
    \<and> msgs w' = msgs w \<and> hvobjs w' = hvobjs w"
proof (cases "hs = []")
  case True
  have "headers (am_msg m) = None \<or> headers (am_msg m) = Some []"
    using assms(5) True by (cases "headers (am_msg m)") auto
  with True assms(1-4,7,9) show ?thesis
    by (elim disjE)
      (auto simp: all_headers_def begin_ok sq_run HeadersView_end_def HeaderIterator_default_def
        obj_put_run header_loop_end heap_ok_pos heap_ok_fresh fun_upd_idem)
next
  case False
  then have hs: "headers (am_msg m) = Some hs"
    using assms(5) by (cases "headers (am_msg m)") auto
  define w1 where "w1 = w\<lparr>brk := Suc (brk w), iters := (iters w)(brk w \<mapsto> at_entry p 0),
    hiobjs := (hiobjs w)(it \<mapsto> brk w, e \<mapsto> null)\<rparr>"
  have start: "all_headers f hv it e tmp vv w = header_loop f it e tmp vv w1"
    using assms(1-4) hs False
    by (cases hs) (simp_all add: all_headers_def begin_ok sq_run HeadersView_end_def
        HeaderIterator_default_def obj_put_run heap_ok_pos w1_def comp_def)
  have "\<exists>w'. header_loop f it e tmp vv w1 = Inr (Some (drop 0 hs), w')
    \<and> iters w' = (iters w1)(brk w := None) \<and> hiobjs w' = (hiobjs w1)(it \<mapsto> null)
    \<and> vvobjs w' = (vvobjs w1)(tmp := None, vv := None)
    \<and> brk w' = brk w1 \<and> msgs w' = msgs w1 \<and> hvobjs w' = hvobjs w1"
    by (rule header_loop_ok)
      (use assms hs False in \<open>auto simp: w1_def points_at_def at_entry_def dest: heap_ok_pos\<close>)
  then show ?thesis
    using assms(4,7) unfolding start
    by (auto simp: w1_def heap_ok_fresh fun_upd_idem fun_upd_twist)
qed

theorem all_headers_correct_witness:
  "\<exists>w'. all_headers 3 0 1 2 3 4 ex_hw = Inr (Some ex_headers, w') \<and> iters w' = Map.empty"
  using all_headers_correct [of ex_hw 0 1 "message_into ex_message" ex_headers 1 2 3 4 3] ex_headers
  by (auto simp: heap_ok_def ex_headers_def)

text \<open>
  What the crate documents of names and of the map: a name built from a string reads as that
  string, \<open>get\<close> finds an entry of the name, and finds none only when there is none.
\<close>

definition header_laws :: "(bytes \<Rightarrow> bytes option) \<Rightarrow> (header_map \<Rightarrow> bytes \<Rightarrow> nat option) \<Rightarrow> bool" where
  "header_laws name_from_str map_get \<longleftrightarrow>
     (\<forall>s h. name_from_str s = Some h \<longrightarrow> h = s)
     \<and> (\<forall>hs h i. map_get hs h = Some i \<longrightarrow> i < length hs \<and> fst (hs ! i) = h)
     \<and> (\<forall>hs h. map_get hs h = None \<longrightarrow> h \<notin> fst ` set hs)"

definition ex_name :: "bytes \<Rightarrow> bytes option" where
  "ex_name s = (if s = [] then None else Some s)"

fun ex_get :: "header_map \<Rightarrow> bytes \<Rightarrow> nat option" where
  "ex_get [] h = None"
| "ex_get (e # es) h = (if fst e = h then Some 0 else map_option Suc (ex_get es h))"

lemma ex_get_Some: "ex_get hs h = Some i \<Longrightarrow> i < length hs \<and> fst (hs ! i) = h"
  by (induction hs arbitrary: i) (auto split: if_splits)

lemma ex_get_None: "ex_get hs h = None \<Longrightarrow> h \<notin> fst ` set hs"
  by (induction hs) (auto split: if_splits)

lemma ex_header_laws: "header_laws ex_name ex_get"
  by (auto simp: header_laws_def ex_name_def dest: ex_get_Some ex_get_None split: if_splits)

text \<open>What \<open>get_header\<close> does up to the box it gets.\<close>

lemma get_header_runs:
  assumes "hvobjs w hv = Some p" "p \<noteq> null" "msgs w p = Some m" "headers (am_msg m) = Some hs"
    and "cbuf w b = Some name" "name \<noteq> []" "fits64 name" "tmp \<noteq> res" "0 < brk w"
    and "name_from_str name = Some h" "map_get hs h = Some i" "i < length hs"
  shows "HeadersView_get_header name_from_str map_get hv (View (DBuf b) (of_nat (length name))) tmp res w
    = Inr (True, w\<lparr>brk := Suc (brk w),
        iters := (iters w)(brk w \<mapsto> \<lparr>hi_msg = p, hi_iter = None, hi_val = Some (DummyName, i), hi_refcnt = 1\<rparr>),
        vvobjs := (vvobjs w)(res \<mapsto> \<lparr>vv_owns = True, vv_it = brk w,
          vv_size = of_nat (length (snd (hs ! i)))\<rparr>, tmp := None)\<rparr>)"
  using assms
  by (simp add: HeadersView_get_header_def async_nats_message_get_header_def as_str_def as_slice_def
      HeaderVectorView_ctor_def HeaderVectorView_move_ctor_def HeaderVectorView_dtor_def
      async_nats_message_header_iterator_value_count_def header_iterator_from_ptr_def
      current_val_def borrowed_headers_def cm_simps fun_upd_twist comp_def)

text \<open>
  C21: \<open>get_header\<close> with a name held in a buffer of the caller returns a view exactly when the
  name is a valid header name that the map has; the view then has all the values of an entry of
  that name, in order, and destroying it leaves no box behind. Otherwise, also for the empty name
  and for a message without headers, it returns \<open>nullopt\<close> and allocates nothing.
\<close>

theorem get_header_correct:
  assumes "header_laws name_from_str map_get"
    and "hvobjs w hv = Some p" "p \<noteq> null" "msgs w p = Some m" "heap_ok (iters w) (brk w)"
    and "hs = (case headers (am_msg m) of None \<Rightarrow> [] | Some l \<Rightarrow> l)" "map_fits hs"
    and "cbuf w b = Some name" "fits64 name" "tmp \<noteq> res" "vvobjs w tmp = None" "vvobjs w res = None"
  shows "let get = HeadersView_get_header name_from_str map_get hv
        (View (DBuf b) (of_nat (length name))) tmp res in
    if name \<noteq> [] \<and> name_from_str name \<noteq> None \<and> name \<in> fst ` set hs
    then \<exists>vs w1 w2. (name, vs) \<in> set hs \<and> get w = Inr (True, w1)
      \<and> read_all res w1 = Inr (vs, w1)
      \<and> HeaderVectorView_dtor res w1 = Inr ((), w2) \<and> iters w2 = iters w \<and> vvobjs w2 = vvobjs w
      \<and> msgs w2 = msgs w
    else get w = Inr (False, w)"
proof (cases "name \<noteq> [] \<and> name_from_str name \<noteq> None \<and> name \<in> fst ` set hs")
  case True
  then have hs: "headers (am_msg m) = Some hs"
    using assms(6) by (cases "headers (am_msg m)") auto
  from True assms(1) have nm: "name_from_str name = Some name"
    by (auto simp: header_laws_def)
  from True assms(1) obtain i where i: "map_get hs name = Some i" "i < length hs" "fst (hs ! i) = name"
    unfolding header_laws_def by (metis option.exhaust)
  have pos: "0 < brk w" using assms(5) by (rule heap_ok_pos)
  define w1 where "w1 = w\<lparr>brk := Suc (brk w),
    iters := (iters w)(brk w \<mapsto> \<lparr>hi_msg = p, hi_iter = None, hi_val = Some (DummyName, i), hi_refcnt = 1\<rparr>),
    vvobjs := (vvobjs w)(res \<mapsto> \<lparr>vv_owns = True, vv_it = brk w,
      vv_size = of_nat (length (snd (hs ! i)))\<rparr>, tmp := None)\<rparr>"
  have get: "HeadersView_get_header name_from_str map_get hv (View (DBuf b) (of_nat (length name)))
      tmp res w = Inr (True, w1)"
    unfolding w1_def
    by (rule get_header_runs [where h = name, OF assms(2-4) hs assms(8)])
      (use True assms(9,10) pos nm i in auto)
  have "read_all res w1 = Inr (snd (hs ! i), w1)"
    by (rule read_all_ok [of _ "brk w" p])
      (use assms(2-4,7,10) hs pos i in \<open>auto simp: w1_def points_at_def\<close>)
  moreover have "\<exists>w2. HeaderVectorView_dtor res w1 = Inr ((), w2) \<and> iters w2 = iters w
      \<and> vvobjs w2 = vvobjs w \<and> msgs w2 = msgs w"
    using assms(5,10-12) pos
    by (simp add: w1_def HeaderVectorView_dtor_def async_nats_message_header_iterator_free_def
        header_iterator_from_ptr_def cm_simps heap_ok_fresh fun_upd_idem fun_upd_twist)
  moreover have "(name, snd (hs ! i)) \<in> set hs"
    using i by (metis nth_mem prod.collapse)
  ultimately show ?thesis using True get by (auto simp: Let_def)
next
  case False
  have none: "map_get hs h = None" if "name \<noteq> []" "name_from_str name = Some h" for h
  proof (rule ccontr)
    assume "map_get hs h \<noteq> None"
    then obtain i where "i < length hs" "fst (hs ! i) = h"
      using assms(1) unfolding header_laws_def by blast
    then have "h \<in> fst ` set hs" by (metis image_eqI nth_mem)
    moreover have "h = name" using assms(1) that by (auto simp: header_laws_def)
    ultimately show False using False that by simp
  qed
  have "HeadersView_get_header name_from_str map_get hv (View (DBuf b) (of_nat (length name))) tmp res w
      = Inr (False, w)"
    using assms(2-4,6,8,9) none
    by (auto simp: HeadersView_get_header_def async_nats_message_get_header_def as_str_def
        as_slice_def cm_simps split: option.splits)
  with False show ?thesis unfolding Let_def by (simp only: if_False)
qed

theorem get_header_correct_witness:
  "\<exists>w1 w2. HeadersView_get_header ex_name ex_get 0 (View (DBuf 4) 1) 7 8 ex_hw = Inr (True, w1)
    \<and> read_all 8 w1 = Inr ([bs ''w''], w1)
    \<and> HeaderVectorView_dtor 8 w1 = Inr ((), w2) \<and> iters w2 = Map.empty"
  using get_header_correct [OF ex_header_laws, of ex_hw 0 1 "message_into ex_message" ex_headers 4
      "bs ''n''" 7 8] ex_headers
  by (auto simp: heap_ok_def ex_headers_def ex_name_def Let_def fits64_def bs_def)

text \<open>The loop \<open>for (auto v : vector)\<close> over a \<open>HeaderVectorView\<close>, with a bound on its rounds.\<close>

fun vv_loop :: "nat \<Rightarrow> VVIterator \<Rightarrow> VVIterator \<Rightarrow> ('z hw_scheme, bytes list option) cm" where
  "vv_loop 0 i e = ret None"
| "vv_loop (Suc f) i e =
     (if \<not> VVIterator_neq i e then ret (Some [])
      else bnd (VVIterator_deref i) (\<lambda>v.
           bnd (view_bytes v) (\<lambda>b.
           bnd (vv_loop f (VVIterator_inc i) e) (\<lambda>r. ret (map_option (Cons b) r)))))"

definition vv_values :: "nat \<Rightarrow> oid \<Rightarrow> ('z hw_scheme, bytes list option) cm" where
  "vv_values f this =
     bnd (HeaderVectorView_begin this) (\<lambda>i. bnd (HeaderVectorView_end this) (\<lambda>e. vv_loop f i e))"

lemma vv_deref_at:
  assumes "vvobjs w vv = Some v"
  shows "VVIterator_deref \<lparr>vi_it = vv_it v, vi_pos = k, vi_size = vv_size v\<rparr> w
    = (if k < vv_size v then HeaderVectorView_at vv k w else Inl (Throw ''Iterator is out of range''))"
  using assms by (auto simp: VVIterator_deref_def HeaderVectorView_at_def cm_simps)

lemma vv_loop_ok:
  assumes "points_at w q p hs k" "map_fits hs" "vvobjs w vv = Some v" "vv_it v = q"
    "vv_size v = of_nat (length (snd (hs ! k)))"
    and "i \<le> length (snd (hs ! k))" "length (snd (hs ! k)) - i < f"
  shows "vv_loop f \<lparr>vi_it = q, vi_pos = of_nat i, vi_size = vv_size v\<rparr>
      \<lparr>vi_it = q, vi_pos = vv_size v, vi_size = vv_size v\<rparr> w
    = Inr (Some (drop i (snd (hs ! k))), w)"
  using assms(6,7)
proof (induction f arbitrary: i)
  case 0
  then show ?case by simp
next
  case (Suc f)
  have len: "length (snd (hs ! k)) < 2 ^ 64"
    using assms(1,2) map_fitsD(2) by (auto simp: points_at_def)
  have less: "(of_nat i :: u64) < vv_size v \<longleftrightarrow> i < length (snd (hs ! k))"
    using len Suc.prems(1) by (simp add: assms(5) word_less_nat_alt unat_of_nat)
  show ?case
  proof (cases "i < length (snd (hs ! k))")
    case True
    have "VVIterator_inc \<lparr>vi_it = q, vi_pos = of_nat i, vi_size = vv_size v\<rparr>
        = \<lparr>vi_it = q, vi_pos = of_nat (Suc i), vi_size = vv_size v\<rparr>"
      using True less by (simp add: VVIterator_inc_def add.commute)
    moreover have "bnd (VVIterator_deref \<lparr>vi_it = q, vi_pos = of_nat i, vi_size = vv_size v\<rparr>) view_bytes w
        = Inr (snd (hs ! k) ! i, w)"
      using vv_deref_at [OF assms(3), of "of_nat i"] True less assms(4)
        vector_at [OF assms(1,2) True assms(3-5)]
      by (simp add: bnd_def)
    moreover have "(of_nat i :: u64) \<noteq> vv_size v" using True less by auto
    ultimately show ?thesis
      using Suc.IH [of "Suc i"] Suc.prems True
      by (auto simp: VVIterator_neq_def bnd_split_Inr bnd_run Cons_nth_drop_Suc [symmetric]
          split: sum.splits)
  next
    case False
    then show ?thesis using Suc.prems(1) by (simp add: VVIterator_neq_def assms(5))
  qed
qed

text \<open>
  C35: a \<open>HeaderVectorView\<close> at an entry of a header map gives that entry's values: \<open>size()\<close> is
  their number, \<open>at(i)\<close> and the iteration from \<open>begin()\<close> to \<open>end()\<close> give them in order, the
  iteration ends, and an index out of range throws without an access to the Rust side.
\<close>

theorem header_vector_correct:
  assumes "points_at w q p hs k" "map_fits hs"
    and "vvobjs w vv = Some \<lparr>vv_owns = own, vv_it = q, vv_size = of_nat (length (snd (hs ! k)))\<rparr>"
    and "length (snd (hs ! k)) < f"
  shows "bnd (HeaderVectorView_size vv) (\<lambda>n. ret (unat n)) w = Inr (length (snd (hs ! k)), w)
    \<and> bnd (HeaderVectorView_at vv n) view_bytes w
      = (if unat n < length (snd (hs ! k)) then Inr (snd (hs ! k) ! unat n, w)
         else Inl (Throw ''HeaderVectorView index is out of range''))
    \<and> vv_values f vv w = Inr (Some (snd (hs ! k)), w)"
proof (intro conjI)
  have len: "length (snd (hs ! k)) < 2 ^ 64"
    using assms(1,2) map_fitsD(2) by (auto simp: points_at_def)
  then have un: "unat (of_nat (length (snd (hs ! k))) :: u64) = length (snd (hs ! k))"
    by (simp add: unat_of_nat)
  show "bnd (HeaderVectorView_size vv) (\<lambda>n. ret (unat n)) w = Inr (length (snd (hs ! k)), w)"
    using assms(3) un by (simp add: HeaderVectorView_size_def cm_simps)
  show "bnd (HeaderVectorView_at vv n) view_bytes w
      = (if unat n < length (snd (hs ! k)) then Inr (snd (hs ! k) ! unat n, w)
         else Inl (Throw ''HeaderVectorView index is out of range''))"
  proof (cases "unat n < length (snd (hs ! k))")
    case True
    then show ?thesis using vector_at [OF assms(1,2) True assms(3)] by simp
  next
    case False
    then have "of_nat (length (snd (hs ! k))) \<le> n" using un by (simp add: word_le_nat_alt)
    then show ?thesis using False assms(3) by (simp add: HeaderVectorView_at_def cm_simps)
  qed
  show "vv_values f vv w = Inr (Some (snd (hs ! k)), w)"
    using vv_loop_ok [OF assms(1-3), of 0 f] assms(3,4)
    by (simp add: vv_values_def HeaderVectorView_begin_def HeaderVectorView_end_def cm_simps)
qed

text \<open>A world with an iterator at the first header and a view of its values.\<close>

definition ex_vv_world :: hw where
  "ex_vv_world = ex_hw\<lparr>iters := [3 \<mapsto> at_entry 1 0],
     vvobjs := [2 \<mapsto> \<lparr>vv_owns = False, vv_it = 3, vv_size = 2\<rparr>]\<rparr>"

theorem header_vector_correct_witness:
  "vv_values 5 2 ex_vv_world = Inr (Some [bs ''v1'', bs ''v2''], ex_vv_world)
    \<and> bnd (HeaderVectorView_at 2 7) view_bytes ex_vv_world
      = Inl (Throw ''HeaderVectorView index is out of range'')"
proof -
  have "points_at ex_vv_world 3 1 ex_headers 0"
    using ex_headers by (auto simp: points_at_def ex_vv_world_def at_entry_def ex_headers_def)
  from header_vector_correct [OF this ex_headers(2), of 2 False 5 7] show ?thesis
    by (simp add: ex_headers_def ex_vv_world_def)
qed

text \<open>
  The increment and decrement of \<open>HeaderVectorView::Iterator\<close> stay between the first
  position and the end. \<open>operator-\<close> moves only when the step is at least the position: it then
  goes to the first position when they are equal and wraps around to a position far beyond the
  end otherwise; \<open>operator+\<close> never reaches the end.
\<close>

theorem vector_iterator_arithmetic:
  assumes "vi_pos i \<le> vi_size i" "0 < unat (vi_size i)" "unat (vi_size i) < 2 ^ 63"
  shows "vi_pos (VVIterator_inc i) \<le> vi_size i
    \<and> vi_pos (VVIterator_dec i) \<le> vi_size i
    \<and> (vi_pos i < vi_size i \<longrightarrow> VVIterator_dec (VVIterator_inc i) = i)
    \<and> (n < vi_pos i \<longrightarrow> VVIterator_minus i n = i)
    \<and> (vi_pos i < n \<and> unat n < 2 ^ 63 \<longrightarrow> vi_size i < vi_pos (VVIterator_minus i n))
    \<and> (unat n < 2 ^ 63 \<longrightarrow> vi_pos (VVIterator_plus i n) < vi_size i \<or> VVIterator_plus i n = i)"
  using assms
  by (auto simp: VVIterator_inc_def VVIterator_dec_def VVIterator_minus_def VVIterator_plus_def
      word_less_nat_alt word_le_nat_alt unat_sub_if' unat_word_ariths unat_eq_0 [symmetric])

theorem vector_iterator_arithmetic_witness:
  "vi_pos (VVIterator_minus \<lparr>vi_it = 3, vi_pos = 1, vi_size = 2\<rparr> 2) > 2
    \<and> VVIterator_minus \<lparr>vi_it = 3, vi_pos = 2, vi_size = 2\<rparr> 1 = \<lparr>vi_it = 3, vi_pos = 2, vi_size = 2\<rparr>"
  using vector_iterator_arithmetic [of "\<lparr>vi_it = 3, vi_pos = 1, vi_size = 2\<rparr>" 2]
    vector_iterator_arithmetic [of "\<lparr>vi_it = 3, vi_pos = 2, vi_size = 2\<rparr>" 1]
  by simp

text \<open>
  \<open>operator==\<close> of two header iterators gives the same answer as \<open>operator!=\<close>: it holds for
  different iterators and fails for an iterator compared with itself.
\<close>

theorem header_iterator_eq_inverted:
  assumes "hiobjs w i = Some p" "hiobjs w j = Some q"
  shows "HeaderIterator_eq i j w = Inr (p \<noteq> q, w) \<and> HeaderIterator_neq i j w = HeaderIterator_eq i j w
    \<and> HeaderIterator_eq i i w = Inr (False, w)"
  using assms by (auto simp: HeaderIterator_eq_def HeaderIterator_neq_def cm_simps)

theorem header_iterator_eq_inverted_witness:
  "HeaderIterator_eq 1 1 (ex_hw\<lparr>hiobjs := [1 \<mapsto> 3]\<rparr>) = Inr (False, ex_hw\<lparr>hiobjs := [1 \<mapsto> 3]\<rparr>)"
  using header_iterator_eq_inverted [of "ex_hw\<lparr>hiobjs := [1 \<mapsto> 3]\<rparr>" 1 3 1 3] by simp

text \<open>
  Moving an owning \<open>HeaderVectorView\<close> by construction transfers the box, so that destroying
  both objects frees it once. Move assignment leaves the source owning the same box: destroying
  both objects uses the box after it has been freed.
\<close>

theorem header_vector_moves:
  assumes "vvobjs w j = Some \<lparr>vv_owns = True, vv_it = q, vv_size = n\<rparr>" "i \<noteq> j"
    and "q \<noteq> null" "iters w q = Some c" "hi_refcnt c = 1"
  shows "(\<exists>w'. sq (HeaderVectorView_move_ctor i j) (sq (HeaderVectorView_dtor i) (HeaderVectorView_dtor j)) w
        = Inr ((), w') \<and> iters w' = (iters w)(q := None))
    \<and> (vvobjs w i = Some v \<and> \<not> vv_owns v \<longrightarrow>
       sq (HeaderVectorView_move_assign i j) (sq (HeaderVectorView_dtor i) (HeaderVectorView_dtor j)) w
        = Inl (UB UseAfterFree))"
  using assms
  by (auto simp: HeaderVectorView_move_ctor_def HeaderVectorView_move_assign_def
      HeaderVectorView_dtor_def async_nats_message_header_iterator_free_def
      header_iterator_from_ptr_def cm_simps)

theorem header_vector_moves_witness:
  "sq (HeaderVectorView_move_assign 2 1) (sq (HeaderVectorView_dtor 2) (HeaderVectorView_dtor 1))
    (ex_vv_world\<lparr>vvobjs := [1 \<mapsto> \<lparr>vv_owns = True, vv_it = 3, vv_size = 2\<rparr>,
       2 \<mapsto> \<lparr>vv_owns = False, vv_it = 0, vv_size = 0\<rparr>]\<rparr>) = Inl (UB UseAfterFree)"
  using header_vector_moves [of "ex_vv_world\<lparr>vvobjs := [1 \<mapsto> \<lparr>vv_owns = True, vv_it = 3, vv_size = 2\<rparr>,
       2 \<mapsto> \<lparr>vv_owns = False, vv_it = 0, vv_size = 0\<rparr>]\<rparr>" 1 3 2 2 "at_entry 1 0"]
  by (simp add: ex_vv_world_def at_entry_def)

text \<open>
  Every well-scoped program over \<open>HeaderIterator\<close> objects (moves, assignments, destructions)
  runs without a fault, frees each iterator box exactly once and touches nothing else; when no
  object and no raw pointer is left no box is.
\<close>

theorem header_iterator_programs_safe:
  assumes "iter_wf F w" "ref_inv (iter_refs w) (hiobjs w) raw"
    and "scope_all NoCopy (nonnull (hiobjs w), raw) ops = Some (s', raw')"
  shows "\<exists>w'. hrun HeaderIterator_class ops w = Inr ((), w') \<and> iter_wf F w'
    \<and> nonnull (hiobjs w') = s' \<and> ref_inv (iter_refs w') (hiobjs w') raw'
    \<and> (s' = Map.empty \<and> raw' = (\<lambda>_. 0) \<longrightarrow> iters w' = Map.empty)"
proof -
  obtain w' where w': "hrun HeaderIterator_class ops w = Inr ((), w')" "iter_wf F w'"
    "nonnull (hiobjs w') = s'" "ref_inv (iter_refs w') (hiobjs w') raw'"
    using iter_handle.owning_run_ok [OF assms] by blast
  have "iters w' = Map.empty" if "s' = Map.empty" "raw' = (\<lambda>_. 0)"
  proof -
    have "dom (hiobjs w') = {}" using w'(3) that(1) by (auto simp: fun_eq_iff nonnull_def)
    then have "iter_refs w' p = 0" for p
      using ref_inv_no_leak [OF w'(4)] that(2) by simp
    then show ?thesis using w'(2) unfolding iter_wf_def by (intro ext rc_freed) auto
  qed
  with w' show ?thesis by blast
qed

theorem header_iterator_programs_safe_witness:
  "\<exists>w'. hrun HeaderIterator_class [HAdopt 0 3, HMove 1 0, HMoveAssign 0 1, HDestroy 1, HDestroy 0]
      ex_vv_world = Inr ((), w') \<and> iters w' = Map.empty"
proof -
  let ?raw = "\<lambda>p :: ptr. if p = 3 then 1 else 0 :: nat"
  have wf: "iter_wf (iter_frame ex_vv_world) ex_vv_world"
    by (auto simp: iter_wf_def rc_wf_def heap_ok_def ex_vv_world_def at_entry_def split: if_splits)
  have inv: "ref_inv (iter_refs ex_vv_world) (hiobjs ex_vv_world) ?raw"
    by (simp add: ref_inv_def rc_refs_def ex_vv_world_def at_entry_def)
  have "scope_all NoCopy (nonnull (hiobjs ex_vv_world), ?raw)
      [HAdopt 0 3, HMove 1 0, HMoveAssign 0 1, HDestroy 1, HDestroy 0] = Some (Map.empty, \<lambda>_. 0)"
    by (auto simp: ex_vv_world_def nonnull_def fun_eq_iff)
  from header_iterator_programs_safe [OF wf inv this] show ?thesis by blast
qed

text \<open>
  A header iterator must not outlive its message: after the message has been freed, advancing
  the iterator or reading the values at its position is a use after free. Freeing the iterator
  afterwards is not.
\<close>

theorem header_iterator_needs_message:
  assumes "hiobjs w i = Some q" "q \<noteq> null" "iters w q = Some (at_entry p k)" "p \<noteq> null"
    and "msgs w p = None"
  shows "HeaderIterator_inc i w = Inl (UB UseAfterFree)
    \<and> HeaderIterator_deref i tmp res w = Inl (UB UseAfterFree)
    \<and> (\<exists>w'. HeaderIterator_dtor i w = Inr ((), w') \<and> iters w' = (iters w)(q := None))"
  using assms
  by (simp add: HeaderIterator_inc_def HeaderIterator_deref_def HeaderIterator_dtor_def
      async_nats_message_header_iterator_next_def async_nats_message_header_iterator_key_def
      async_nats_message_header_iterator_free_def header_iterator_from_ptr_def borrowed_headers_def
      current_val_def at_entry_def cm_simps)

theorem header_iterator_needs_message_witness:
  "HeaderIterator_inc 0 (ex_vv_world\<lparr>hiobjs := [0 \<mapsto> 3], msgs := Map.empty\<rparr>) = Inl (UB UseAfterFree)"
  using header_iterator_needs_message [of "ex_vv_world\<lparr>hiobjs := [0 \<mapsto> 3], msgs := Map.empty\<rparr>" 0 3 1 0]
  by (simp add: ex_vv_world_def)

end
