(* ===== verification/Errors.thy ===== *)
theory Errors
  imports Headers
begin

text \<open>
  rust/src/error.rs and the classes \<open>ConnectionError\<close> and \<open>RequestError\<close> of
  include/async\_nats/connection.hpp: reference-counted error boxes, their kinds, and two
  exception classes that hold a reference to a box and cache the text of the error in an
  \<open>optional<OwnedString>\<close>. The two classes follow one pattern, stated as a locale.
\<close>

subsection \<open>State\<close>

text \<open>
  An error of the async\_nats crate is its \<open>kind()\<close> and its \<open>to_string()\<close>; a box adds the
  atomic counter.
\<close>

datatype connect_error_kind =
    Kind_ServerParse | Kind_Dns | Kind_Authentication | Kind_AuthorizationViolation
  | Kind_TimedOut | Kind_Tls | Kind_Io

datatype request_error_kind = RKind_TimedOut | RKind_NoResponders | RKind_Other

datatype AsyncNatsConnectErrorKind =
    AsyncNats_Connect_ServerParse | AsyncNats_Connect_Dns | AsyncNats_Connect_Authentication
  | AsyncNats_Connect_AuthorizationViolation | AsyncNats_Connect_TimedOut | AsyncNatsConnectTls
  | AsyncNats_ConnectIo

datatype AsyncNatsRequestErrorKind =
    AsyncNats_Request_TimedOut | AsyncNats_Request_NoResponders | AsyncNats_Request_Other

record AsyncNatsConnectError =
  ce_kind :: connect_error_kind
  ce_text :: bytes
  ce_refs :: usize

record AsyncNatsRequestError =
  re_kind :: request_error_kind
  re_text :: bytes
  re_refs :: usize

text \<open>
  The members of an exception object: \<open>e_\<close>, and \<open>str_\<close>, which is empty or an
  \<open>OwnedString\<close> with its pointer.
\<close>

record error_obj =
  eo_e :: ptr
  eo_str :: "ptr option"

record ew = hw +
  cerrs :: "ptr \<rightharpoonup> AsyncNatsConnectError"
  rerrs :: "ptr \<rightharpoonup> AsyncNatsRequestError"
  ceobjs :: "oid \<rightharpoonup> error_obj"
  reobjs :: "oid \<rightharpoonup> error_obj"

subsection \<open>The C API of connection errors\<close>

definition connect_error_new :: "connect_error_kind \<Rightarrow> bytes \<Rightarrow> AsyncNatsConnectError" where
  "connect_error_new k t = \<lparr>ce_kind = k, ce_text = t, ce_refs = 1\<rparr>"

definition async_nats_connection_error_clone :: "ptr \<Rightarrow> ('z ew_scheme, ptr) cm" where
  "async_nats_connection_error_clone err =
     bnd (deref cerrs err) (\<lambda>e.
     sq (store cerrs_update err (e\<lparr>ce_refs := ce_refs e + 1\<rparr>)) (ret err))"

fun connect_error_kind_of :: "connect_error_kind \<Rightarrow> AsyncNatsConnectErrorKind" where
  "connect_error_kind_of Kind_ServerParse = AsyncNats_Connect_ServerParse"
| "connect_error_kind_of Kind_Dns = AsyncNats_Connect_Dns"
| "connect_error_kind_of Kind_Authentication = AsyncNats_Connect_Authentication"
| "connect_error_kind_of Kind_AuthorizationViolation = AsyncNats_Connect_AuthorizationViolation"
| "connect_error_kind_of Kind_TimedOut = AsyncNats_Connect_TimedOut"
| "connect_error_kind_of Kind_Tls = AsyncNatsConnectTls"
| "connect_error_kind_of Kind_Io = AsyncNats_ConnectIo"

definition async_nats_connection_error_kind ::
    "ptr \<Rightarrow> ('z ew_scheme, AsyncNatsConnectErrorKind) cm" where
  "async_nats_connection_error_kind err =
     bnd (deref cerrs err) (\<lambda>e. ret (connect_error_kind_of (ce_kind e)))"

definition async_nats_connection_error_describtion :: "ptr \<Rightarrow> ('z ew_scheme, ptr) cm" where
  "async_nats_connection_error_describtion err =
     bnd (deref cerrs err) (\<lambda>e. string_to_owned_string (ce_text e))"

definition async_nats_connection_error_delete :: "ptr \<Rightarrow> ('z ew_scheme, unit) cm" where
  "async_nats_connection_error_delete err =
     bnd (deref cerrs err) (\<lambda>e.
     sq (store cerrs_update err (e\<lparr>ce_refs := ce_refs e - 1\<rparr>))
        (whenM (ce_refs e = 1) (bnd (box_from_raw cerrs cerrs_update err) (\<lambda>_. ret ()))))"

subsection \<open>The C API of request errors\<close>

definition request_error_new :: "request_error_kind \<Rightarrow> bytes \<Rightarrow> AsyncNatsRequestError" where
  "request_error_new k t = \<lparr>re_kind = k, re_text = t, re_refs = 1\<rparr>"

definition async_nats_request_error_clone :: "ptr \<Rightarrow> ('z ew_scheme, ptr) cm" where
  "async_nats_request_error_clone err =
     bnd (deref rerrs err) (\<lambda>e.
     sq (store rerrs_update err (e\<lparr>re_refs := re_refs e + 1\<rparr>)) (ret err))"

fun request_error_kind_of :: "request_error_kind \<Rightarrow> AsyncNatsRequestErrorKind" where
  "request_error_kind_of RKind_TimedOut = AsyncNats_Request_TimedOut"
| "request_error_kind_of RKind_NoResponders = AsyncNats_Request_NoResponders"
| "request_error_kind_of RKind_Other = AsyncNats_Request_Other"

definition async_nats_request_error_kind ::
    "ptr \<Rightarrow> ('z ew_scheme, AsyncNatsRequestErrorKind) cm" where
  "async_nats_request_error_kind err =
     bnd (deref rerrs err) (\<lambda>e. ret (request_error_kind_of (re_kind e)))"

definition async_nats_request_error_describtion :: "ptr \<Rightarrow> ('z ew_scheme, ptr) cm" where
  "async_nats_request_error_describtion err =
     bnd (deref rerrs err) (\<lambda>e. string_to_owned_string (re_text e))"

definition async_nats_request_error_delete :: "ptr \<Rightarrow> ('z ew_scheme, unit) cm" where
  "async_nats_request_error_delete err =
     bnd (deref rerrs err) (\<lambda>e.
     sq (store rerrs_update err (e\<lparr>re_refs := re_refs e - 1\<rparr>))
        (whenM (re_refs e = 1) (bnd (box_from_raw rerrs rerrs_update err) (\<lambda>_. ret ()))))"

subsection \<open>The member str\_\<close>

text \<open>
  The operations of \<open>optional<OwnedString>\<close> on the member. A move leaves the source engaged,
  with a null string. The results are the members of \<open>*this\<close> and of \<open>o\<close>.
\<close>

definition opt_move :: "ptr option \<Rightarrow> ptr option \<times> ptr option" where
  "opt_move b = (b, map_option (\<lambda>_. null) b)"

definition opt_destroy :: "ptr option \<Rightarrow> ('z cw_scheme, unit) cm" where
  "opt_destroy a =
     (case a of None \<Rightarrow> ret ()
      | Some s \<Rightarrow> whenM (s \<noteq> null) (async_nats_owned_string_delete s))"

definition opt_move_assign :: "ptr option \<Rightarrow> ptr option \<Rightarrow> ('z cw_scheme, ptr option \<times> ptr option) cm" where
  "opt_move_assign a b = sq (opt_destroy a) (ret (opt_move b))"

subsection \<open>The class ConnectionError\<close>

definition ConnectionError_ctor :: "oid \<Rightarrow> ptr \<Rightarrow> ('z ew_scheme, unit) cm" where
  "ConnectionError_ctor this e = obj_put ceobjs_update this \<lparr>eo_e = e, eo_str = None\<rparr>"

definition ConnectionError_copy_ctor :: "oid \<Rightarrow> oid \<Rightarrow> ('z ew_scheme, unit) cm" where
  "ConnectionError_copy_ctor this other =
     bnd (obj_get ceobjs other) (\<lambda>ob.
     bnd (async_nats_connection_error_clone (eo_e ob)) (\<lambda>e.
     obj_put ceobjs_update this \<lparr>eo_e = e, eo_str = None\<rparr>))"

definition ConnectionError_move_ctor :: "oid \<Rightarrow> oid \<Rightarrow> ('z ew_scheme, unit) cm" where
  "ConnectionError_move_ctor this other =
     bnd (obj_get ceobjs other) (\<lambda>ob.
     case opt_move (eo_str ob) of (s, s') \<Rightarrow>
       sq (obj_put ceobjs_update this \<lparr>eo_e = eo_e ob, eo_str = s\<rparr>)
          (obj_put ceobjs_update other \<lparr>eo_e = null, eo_str = s'\<rparr>))"

definition ConnectionError_dtor :: "oid \<Rightarrow> ('z ew_scheme, unit) cm" where
  "ConnectionError_dtor this =
     bnd (obj_get ceobjs this) (\<lambda>ob.
     sq (whenM (eo_e ob \<noteq> null) (async_nats_connection_error_delete (eo_e ob)))
     (sq (opt_destroy (eo_str ob)) (obj_end ceobjs_update this)))"

definition ConnectionError_copy_assign :: "oid \<Rightarrow> oid \<Rightarrow> ('z ew_scheme, unit) cm" where
  "ConnectionError_copy_assign this other =
     (if this = other then ret ()
      else bnd (obj_get ceobjs this) (\<lambda>t.
           sq (whenM (eo_e t \<noteq> null) (async_nats_connection_error_delete (eo_e t)))
           (bnd (obj_get ceobjs other) (\<lambda>ob.
            bnd (async_nats_connection_error_clone (eo_e ob)) (\<lambda>e.
            obj_put ceobjs_update this (t\<lparr>eo_e := e\<rparr>))))))"

definition ConnectionError_move_assign :: "oid \<Rightarrow> oid \<Rightarrow> ('z ew_scheme, unit) cm" where
  "ConnectionError_move_assign this other =
     (if this = other then ret ()
      else bnd (obj_get ceobjs this) (\<lambda>t.
           sq (whenM (eo_e t \<noteq> null) (async_nats_connection_error_delete (eo_e t)))
           (bnd (obj_get ceobjs other) (\<lambda>ob.
            bnd (opt_move_assign (eo_str t) (eo_str ob)) (\<lambda>(s, s').
            sq (obj_put ceobjs_update this \<lparr>eo_e = eo_e ob, eo_str = s\<rparr>)
               (obj_put ceobjs_update other \<lparr>eo_e = null, eo_str = s'\<rparr>))))))"

definition ConnectionError_kind :: "oid \<Rightarrow> ('z ew_scheme, AsyncNatsConnectErrorKind) cm" where
  "ConnectionError_kind this =
     bnd (obj_get ceobjs this) (\<lambda>t. async_nats_connection_error_kind (eo_e t))"

abbreviation (input) no_exception :: string where
  "no_exception \<equiv> ''There is no exception to get text from''"

definition ConnectionError_what :: "oid \<Rightarrow> ('z ew_scheme, dptr) cm" where
  "ConnectionError_what this =
     bnd (obj_get ceobjs this) (\<lambda>t.
     case eo_str t of
       Some s \<Rightarrow> ret (cstr_ptr s)
     | None \<Rightarrow>
         sq (assertM (eo_e t \<noteq> null) no_exception)
         (bnd (async_nats_connection_error_describtion (eo_e t)) (\<lambda>s.
          sq (obj_put ceobjs_update this (t\<lparr>eo_str := Some s\<rparr>)) (ret (cstr_ptr s)))))"

subsection \<open>The class RequestError\<close>

definition RequestError_ctor :: "oid \<Rightarrow> ptr \<Rightarrow> ('z ew_scheme, unit) cm" where
  "RequestError_ctor this e = obj_put reobjs_update this \<lparr>eo_e = e, eo_str = None\<rparr>"

definition RequestError_copy_ctor :: "oid \<Rightarrow> oid \<Rightarrow> ('z ew_scheme, unit) cm" where
  "RequestError_copy_ctor this other =
     bnd (obj_get reobjs other) (\<lambda>ob.
     bnd (async_nats_request_error_clone (eo_e ob)) (\<lambda>e.
     obj_put reobjs_update this \<lparr>eo_e = e, eo_str = None\<rparr>))"

definition RequestError_move_ctor :: "oid \<Rightarrow> oid \<Rightarrow> ('z ew_scheme, unit) cm" where
  "RequestError_move_ctor this other =
     bnd (obj_get reobjs other) (\<lambda>ob.
     case opt_move (eo_str ob) of (s, s') \<Rightarrow>
       sq (obj_put reobjs_update this \<lparr>eo_e = eo_e ob, eo_str = s\<rparr>)
          (obj_put reobjs_update other \<lparr>eo_e = null, eo_str = s'\<rparr>))"

definition RequestError_copy_assign :: "oid \<Rightarrow> oid \<Rightarrow> ('z ew_scheme, unit) cm" where
  "RequestError_copy_assign this other =
     (if this = other then ret ()
      else bnd (obj_get reobjs this) (\<lambda>t.
           sq (whenM (eo_e t \<noteq> null) (async_nats_request_error_delete (eo_e t)))
           (bnd (obj_get reobjs other) (\<lambda>ob.
            bnd (async_nats_request_error_clone (eo_e ob)) (\<lambda>e.
            obj_put reobjs_update this (t\<lparr>eo_e := e\<rparr>))))))"

definition RequestError_move_assign :: "oid \<Rightarrow> oid \<Rightarrow> ('z ew_scheme, unit) cm" where
  "RequestError_move_assign this other =
     (if this = other then ret ()
      else bnd (obj_get reobjs this) (\<lambda>t.
           sq (whenM (eo_e t \<noteq> null) (async_nats_request_error_delete (eo_e t)))
           (bnd (obj_get reobjs other) (\<lambda>ob.
            bnd (opt_move_assign (eo_str t) (eo_str ob)) (\<lambda>(s, s').
            sq (obj_put reobjs_update this \<lparr>eo_e = eo_e ob, eo_str = s\<rparr>)
               (obj_put reobjs_update other \<lparr>eo_e = null, eo_str = s'\<rparr>))))))"

definition RequestError_dtor :: "oid \<Rightarrow> ('z ew_scheme, unit) cm" where
  "RequestError_dtor this =
     bnd (obj_get reobjs this) (\<lambda>ob.
     sq (whenM (eo_e ob \<noteq> null) (async_nats_request_error_delete (eo_e ob)))
     (sq (opt_destroy (eo_str ob)) (obj_end reobjs_update this)))"

definition RequestError_kind :: "oid \<Rightarrow> ('z ew_scheme, AsyncNatsRequestErrorKind) cm" where
  "RequestError_kind this =
     bnd (obj_get reobjs this) (\<lambda>t. async_nats_request_error_kind (eo_e t))"

definition RequestError_what :: "oid \<Rightarrow> ('z ew_scheme, dptr) cm" where
  "RequestError_what this =
     bnd (obj_get reobjs this) (\<lambda>t.
     case eo_str t of
       Some s \<Rightarrow> ret (cstr_ptr s)
     | None \<Rightarrow>
         sq (assertM (eo_e t \<noteq> null) no_exception)
         (bnd (async_nats_request_error_describtion (eo_e t)) (\<lambda>s.
          sq (obj_put reobjs_update this (t\<lparr>eo_str := Some s\<rparr>)) (ret (cstr_ptr s)))))"

subsection \<open>The pattern of an exception class\<close>

record 'w eclass =
  ec_ctor :: "oid \<Rightarrow> ptr \<Rightarrow> ('w, unit) cm"
  ec_copy :: "oid \<Rightarrow> oid \<Rightarrow> ('w, unit) cm"
  ec_move :: "oid \<Rightarrow> oid \<Rightarrow> ('w, unit) cm"
  ec_dtor :: "oid \<Rightarrow> ('w, unit) cm"
  ec_copy_assign :: "oid \<Rightarrow> oid \<Rightarrow> ('w, unit) cm"
  ec_move_assign :: "oid \<Rightarrow> oid \<Rightarrow> ('w, unit) cm"
  ec_what :: "oid \<Rightarrow> ('w, dptr) cm"

definition ConnectionError_class :: "'z ew_scheme eclass" where
  "ConnectionError_class =
     \<lparr>ec_ctor = ConnectionError_ctor, ec_copy = ConnectionError_copy_ctor,
      ec_move = ConnectionError_move_ctor, ec_dtor = ConnectionError_dtor,
      ec_copy_assign = ConnectionError_copy_assign, ec_move_assign = ConnectionError_move_assign,
      ec_what = ConnectionError_what\<rparr>"

definition RequestError_class :: "'z ew_scheme eclass" where
  "RequestError_class =
     \<lparr>ec_ctor = RequestError_ctor, ec_copy = RequestError_copy_ctor,
      ec_move = RequestError_move_ctor, ec_dtor = RequestError_dtor,
      ec_copy_assign = RequestError_copy_assign, ec_move_assign = RequestError_move_assign,
      ec_what = RequestError_what\<rparr>"

definition idiom_error :: "('z cw_scheme \<Rightarrow> oid \<rightharpoonup> error_obj)
    \<Rightarrow> (((oid \<rightharpoonup> error_obj) \<Rightarrow> oid \<rightharpoonup> error_obj) \<Rightarrow> 'z cw_scheme \<Rightarrow> 'z cw_scheme)
    \<Rightarrow> (ptr \<Rightarrow> ('z cw_scheme, unit) cm) \<Rightarrow> (ptr \<Rightarrow> ('z cw_scheme, ptr) cm)
    \<Rightarrow> (ptr \<Rightarrow> ('z cw_scheme, ptr) cm) \<Rightarrow> 'z cw_scheme eclass" where
  "idiom_error c cupd del clone describe =
     \<lparr>ec_ctor = \<lambda>i p. obj_put cupd i \<lparr>eo_e = p, eo_str = None\<rparr>,
      ec_copy = \<lambda>i j. bnd (obj_get c j) (\<lambda>ob. bnd (clone (eo_e ob)) (\<lambda>e.
        obj_put cupd i \<lparr>eo_e = e, eo_str = None\<rparr>)),
      ec_move = \<lambda>i j. bnd (obj_get c j) (\<lambda>ob. case opt_move (eo_str ob) of (s, s') \<Rightarrow>
        sq (obj_put cupd i \<lparr>eo_e = eo_e ob, eo_str = s\<rparr>)
           (obj_put cupd j \<lparr>eo_e = null, eo_str = s'\<rparr>)),
      ec_dtor = \<lambda>i. bnd (obj_get c i) (\<lambda>ob. sq (whenM (eo_e ob \<noteq> null) (del (eo_e ob)))
        (sq (opt_destroy (eo_str ob)) (obj_end cupd i))),
      ec_copy_assign = \<lambda>i j. if i = j then ret () else bnd (obj_get c i) (\<lambda>t.
        sq (whenM (eo_e t \<noteq> null) (del (eo_e t)))
        (bnd (obj_get c j) (\<lambda>ob. bnd (clone (eo_e ob)) (\<lambda>e. obj_put cupd i (t\<lparr>eo_e := e\<rparr>))))),
      ec_move_assign = \<lambda>i j. if i = j then ret () else bnd (obj_get c i) (\<lambda>t.
        sq (whenM (eo_e t \<noteq> null) (del (eo_e t)))
        (bnd (obj_get c j) (\<lambda>ob. bnd (opt_move_assign (eo_str t) (eo_str ob)) (\<lambda>(s, s').
         sq (obj_put cupd i \<lparr>eo_e = eo_e ob, eo_str = s\<rparr>)
            (obj_put cupd j \<lparr>eo_e = null, eo_str = s'\<rparr>))))),
      ec_what = \<lambda>i. bnd (obj_get c i) (\<lambda>t. case eo_str t of
          Some s \<Rightarrow> ret (cstr_ptr s)
        | None \<Rightarrow> sq (assertM (eo_e t \<noteq> null) no_exception)
            (bnd (describe (eo_e t)) (\<lambda>s.
             sq (obj_put cupd i (t\<lparr>eo_str := Some s\<rparr>)) (ret (cstr_ptr s)))))\<rparr>"

text \<open>
  Programs over exception objects, and their lifetime check: of each live object it knows whether
  it refers to an error and whether its text has been asked for.
\<close>

datatype eop = EOp hop | EWhat oid

fun estep :: "'w eclass \<Rightarrow> eop \<Rightarrow> ('w, unit) cm" where
  "estep k (EOp (HAdopt i p)) = ec_ctor k i p"
| "estep k (EOp (HMove i j)) = ec_move k i j"
| "estep k (EOp (HMoveAssign i j)) = ec_move_assign k i j"
| "estep k (EOp (HDestroy i)) = ec_dtor k i"
| "estep k (EOp (HCopy i j)) = ec_copy k i j"
| "estep k (EOp (HCopyAssign i j)) = ec_copy_assign k i j"
| "estep k (EWhat i) = bnd (ec_what k i) (\<lambda>_. ret ())"

fun erun :: "'w eclass \<Rightarrow> eop list \<Rightarrow> ('w, unit) cm" where
  "erun k [] = ret ()"
| "erun k (x # xs) = sq (estep k x) (erun k xs)"

type_synonym error_lifetimes = "(oid \<rightharpoonup> bool \<times> bool) \<times> (ptr \<Rightarrow> nat)"

fun escope :: "error_lifetimes \<Rightarrow> eop \<Rightarrow> error_lifetimes option" where
  "escope (s, raw) (EOp (HAdopt i p)) =
     (if s i = None \<and> (p = null \<or> 0 < raw p)
      then Some (s(i \<mapsto> (p \<noteq> null, False)), if p = null then raw else raw(p := raw p - 1)) else None)"
| "escope (s, raw) (EOp (HMove i j)) =
     (case (s i, s j) of
        (None, Some (nn, st)) \<Rightarrow> Some (s(i \<mapsto> (nn, st), j \<mapsto> (False, st)), raw) | _ \<Rightarrow> None)"
| "escope (s, raw) (EOp (HMoveAssign i j)) =
     (case (s i, s j) of
        (Some _, Some (nn, st)) \<Rightarrow>
          Some (if i = j then s else s(i \<mapsto> (nn, st), j \<mapsto> (False, st)), raw)
      | _ \<Rightarrow> None)"
| "escope (s, raw) (EOp (HDestroy i)) =
     (case s i of Some _ \<Rightarrow> Some (s(i := None), raw) | None \<Rightarrow> None)"
| "escope (s, raw) (EOp (HCopy i j)) =
     (case (s i, s j) of (None, Some (True, _)) \<Rightarrow> Some (s(i \<mapsto> (True, False)), raw) | _ \<Rightarrow> None)"
| "escope (s, raw) (EOp (HCopyAssign i j)) =
     (case (s i, s j) of
        (Some (_, t), Some (nn, _)) \<Rightarrow>
          if i = j then Some (s, raw) else if nn then Some (s(i \<mapsto> (True, t)), raw) else None
      | _ \<Rightarrow> None)"
| "escope (s, raw) (EWhat i) =
     (case s i of
        Some (nn, st) \<Rightarrow> if nn \<or> st then Some (s(i \<mapsto> (nn, True)), raw) else None | None \<Rightarrow> None)"

fun escope_all :: "error_lifetimes \<Rightarrow> eop list \<Rightarrow> error_lifetimes option" where
  "escope_all t [] = Some t"
| "escope_all t (x # xs) = (case escope t x of None \<Rightarrow> None | Some t' \<Rightarrow> escope_all t' xs)"

definition e_ptrs :: "(oid \<rightharpoonup> error_obj) \<Rightarrow> (oid \<rightharpoonup> ptr)" where
  "e_ptrs m = (\<lambda>i. map_option eo_e (m i))"

definition e_texts :: "(oid \<rightharpoonup> error_obj) \<Rightarrow> (oid \<rightharpoonup> ptr)" where
  "e_texts m = (\<lambda>i. Option.bind (m i) eo_str)"

definition e_shape :: "(oid \<rightharpoonup> error_obj) \<Rightarrow> (oid \<rightharpoonup> bool \<times> bool)" where
  "e_shape m = (\<lambda>i. map_option (\<lambda>x. (eo_e x \<noteq> null, eo_str x \<noteq> None)) (m i))"

lemma e_upd [simp]:
  "e_ptrs (m(i \<mapsto> x)) = (e_ptrs m)(i \<mapsto> eo_e x)" "e_ptrs (m(i := None)) = (e_ptrs m)(i := None)"
  "e_texts (m(i \<mapsto> x)) = (e_texts m)(i := eo_str x)" "e_texts (m(i := None)) = (e_texts m)(i := None)"
  "e_shape (m(i \<mapsto> x)) = (e_shape m)(i \<mapsto> (eo_e x \<noteq> null, eo_str x \<noteq> None))"
  "e_shape (m(i := None)) = (e_shape m)(i := None)"
  by (auto simp: e_ptrs_def e_texts_def e_shape_def fun_eq_iff)

lemma e_at:
  "m i = Some x \<Longrightarrow> e_ptrs m i = Some (eo_e x)" "m i = Some x \<Longrightarrow> e_texts m i = eo_str x"
  "m i = None \<Longrightarrow> e_ptrs m i = None" "m i = None \<Longrightarrow> e_texts m i = None"
  by (simp_all add: e_ptrs_def e_texts_def)

lemma error_obj_eta [simp]: "\<lparr>eo_e = eo_e x, eo_str = eo_str x\<rparr> = x"
  by simp

lemma error_obj_upd:
  "t\<lparr>eo_e := e\<rparr> = \<lparr>eo_e = e, eo_str = eo_str t\<rparr>" "t\<lparr>eo_str := s\<rparr> = \<lparr>eo_e = eo_e t, eo_str = s\<rparr>"
  by simp_all

lemma e_shape_iff:
  "e_shape m i = None \<longleftrightarrow> m i = None"
  "e_shape m i = Some (nn, st) \<longleftrightarrow> (\<exists>x. m i = Some x \<and> nn = (eo_e x \<noteq> null) \<and> st = (eo_str x \<noteq> None))"
  by (auto simp: e_shape_def)

text \<open>
  The invariant: the counter of an error box is the number of exception objects and raw pointers
  that hold it, and every C string of a text is held by exactly one holder (\<open>sext\<close> gives those
  outside the class).
\<close>

definition err_inv where
  "err_inv refs raw sext objs w \<longleftrightarrow>
     ref_inv (refs w) (e_ptrs objs) raw \<and> ref_inv (own_refs strs w) (e_texts objs) sext"

text \<open>
  Well-formed heaps of error boxes and of strings; the text of an error never changes (\<open>C\<close>
  gives the text at each address).
\<close>

definition err_wf :: "('z cw_scheme \<Rightarrow> ptr \<rightharpoonup> 'b) \<Rightarrow> ('b \<Rightarrow> u64) \<Rightarrow> ('b \<Rightarrow> bytes) \<Rightarrow> (ptr \<Rightarrow> bytes)
    \<Rightarrow> 'z cw_scheme \<Rightarrow> bool" where
  "err_wf h cnt etext C w \<longleftrightarrow>
     rc_wf h cnt w \<and> own_wf strs w \<and> (\<forall>p b. h w p = Some b \<longrightarrow> etext b = C p)"

locale error_class = rc_clone_box h upd cnt set_cnt del clone
  for h :: "'z cw_scheme \<Rightarrow> ptr \<rightharpoonup> 'b"
    and upd :: "((ptr \<rightharpoonup> 'b) \<Rightarrow> (ptr \<rightharpoonup> 'b)) \<Rightarrow> 'z cw_scheme \<Rightarrow> 'z cw_scheme"
    and cnt :: "'b \<Rightarrow> u64"
    and set_cnt :: "u64 \<Rightarrow> 'b \<Rightarrow> 'b"
    and del :: "ptr \<Rightarrow> ('z cw_scheme, unit) cm"
    and clone :: "ptr \<Rightarrow> ('z cw_scheme, ptr) cm" +
  fixes cells :: "'z cw_scheme \<Rightarrow> oid \<rightharpoonup> error_obj"
    and cupd :: "((oid \<rightharpoonup> error_obj) \<Rightarrow> (oid \<rightharpoonup> error_obj)) \<Rightarrow> 'z cw_scheme \<Rightarrow> 'z cw_scheme"
    and etext :: "'b \<Rightarrow> bytes"
    and describe :: "ptr \<Rightarrow> ('z cw_scheme, ptr) cm"
    and cls :: "'z cw_scheme eclass"
  assumes cells_upd: "cells (cupd (\<lambda>c. c(i := x)) w) = (cells w)(i := x)"
    and cupd_frame: "h (cupd f w) = h w" "brk (cupd f w) = brk w" "strs (cupd f w) = strs w"
    and upd_frame: "cells (upd g w) = cells w" "strs (upd g w) = strs w"
    and str_keep: "str_frame w' = str_frame w \<Longrightarrow> h w' = h w \<and> cells w' = cells w"
    and text_set: "etext (set_cnt n b) = etext b"
    and describe_run: "h w p = Some b \<Longrightarrow> p \<noteq> null \<Longrightarrow> describe p w = string_to_owned_string (etext b) w"
    and class_idiom: "cls = idiom_error cells cupd del clone describe"
begin

lemma err_cupd:
  "err_wf h cnt etext C (cupd f w) = err_wf h cnt etext C w" "rc_refs h cnt (cupd f w) = rc_refs h cnt w"
  "own_refs strs (cupd f w) = own_refs strs w"
proof -
  show "rc_refs h cnt (cupd f w) = rc_refs h cnt w" "own_refs strs (cupd f w) = own_refs strs w"
    by (rule rc_refs_frame own_refs_frame, simp add: cupd_frame)+
  show "err_wf h cnt etext C (cupd f w) = err_wf h cnt etext C w"
    by (simp add: err_wf_def rc_wf_def own_wf_def cupd_frame)
qed

lemma err_upd_wf:
  assumes "err_wf h cnt etext C w" "rc_wf h cnt (upd (\<lambda>m. m(p := x)) w)" "h w p = Some b"
    and "\<And>b'. x = Some b' \<Longrightarrow> etext b' = etext b"
  shows "err_wf h cnt etext C (upd (\<lambda>m. m(p := x)) w)"
  using assms by (auto simp: err_wf_def own_wf_def upd_frame brk_upd h_upd)

text \<open>Giving back the reference of an object's \<open>e_\<close>, and the string of its \<open>str_\<close>.\<close>

lemma drop_error:
  assumes "err_wf h cnt etext C w" "ref_inv (rc_refs h cnt w) m ext" "m i = Some p"
  shows "\<exists>w'. whenM (p \<noteq> null) (del p) w = Inr ((), w') \<and> err_wf h cnt etext C w' \<and> cells w' = cells w
    \<and> own_refs strs w' = own_refs strs w \<and> (\<forall>q. rc_refs h cnt w' q \<le> rc_refs h cnt w q)
    \<and> ref_inv (rc_refs h cnt w') (m(i \<mapsto> null)) ext \<and> ref_inv (rc_refs h cnt w') (m(i := None)) ext"
proof (cases "p = null")
  case True
  have null: "rc_refs h cnt w null = 0" using assms(1) by (simp add: err_wf_def rc_refs_null)
  have "ref_inv (rc_refs h cnt w) (m(i \<mapsto> null)) ext" "ref_inv (rc_refs h cnt w) (m(i := None)) ext"
    using assms(3) True null by (auto intro!: ref_inv_update [OF assms(2)])
  then show ?thesis using True assms(1) by (simp add: cm_simps)
next
  case False
  have live: "0 < rc_refs h cnt w p" using ref_inv_live [OF assms(2,3) False] .
  have rc: "rc_wf h cnt w" using assms(1) by (simp add: err_wf_def)
  obtain b where b: "h w p = Some b" "rc_refs h cnt w p = unat (cnt b)" "cnt b \<noteq> 0"
    using rc_box_live [OF rc live] by blast
  let ?x = "if cnt b = 1 then None else Some (set_cnt (cnt b - 1) b)"
  let ?w = "upd (\<lambda>m. m(p := ?x)) w"
  have run: "del p w = Inr ((), ?w)"
    using b False by (simp add: del_idiom idiom_rc_delete_def cm_simps h_upd upd_upd)
  have ok: "rc_wf h cnt ?w" "rc_refs h cnt ?w = (rc_refs h cnt w)(p := rc_refs h cnt w p - 1)"
    using rc_del_ok [OF rc live] run by auto
  have "err_wf h cnt etext C ?w"
    by (rule err_upd_wf [OF assms(1) ok(1) b(1)]) (auto simp: text_set split: if_splits)
  moreover have null: "rc_refs h cnt ?w null = 0" using ok(1) by (rule rc_refs_null)
  have "ref_inv (rc_refs h cnt ?w) (m(i \<mapsto> null)) ext" "ref_inv (rc_refs h cnt ?w) (m(i := None)) ext"
    using assms(3) False live null ok(2) by (auto intro!: ref_inv_update [OF assms(2)])
  moreover have "own_refs strs ?w = own_refs strs w"
    by (rule own_refs_frame) (simp add: upd_frame)
  ultimately show ?thesis
    using False run ok(2) by (auto simp: cm_simps upd_frame)
qed

lemma drop_text:
  assumes "err_wf h cnt etext C w" "ref_inv (own_refs strs w) m ext" "m i = a"
  shows "\<exists>w'. opt_destroy a w = Inr ((), w') \<and> err_wf h cnt etext C w' \<and> cells w' = cells w
    \<and> rc_refs h cnt w' = rc_refs h cnt w
    \<and> ref_inv (own_refs strs w') (m(i \<mapsto> null)) ext \<and> ref_inv (own_refs strs w') (m(i := None)) ext"
proof (cases "a = None \<or> a = Some null")
  case True
  have null: "own_refs strs w null = 0" using assms(1) by (simp add: err_wf_def own_refs_null)
  have "ref_inv (own_refs strs w) (m(i \<mapsto> null)) ext" "ref_inv (own_refs strs w) (m(i := None)) ext"
    using assms(3) True null by (auto intro!: ref_inv_update [OF assms(2)])
  then show ?thesis using True assms(1) by (auto simp: opt_destroy_def cm_simps)
next
  case False
  then obtain s where s: "a = Some s" "s \<noteq> null" by (cases a) auto
  have live: "0 < own_refs strs w s" using ref_inv_live [OF assms(2)] assms(3) s by blast
  have "own_wf strs w" using assms(1) by (simp add: err_wf_def)
  then obtain w' where w': "async_nats_owned_string_delete s w = Inr ((), w')" "own_wf strs w'"
    "own_refs strs w' = (own_refs strs w)(s := own_refs strs w s - 1)" "str_frame w' = str_frame w"
    using str_box.own_del_ok [OF _ live] by blast
  have same: "h w' = h w" "cells w' = cells w" "brk w' = brk w"
    using str_keep [OF w'(4)] w'(1)
    by (auto simp: async_nats_owned_string_delete_def cm_simps split: option.splits if_splits)
  have "err_wf h cnt etext C w'" using assms(1) w'(2) same by (simp add: err_wf_def rc_wf_def)
  moreover have null: "own_refs strs w' null = 0" using w'(2) by (rule own_refs_null)
  have "ref_inv (own_refs strs w') (m(i \<mapsto> null)) ext" "ref_inv (own_refs strs w') (m(i := None)) ext"
    using assms(3) s live null w'(3) by (auto intro!: ref_inv_update [OF assms(2)])
  moreover have "rc_refs h cnt w' = rc_refs h cnt w"
    by (rule rc_refs_frame) (rule same(1))
  ultimately show ?thesis using s w'(1) same(2) by (auto simp: opt_destroy_def cm_simps)
qed

text \<open>A move of the member \<open>str_\<close> into an object whose own is empty or null.\<close>

lemma move_text:
  assumes "ref_inv refs m ext" "i \<noteq> j" "m i = None \<or> m i = Some null" "opt_move (m j) = (s, s')"
  shows "ref_inv refs (m(i := s, j := s')) ext"
proof (cases "m j")
  case None
  with assms(4) have "m(i := s, j := s') = m(i := None)" by (auto simp: opt_move_def)
  then show ?thesis
    using assms(3) ref_invD(2) [OF assms(1)] by (auto intro!: ref_inv_update [OF assms(1)])
next
  case (Some q)
  with assms(4) have "m(i := s, j := s') = m(i \<mapsto> q, j \<mapsto> null)" by (auto simp: opt_move_def)
  then show ?thesis using ref_inv_move [OF assms(1) Some assms(2,3)] by simp
qed

lemma clone_error:
  assumes "err_wf h cnt etext C w" "0 < rc_refs h cnt w q" "rc_refs h cnt w q < 2 ^ 64 - 1"
  shows "\<exists>w'. clone q w = Inr (q, w') \<and> q \<noteq> null \<and> err_wf h cnt etext C w' \<and> cells w' = cells w
    \<and> own_refs strs w' = own_refs strs w
    \<and> rc_refs h cnt w' = (rc_refs h cnt w)(q := Suc (rc_refs h cnt w q))"
proof -
  have rc: "rc_wf h cnt w" using assms(1) by (simp add: err_wf_def)
  obtain b where b: "h w q = Some b" "q \<noteq> null"
    using rc_box_live [OF rc assms(2)] by blast
  let ?w = "upd (\<lambda>m. m(q := Some (set_cnt (cnt b + 1) b))) w"
  have run: "clone q w = Inr (q, ?w)"
    using b by (simp add: clone_idiom idiom_rc_clone_def cm_simps)
  have ok: "rc_wf h cnt ?w" "rc_refs h cnt ?w = (rc_refs h cnt w)(q := Suc (rc_refs h cnt w q))"
    using rc_clone_ok [OF rc assms(2,3)] run by auto
  have "err_wf h cnt etext C ?w"
    by (rule err_upd_wf [OF assms(1) ok(1) b(1)]) (auto simp: text_set)
  moreover have "own_refs strs ?w = own_refs strs w"
    by (rule own_refs_frame) (simp add: upd_frame)
  ultimately show ?thesis using run ok(2) b(2) by (simp add: upd_frame)
qed

text \<open>A new text: one more string, held by the object.\<close>

lemma new_text:
  assumes "err_wf h cnt etext C w" "0 \<notin> set t" "ref_inv (own_refs strs w) m ext" "m i = None"
  shows "\<exists>s w'. string_to_owned_string t w = Inr (s, w') \<and> s \<noteq> null \<and> err_wf h cnt etext C w'
    \<and> cells w' = cells w \<and> rc_refs h cnt w' = rc_refs h cnt w \<and> strs w' s = Some (t @ [0])
    \<and> ref_inv (own_refs strs w') (m(i \<mapsto> s)) ext"
proof -
  have own: "own_wf strs w" using assms(1) by (simp add: err_wf_def)
  obtain s w' where w': "box_into_raw strs_update (t @ [0]) w = Inr (s, w')" "s \<noteq> null" "own_wf strs w'"
    "own_refs strs w' = (own_refs strs w)(s := Suc (own_refs strs w s))" "str_frame w' = str_frame w"
    "strs w' = (strs w)(s \<mapsto> t @ [0])"
    using str_box.own_new_ok [OF own] by blast
  have same: "h w' = h w" "cells w' = cells w" "brk w' = Suc (brk w)"
    using str_keep [OF w'(5)] w'(1) by (auto simp: box_into_raw_run)
  have "rc_wf h cnt w'"
    using assms(1) same by (auto simp: err_wf_def rc_wf_def intro: heap_ok_Suc)
  then have "err_wf h cnt etext C w'" using assms(1) w'(3) same by (simp add: err_wf_def)
  moreover have "rc_refs h cnt w' = rc_refs h cnt w"
    by (rule rc_refs_frame) (rule same(1))
  moreover have "ref_inv (own_refs strs w') (m(i \<mapsto> s)) ext"
    using assms(4) w'(4) own_refs_null [OF w'(3)] by (auto intro!: ref_inv_update [OF assms(3)])
  ultimately show ?thesis
    using assms(2) w'(1,2,6) same(2) by (simp add: string_to_owned_string_def)
qed

lemmas err_run = class_idiom idiom_error_def cm_simps cells_upd err_cupd

lemma ector_ok:
  assumes "err_wf h cnt etext C w" "err_inv (rc_refs h cnt) raw sext (cells w) w"
    and "cells w i = None" "p \<noteq> null \<Longrightarrow> 0 < raw p"
  shows "\<exists>w'. ec_ctor cls i p w = Inr ((), w') \<and> err_wf h cnt etext C w'
    \<and> cells w' = (cells w)(i \<mapsto> \<lparr>eo_e = p, eo_str = None\<rparr>)
    \<and> err_inv (rc_refs h cnt) (if p = null then raw else raw(p := raw p - 1)) sext (cells w') w'
    \<and> rc_refs h cnt w' = rc_refs h cnt w"
proof -
  have inv: "ref_inv (rc_refs h cnt w) (e_ptrs (cells w)) raw"
    "ref_inv (own_refs strs w) (e_texts (cells w)) sext"
    using assms(2) by (simp_all add: err_inv_def)
  have "ref_inv (rc_refs h cnt w) ((e_ptrs (cells w))(i \<mapsto> p))
      (if p = null then raw else raw(p := raw p - 1))"
    using e_at(3) [of "cells w" i] assms(3,4) ref_invD(2) [OF inv(1)]
    by (intro ref_inv_update [OF inv(1)]) auto
  moreover have "(e_texts (cells w))(i := None) = e_texts (cells w)"
    using e_at(4) [of "cells w" i] assms(3) by auto
  ultimately show ?thesis
    using assms(1) inv(2) by (simp add: err_run err_inv_def)
qed

lemma emove_ok:
  assumes "err_wf h cnt etext C w" "err_inv (rc_refs h cnt) raw sext (cells w) w"
    and "cells w i = None" "cells w j = Some x"
  shows "\<exists>w'. ec_move cls i j w = Inr ((), w') \<and> err_wf h cnt etext C w'
    \<and> cells w' = (cells w)(i \<mapsto> x, j \<mapsto> \<lparr>eo_e = null, eo_str = map_option (\<lambda>_. null) (eo_str x)\<rparr>)
    \<and> err_inv (rc_refs h cnt) raw sext (cells w') w' \<and> rc_refs h cnt w' = rc_refs h cnt w"
proof -
  have ij: "i \<noteq> j" using assms(3,4) by auto
  have inv: "ref_inv (rc_refs h cnt w) (e_ptrs (cells w)) raw"
    "ref_inv (own_refs strs w) (e_texts (cells w)) sext"
    using assms(2) by (simp_all add: err_inv_def)
  have "ref_inv (rc_refs h cnt w) ((e_ptrs (cells w))(i \<mapsto> eo_e x, j \<mapsto> null)) raw"
    using e_at [of "cells w"] assms(3,4) ij by (intro ref_inv_move [OF inv(1)]) auto
  moreover have "ref_inv (own_refs strs w)
      ((e_texts (cells w))(i := eo_str x, j := map_option (\<lambda>_. null) (eo_str x))) sext"
    using e_at [of "cells w"] assms(3,4) ij by (intro move_text [OF inv(2)]) (auto simp: opt_move_def)
  ultimately show ?thesis
    using assms(1,4) by (simp add: err_run err_inv_def opt_move_def)
qed

lemma edtor_ok:
  assumes "err_wf h cnt etext C w" "err_inv (rc_refs h cnt) raw sext (cells w) w"
    and "cells w i = Some x"
  shows "\<exists>w'. ec_dtor cls i w = Inr ((), w') \<and> err_wf h cnt etext C w'
    \<and> cells w' = (cells w)(i := None)
    \<and> err_inv (rc_refs h cnt) raw sext (cells w') w' \<and> (\<forall>p. rc_refs h cnt w' p \<le> rc_refs h cnt w p)"
proof -
  have inv: "ref_inv (rc_refs h cnt w) (e_ptrs (cells w)) raw"
    "ref_inv (own_refs strs w) (e_texts (cells w)) sext"
    using assms(2) by (simp_all add: err_inv_def)
  obtain w1 where w1: "whenM (eo_e x \<noteq> null) (del (eo_e x)) w = Inr ((), w1)" "err_wf h cnt etext C w1"
    "cells w1 = cells w" "own_refs strs w1 = own_refs strs w"
    "\<forall>p. rc_refs h cnt w1 p \<le> rc_refs h cnt w p"
    "ref_inv (rc_refs h cnt w1) ((e_ptrs (cells w))(i := None)) raw"
    using drop_error [OF assms(1) inv(1)] e_at(1) [of "cells w" i x] assms(3) by blast
  obtain w2 where w2: "opt_destroy (eo_str x) w1 = Inr ((), w2)" "err_wf h cnt etext C w2"
    "cells w2 = cells w1" "rc_refs h cnt w2 = rc_refs h cnt w1"
    "ref_inv (own_refs strs w2) ((e_texts (cells w))(i := None)) sext"
    using drop_text [OF w1(2), of "e_texts (cells w)" sext i] e_at(2) [of "cells w" i x] assms(3) inv(2) w1(4)
    by auto
  show ?thesis
    using w1 w2 assms(3) by (simp add: class_idiom idiom_error_def bnd_run sq_run obj_get_run obj_end_run
        cells_upd err_cupd err_inv_def)
qed

lemma emove_assign_ok:
  assumes "err_wf h cnt etext C w" "err_inv (rc_refs h cnt) raw sext (cells w) w"
    and "cells w i = Some t" "cells w j = Some x" "i \<noteq> j"
  shows "\<exists>w'. ec_move_assign cls i j w = Inr ((), w') \<and> err_wf h cnt etext C w'
    \<and> cells w' = (cells w)(i \<mapsto> x, j \<mapsto> \<lparr>eo_e = null, eo_str = map_option (\<lambda>_. null) (eo_str x)\<rparr>)
    \<and> err_inv (rc_refs h cnt) raw sext (cells w') w' \<and> (\<forall>p. rc_refs h cnt w' p \<le> rc_refs h cnt w p)"
proof -
  have inv: "ref_inv (rc_refs h cnt w) (e_ptrs (cells w)) raw"
    "ref_inv (own_refs strs w) (e_texts (cells w)) sext"
    using assms(2) by (simp_all add: err_inv_def)
  have at: "e_ptrs (cells w) i = Some (eo_e t)" "e_texts (cells w) i = eo_str t"
    "e_ptrs (cells w) j = Some (eo_e x)" "e_texts (cells w) j = eo_str x"
    using assms(3,4) by (simp_all add: e_at)
  obtain w1 where w1: "whenM (eo_e t \<noteq> null) (del (eo_e t)) w = Inr ((), w1)" "err_wf h cnt etext C w1"
    "cells w1 = cells w" "own_refs strs w1 = own_refs strs w"
    "\<forall>p. rc_refs h cnt w1 p \<le> rc_refs h cnt w p"
    "ref_inv (rc_refs h cnt w1) ((e_ptrs (cells w))(i \<mapsto> null)) raw"
    using drop_error [OF assms(1) inv(1) at(1)] by blast
  obtain w2 where w2: "opt_destroy (eo_str t) w1 = Inr ((), w2)" "err_wf h cnt etext C w2"
    "cells w2 = cells w1" "rc_refs h cnt w2 = rc_refs h cnt w1"
    "ref_inv (own_refs strs w2) ((e_texts (cells w))(i := None)) sext"
    using drop_text [OF w1(2), of "e_texts (cells w)" sext i] at(2) inv(2) w1(4) by auto
  have "ref_inv (rc_refs h cnt w2) (((e_ptrs (cells w))(i \<mapsto> null))(i \<mapsto> eo_e x, j \<mapsto> null)) raw"
    unfolding w2(4) by (rule ref_inv_move [OF w1(6)]) (use at assms(5) in auto)
  moreover have "ref_inv (own_refs strs w2)
      (((e_texts (cells w))(i := None))(i := eo_str x, j := map_option (\<lambda>_. null) (eo_str x))) sext"
    by (rule move_text [OF w2(5)]) (use at assms(5) in \<open>auto simp: opt_move_def\<close>)
  ultimately show ?thesis
    using w1 w2 assms(3-5)
    by (simp add: class_idiom idiom_error_def bnd_run sq_run obj_get_run obj_put_run opt_move_assign_def
        opt_move_def cells_upd err_cupd err_inv_def)
qed

lemma ecopy_ok:
  assumes "err_wf h cnt etext C w" "err_inv (rc_refs h cnt) raw sext (cells w) w"
    and "\<And>p. rc_refs h cnt w p < 2 ^ 64 - 1"
    and "cells w i = None" "cells w j = Some x" "eo_e x \<noteq> null"
  shows "\<exists>w'. ec_copy cls i j w = Inr ((), w') \<and> err_wf h cnt etext C w'
    \<and> cells w' = (cells w)(i \<mapsto> \<lparr>eo_e = eo_e x, eo_str = None\<rparr>)
    \<and> err_inv (rc_refs h cnt) raw sext (cells w') w'
    \<and> (\<forall>p. rc_refs h cnt w' p \<le> Suc (rc_refs h cnt w p))"
proof -
  have inv: "ref_inv (rc_refs h cnt w) (e_ptrs (cells w)) raw"
    "ref_inv (own_refs strs w) (e_texts (cells w)) sext"
    using assms(2) by (simp_all add: err_inv_def)
  have at: "e_ptrs (cells w) i = None" "e_texts (cells w) i = None"
    "e_ptrs (cells w) j = Some (eo_e x)" "e_texts (cells w) j = eo_str x"
    using assms(4,5) by (simp_all add: e_at)
  have live: "0 < rc_refs h cnt w (eo_e x)"
    using ref_inv_live [OF inv(1) at(3) assms(6)] .
  obtain w1 where w1: "clone (eo_e x) w = Inr (eo_e x, w1)" "err_wf h cnt etext C w1" "cells w1 = cells w"
    "own_refs strs w1 = own_refs strs w"
    "rc_refs h cnt w1 = (rc_refs h cnt w)(eo_e x := Suc (rc_refs h cnt w (eo_e x)))"
    using clone_error [OF assms(1) live assms(3)] by blast
  have "ref_inv (rc_refs h cnt w1) ((e_ptrs (cells w))(i \<mapsto> eo_e x)) raw"
    using at assms(6) w1(5) ref_invD(2) [OF inv(1)] by (intro ref_inv_update [OF inv(1)]) auto
  moreover have "(e_texts (cells w))(i := None) = e_texts (cells w)" using at by auto
  ultimately show ?thesis
    using w1 inv(2) assms(5)
    by (simp add: class_idiom idiom_error_def bnd_run obj_get_run obj_put_run cells_upd err_cupd err_inv_def)
qed

lemma ecopy_assign_ok:
  assumes "err_wf h cnt etext C w" "err_inv (rc_refs h cnt) raw sext (cells w) w"
    and "\<And>p. rc_refs h cnt w p < 2 ^ 64 - 1"
    and "cells w i = Some t" "cells w j = Some x" "i \<noteq> j" "eo_e x \<noteq> null"
  shows "\<exists>w'. ec_copy_assign cls i j w = Inr ((), w') \<and> err_wf h cnt etext C w'
    \<and> cells w' = (cells w)(i \<mapsto> \<lparr>eo_e = eo_e x, eo_str = eo_str t\<rparr>)
    \<and> err_inv (rc_refs h cnt) raw sext (cells w') w'
    \<and> (\<forall>p. rc_refs h cnt w' p \<le> Suc (rc_refs h cnt w p))"
proof -
  have inv: "ref_inv (rc_refs h cnt w) (e_ptrs (cells w)) raw"
    "ref_inv (own_refs strs w) (e_texts (cells w)) sext"
    using assms(2) by (simp_all add: err_inv_def)
  have at: "e_ptrs (cells w) i = Some (eo_e t)" "e_texts (cells w) i = eo_str t"
    "e_ptrs (cells w) j = Some (eo_e x)" "e_texts (cells w) j = eo_str x"
    using assms(4,5) by (simp_all add: e_at)
  obtain w1 where w1: "whenM (eo_e t \<noteq> null) (del (eo_e t)) w = Inr ((), w1)" "err_wf h cnt etext C w1"
    "cells w1 = cells w" "own_refs strs w1 = own_refs strs w"
    "\<forall>p. rc_refs h cnt w1 p \<le> rc_refs h cnt w p"
    "ref_inv (rc_refs h cnt w1) ((e_ptrs (cells w))(i \<mapsto> null)) raw"
    using drop_error [OF assms(1) inv(1) at(1)] by blast
  have live: "0 < rc_refs h cnt w1 (eo_e x)"
    using ref_inv_live [OF w1(6), of j "eo_e x"] at assms(6,7) by auto
  have "rc_refs h cnt w1 (eo_e x) < 2 ^ 64 - 1"
    using assms(3) [of "eo_e x"] w1(5) by (meson le_less_trans)
  then obtain w2 where w2: "clone (eo_e x) w1 = Inr (eo_e x, w2)" "err_wf h cnt etext C w2"
    "cells w2 = cells w1" "own_refs strs w2 = own_refs strs w1"
    "rc_refs h cnt w2 = (rc_refs h cnt w1)(eo_e x := Suc (rc_refs h cnt w1 (eo_e x)))"
    using clone_error [OF w1(2) live] by blast
  have "ref_inv (rc_refs h cnt w2) (((e_ptrs (cells w))(i \<mapsto> null))(i \<mapsto> eo_e x)) raw"
    using at assms(7) w2(5) ref_invD(2) [OF w1(6)] by (intro ref_inv_update [OF w1(6)]) auto
  moreover have "(e_texts (cells w))(i := eo_str t) = e_texts (cells w)" using at by auto
  moreover have "rc_refs h cnt w2 p \<le> Suc (rc_refs h cnt w p)" for p
    using w2(5) w1(5) by (auto simp: fun_upd_apply intro: le_SucI)
  ultimately show ?thesis
    using w1 w2 inv(2) assms(4-6)
    by (simp add: class_idiom idiom_error_def bnd_run sq_run obj_get_run obj_put_run cells_upd err_cupd
        err_inv_def error_obj_upd)
qed

text \<open>\<open>what()\<close>: the cached text, or a new one that is cached.\<close>

lemma ewhat_ok:
  assumes "err_wf h cnt etext C w" "err_inv (rc_refs h cnt) raw sext (cells w) w"
    and "cells w i = Some t" "eo_e t \<noteq> null \<or> eo_str t \<noteq> None" "\<And>p. 0 \<notin> set (C p)"
  shows "\<exists>s w'. ec_what cls i w = Inr (cstr_ptr s, w') \<and> err_wf h cnt etext C w'
    \<and> cells w' = (cells w)(i \<mapsto> \<lparr>eo_e = eo_e t, eo_str = Some s\<rparr>)
    \<and> err_inv (rc_refs h cnt) raw sext (cells w') w' \<and> rc_refs h cnt w' = rc_refs h cnt w
    \<and> (case eo_str t of Some s' \<Rightarrow> s = s' \<and> w' = w | None \<Rightarrow> s \<noteq> null \<and> strs w' s = Some (C (eo_e t) @ [0]))"
proof (cases "eo_str t")
  case (Some s)
  then have "t = \<lparr>eo_e = eo_e t, eo_str = Some s\<rparr>" by (cases t) simp
  then have "(cells w)(i \<mapsto> \<lparr>eo_e = eo_e t, eo_str = Some s\<rparr>) = cells w"
    using assms(3) by (metis fun_upd_triv)
  then show ?thesis
    using Some assms(1-3) by (intro exI [of _ s] exI [of _ w]) (simp add: err_run)
next
  case None
  have inv: "ref_inv (rc_refs h cnt w) (e_ptrs (cells w)) raw"
    "ref_inv (own_refs strs w) (e_texts (cells w)) sext"
    using assms(2) by (simp_all add: err_inv_def)
  have e: "eo_e t \<noteq> null" using None assms(4) by simp
  have at: "e_ptrs (cells w) i = Some (eo_e t)" "e_texts (cells w) i = eo_str t"
    using assms(3) by (simp_all add: e_at)
  have rc: "rc_wf h cnt w" using assms(1) by (simp add: err_wf_def)
  obtain b where b: "h w (eo_e t) = Some b"
    using rc_box_live [OF rc ref_inv_live [OF inv(1) at(1) e]] by blast
  have ct: "etext b = C (eo_e t)" using b assms(1) by (simp add: err_wf_def)
  obtain s w1 where w1: "string_to_owned_string (C (eo_e t)) w = Inr (s, w1)" "s \<noteq> null"
    "err_wf h cnt etext C w1" "cells w1 = cells w" "rc_refs h cnt w1 = rc_refs h cnt w"
    "strs w1 s = Some (C (eo_e t) @ [0])"
    "ref_inv (own_refs strs w1) ((e_texts (cells w))(i \<mapsto> s)) sext"
    using new_text [OF assms(1) assms(5) [of "eo_e t"] inv(2), of i] at(2) None by auto
  have "(e_ptrs (cells w))(i \<mapsto> eo_e t) = e_ptrs (cells w)" using at by auto
  then show ?thesis
    using w1 None e inv(1) assms(3) describe_run [OF b e] ct
    by (intro exI [of _ s]) (simp add: class_idiom idiom_error_def bnd_run sq_run obj_get_run obj_put_run assertM_run
        cells_upd err_cupd err_inv_def cupd_frame error_obj_upd)
qed

lemma eself_assign: "ec_move_assign cls i i w = Inr ((), w)" "ec_copy_assign cls i i w = Inr ((), w)"
  by (simp_all add: class_idiom idiom_error_def)

lemma estep_ok:
  assumes "err_wf h cnt etext C w" "err_inv (rc_refs h cnt) raw sext (cells w) w"
    and "\<And>p. rc_refs h cnt w p < 2 ^ 64 - 1" "\<And>p. 0 \<notin> set (C p)"
    and "escope (e_shape (cells w), raw) x = Some (s', raw')"
  shows "\<exists>w'. estep cls x w = Inr ((), w') \<and> err_wf h cnt etext C w' \<and> e_shape (cells w') = s'
    \<and> err_inv (rc_refs h cnt) raw' sext (cells w') w'
    \<and> (\<forall>p. rc_refs h cnt w' p \<le> Suc (rc_refs h cnt w p))"
proof (cases "(cls, x)" rule: estep.cases)
  case (1 k i p)
  with assms(5) have "cells w i = None" "p \<noteq> null \<Longrightarrow> 0 < raw p"
    "s' = (e_shape (cells w))(i \<mapsto> (p \<noteq> null, False))"
    "raw' = (if p = null then raw else raw(p := raw p - 1))"
    by (auto simp: e_shape_iff split: if_splits)
  with ector_ok [OF assms(1,2), of i p] show ?thesis using 1 by fastforce
next
  case (2 k i j)
  with assms(5) obtain y where "cells w i = None" "cells w j = Some y" "raw' = raw"
    "s' = (e_shape (cells w))(i \<mapsto> (eo_e y \<noteq> null, eo_str y \<noteq> None), j \<mapsto> (False, eo_str y \<noteq> None))"
    by (auto simp: e_shape_iff split: option.splits)
  with emove_ok [OF assms(1,2), of i j y] show ?thesis using 2 by fastforce
next
  case (3 k i j)
  with assms(5) obtain t y where y: "cells w i = Some t" "cells w j = Some y" "raw' = raw"
    "s' = (if i = j then e_shape (cells w) else (e_shape (cells w))
       (i \<mapsto> (eo_e y \<noteq> null, eo_str y \<noteq> None), j \<mapsto> (False, eo_str y \<noteq> None)))"
    by (auto simp: e_shape_iff split: option.splits)
  show ?thesis
  proof (cases "i = j")
    case True
    then show ?thesis using 3 y assms(1,2) eself_assign [of j w] by auto
  next
    case False
    with emove_assign_ok [OF assms(1,2) y(1,2)] show ?thesis using 3 y by (fastforce intro: le_SucI)
  qed
next
  case (4 k i)
  with assms(5) obtain t where "cells w i = Some t" "raw' = raw" "s' = (e_shape (cells w))(i := None)"
    by (auto simp: e_shape_iff split: option.splits)
  with edtor_ok [OF assms(1,2), of i t] show ?thesis using 4 by (fastforce intro: le_SucI)
next
  case (5 k i j)
  with assms(5) obtain y where "cells w i = None" "cells w j = Some y" "eo_e y \<noteq> null" "raw' = raw"
    "s' = (e_shape (cells w))(i \<mapsto> (True, False))"
    by (auto simp: e_shape_iff split: option.splits bool.splits)
  with ecopy_ok [OF assms(1-3), of i j y] show ?thesis using 5 by fastforce
next
  case (6 k i j)
  with assms(5) obtain t y where y: "cells w i = Some t" "cells w j = Some y" "raw' = raw"
    "i = j \<or> eo_e y \<noteq> null"
    "s' = (if i = j then e_shape (cells w) else (e_shape (cells w))(i \<mapsto> (True, eo_str t \<noteq> None)))"
    by (auto simp: e_shape_iff split: option.splits if_splits)
  show ?thesis
  proof (cases "i = j")
    case True
    then show ?thesis using 6 y assms(1,2) eself_assign [of j w] by auto
  next
    case False
    with ecopy_assign_ok [OF assms(1-3) y(1,2) False] show ?thesis using 6 y by fastforce
  qed
next
  case (7 k i)
  with assms(5) obtain t where t: "cells w i = Some t" "eo_e t \<noteq> null \<or> eo_str t \<noteq> None" "raw' = raw"
    "s' = (e_shape (cells w))(i \<mapsto> (eo_e t \<noteq> null, True))"
    by (auto simp: e_shape_iff split: option.splits if_splits)
  obtain s w' where "ec_what cls i w = Inr (cstr_ptr s, w')" "err_wf h cnt etext C w'"
    "cells w' = (cells w)(i \<mapsto> \<lparr>eo_e = eo_e t, eo_str = Some s\<rparr>)"
    "err_inv (rc_refs h cnt) raw sext (cells w') w'" "rc_refs h cnt w' = rc_refs h cnt w"
    using ewhat_ok [OF assms(1,2) t(1,2) assms(4)] by blast
  then show ?thesis using 7 t(3,4) by (simp add: bnd_run)
qed

lemma erun_ok:
  assumes "err_wf h cnt etext C w" "err_inv (rc_refs h cnt) raw sext (cells w) w"
    and "\<And>p. rc_refs h cnt w p + length xs \<le> 2 ^ 64 - 1" "\<And>p. 0 \<notin> set (C p)"
    and "escope_all (e_shape (cells w), raw) xs = Some (s', raw')"
  shows "\<exists>w'. erun cls xs w = Inr ((), w') \<and> err_wf h cnt etext C w' \<and> e_shape (cells w') = s'
    \<and> err_inv (rc_refs h cnt) raw' sext (cells w') w'"
  using assms
proof (induction xs arbitrary: w raw)
  case Nil
  then show ?case by simp
next
  case (Cons x xs)
  from Cons.prems(5) obtain s1 raw1 where
    x: "escope (e_shape (cells w), raw) x = Some (s1, raw1)"
    and xs: "escope_all (s1, raw1) xs = Some (s', raw')"
    by (auto split: option.splits)
  have room: "rc_refs h cnt w p < 2 ^ 64 - 1" for p
    using Cons.prems(3) [of p] by simp
  obtain w1 where w1: "estep cls x w = Inr ((), w1)" "err_wf h cnt etext C w1"
    "e_shape (cells w1) = s1" "err_inv (rc_refs h cnt) raw1 sext (cells w1) w1"
    "\<And>p. rc_refs h cnt w1 p \<le> Suc (rc_refs h cnt w p)"
    using estep_ok [OF Cons.prems(1,2) room Cons.prems(4) x] by blast
  have "rc_refs h cnt w1 p + length xs \<le> 2 ^ 64 - 1" for p
    using Cons.prems(3) [of p] w1(5) [of p] by simp
  with Cons.IH [OF w1(2,4)] Cons.prems(4) xs w1 show ?case by (simp add: sq_run)
qed

text \<open>With no object left, every error box and every text of the class has been freed.\<close>

lemma err_no_leak:
  assumes "err_wf h cnt etext C w" "err_inv (rc_refs h cnt) (\<lambda>_. 0) (\<lambda>_. 0) (cells w) w"
    and "e_shape (cells w) = Map.empty"
  shows "h w = Map.empty \<and> strs w = Map.empty"
proof -
  have empty: "e_ptrs (cells w) = Map.empty" "e_texts (cells w) = Map.empty"
    using assms(3) by (auto simp: e_ptrs_def e_texts_def fun_eq_iff e_shape_def)
  have "rc_refs h cnt w p = 0" "own_refs strs w p = 0" for p
    using assms(2) unfolding err_inv_def empty by (auto intro: ref_inv_no_leak)
  with assms(1) show ?thesis
    unfolding err_wf_def by (auto simp: fun_eq_iff intro: rc_freed own_freed)
qed

end

lemmas ConnectionError_defs = ConnectionError_ctor_def ConnectionError_copy_ctor_def
  ConnectionError_move_ctor_def ConnectionError_dtor_def ConnectionError_copy_assign_def
  ConnectionError_move_assign_def ConnectionError_what_def ConnectionError_class_def

lemmas RequestError_defs = RequestError_ctor_def RequestError_copy_ctor_def
  RequestError_move_ctor_def RequestError_dtor_def RequestError_copy_assign_def
  RequestError_move_assign_def RequestError_what_def RequestError_class_def

lemma error_parts_kept:
  fixes w w' :: "'z ew_scheme"
  assumes "str_frame w' = str_frame w"
  shows "cerrs w' = cerrs w \<and> ceobjs w' = ceobjs w" "rerrs w' = rerrs w \<and> reobjs w' = reobjs w"
  using assms by (cases w, cases w', simp add: str_frame_def)+

lemma ConnectionError_idiom:
  "ConnectionError_class = idiom_error ceobjs ceobjs_update async_nats_connection_error_delete
     async_nats_connection_error_clone async_nats_connection_error_describtion"
  by (simp add: ConnectionError_defs idiom_error_def fun_eq_iff)

lemma RequestError_idiom:
  "RequestError_class = idiom_error reobjs reobjs_update async_nats_request_error_delete
     async_nats_request_error_clone async_nats_request_error_describtion"
  by (simp add: RequestError_defs idiom_error_def fun_eq_iff)

interpretation cerr: error_class cerrs cerrs_update ce_refs "\<lambda>n e. e\<lparr>ce_refs := n\<rparr>"
  async_nats_connection_error_delete async_nats_connection_error_clone ceobjs ceobjs_update ce_text
  async_nats_connection_error_describtion ConnectionError_class
  by unfold_locales
    ((rule error_parts_kept; assumption) | (rule ConnectionError_idiom) |
     (simp add: async_nats_connection_error_delete_def async_nats_connection_error_clone_def
      async_nats_connection_error_describtion_def idiom_rc_delete_def idiom_rc_clone_def
      bnd_run deref_run; fail))+

interpretation rerr: error_class rerrs rerrs_update re_refs "\<lambda>n e. e\<lparr>re_refs := n\<rparr>"
  async_nats_request_error_delete async_nats_request_error_clone reobjs reobjs_update re_text
  async_nats_request_error_describtion RequestError_class
  by unfold_locales
    ((rule error_parts_kept; assumption) | (rule RequestError_idiom) |
     (simp add: async_nats_request_error_delete_def async_nats_request_error_clone_def
      async_nats_request_error_describtion_def idiom_rc_delete_def idiom_rc_clone_def
      bnd_run deref_run; fail))+

subsection \<open>Properties\<close>

text \<open>A world with a connection error and a request error, received and not adopted yet.\<close>

definition ex_ew :: ew where
  "ex_ew = hw.extend ex_hw \<lparr>cerrs = [2 \<mapsto> connect_error_new Kind_Dns (bs ''dns''), 3 \<mapsto> connect_error_new Kind_Io (bs ''io'')],
     rerrs = [4 \<mapsto> request_error_new RKind_NoResponders (bs ''none'')],
     ceobjs = Map.empty, reobjs = Map.empty\<rparr>"

lemma ex_ew_simps [simp]:
  "brk ex_ew = 5" "strs ex_ew = Map.empty"
  "cerrs ex_ew = [2 \<mapsto> connect_error_new Kind_Dns (bs ''dns''), 3 \<mapsto> connect_error_new Kind_Io (bs ''io'')]"
  "rerrs ex_ew = [4 \<mapsto> request_error_new RKind_NoResponders (bs ''none'')]"
  "ceobjs ex_ew = Map.empty" "reobjs ex_ew = Map.empty"
  by (simp_all add: ex_ew_def ex_hw_def ex_world_def hw.defs mw.defs)

definition ex_texts :: "ptr \<Rightarrow> bytes" where
  "ex_texts p = (if p = 2 then bs ''dns'' else if p = 3 then bs ''io'' else bs ''none'')"

lemma ex_texts_nul: "0 \<notin> set (ex_texts p)"
  by (simp add: ex_texts_def bs_def)

lemma ex_err_wf: "err_wf cerrs ce_refs ce_text ex_texts ex_ew" "err_wf rerrs re_refs re_text ex_texts ex_ew"
  by (auto simp: err_wf_def rc_wf_def own_wf_def heap_ok_def connect_error_new_def request_error_new_def
      ex_texts_def split: if_splits)

lemma e_empty [simp]: "e_ptrs Map.empty = Map.empty" "e_texts Map.empty = Map.empty" "e_shape Map.empty = Map.empty"
  by (simp_all add: e_ptrs_def e_texts_def e_shape_def)

text \<open>
  C28: every well-scoped program over \<open>ConnectionError\<close> objects (copies of objects that refer to
  an error, moves, assignments with self-assignment included, \<open>what()\<close>, destructions) runs
  without a fault; the counter of every error stays equal to the number of its holders, every
  cached text is a C string of its own, and when nothing is left alive every error box and every
  text has been freed.
\<close>

theorem connection_error_programs_safe:
  assumes "err_wf cerrs ce_refs ce_text C w"
    and "err_inv (rc_refs cerrs ce_refs) raw sext (ceobjs w) w"
    and "\<And>p. rc_refs cerrs ce_refs w p + length xs \<le> 2 ^ 64 - 1" "\<And>p. 0 \<notin> set (C p)"
    and "escope_all (e_shape (ceobjs w), raw) xs = Some (s', raw')"
  shows "\<exists>w'. erun ConnectionError_class xs w = Inr ((), w') \<and> err_wf cerrs ce_refs ce_text C w'
    \<and> e_shape (ceobjs w') = s' \<and> err_inv (rc_refs cerrs ce_refs) raw' sext (ceobjs w') w'
    \<and> (s' = Map.empty \<and> raw' = (\<lambda>_. 0) \<and> sext = (\<lambda>_. 0) \<longrightarrow> cerrs w' = Map.empty \<and> strs w' = Map.empty)"
  using cerr.erun_ok [OF assms] cerr.err_no_leak [of C] by blast

definition ex_error_program :: "eop list" where
  "ex_error_program = [EOp (HAdopt 0 2), EWhat 0, EOp (HCopy 1 0), EOp (HAdopt 2 3), EWhat 2,
     EOp (HCopyAssign 1 2), EOp (HMoveAssign 2 0), EOp (HMoveAssign 2 2), EOp (HDestroy 0),
     EOp (HDestroy 1), EOp (HDestroy 2)]"

theorem connection_error_programs_safe_witness:
  "\<exists>w'. erun ConnectionError_class ex_error_program ex_ew = Inr ((), w')
    \<and> cerrs w' = Map.empty \<and> strs w' = Map.empty"
proof -
  let ?raw = "\<lambda>p :: ptr. if p = 2 \<or> p = 3 then 1 else 0 :: nat"
  have inv: "err_inv (rc_refs cerrs ce_refs) ?raw (\<lambda>_. 0) (ceobjs ex_ew) ex_ew"
    by (simp add: err_inv_def ref_inv_def rc_refs_def own_refs_def connect_error_new_def)
  have room: "rc_refs cerrs ce_refs ex_ew p + length ex_error_program \<le> 2 ^ 64 - 1" for p
    by (simp add: rc_refs_def connect_error_new_def ex_error_program_def)
  have "escope_all (e_shape (ceobjs ex_ew), ?raw) ex_error_program = Some (Map.empty, \<lambda>_. 0)"
    by (auto simp: ex_error_program_def fun_eq_iff)
  from connection_error_programs_safe [OF ex_err_wf(1) inv room ex_texts_nul this]
  show ?thesis by blast
qed

text \<open>The same of the programs over \<open>RequestError\<close> objects.\<close>

theorem request_error_programs_safe:
  assumes "err_wf rerrs re_refs re_text C w"
    and "err_inv (rc_refs rerrs re_refs) raw sext (reobjs w) w"
    and "\<And>p. rc_refs rerrs re_refs w p + length xs \<le> 2 ^ 64 - 1" "\<And>p. 0 \<notin> set (C p)"
    and "escope_all (e_shape (reobjs w), raw) xs = Some (s', raw')"
  shows "\<exists>w'. erun RequestError_class xs w = Inr ((), w') \<and> err_wf rerrs re_refs re_text C w'
    \<and> e_shape (reobjs w') = s' \<and> err_inv (rc_refs rerrs re_refs) raw' sext (reobjs w') w'
    \<and> (s' = Map.empty \<and> raw' = (\<lambda>_. 0) \<and> sext = (\<lambda>_. 0) \<longrightarrow> rerrs w' = Map.empty \<and> strs w' = Map.empty)"
  using rerr.erun_ok [OF assms] rerr.err_no_leak [of C] by blast

theorem request_error_programs_safe_witness:
  "\<exists>w'. erun RequestError_class [EOp (HAdopt 0 4), EOp (HCopy 1 0), EWhat 1, EOp (HDestroy 0),
      EOp (HMove 0 1), EOp (HDestroy 1), EOp (HDestroy 0)] ex_ew = Inr ((), w')
    \<and> rerrs w' = Map.empty \<and> strs w' = Map.empty"
proof -
  let ?raw = "\<lambda>p :: ptr. if p = 4 then 1 else 0 :: nat"
  let ?xs = "[EOp (HAdopt 0 4), EOp (HCopy 1 0), EWhat 1, EOp (HDestroy 0),
      EOp (HMove 0 1), EOp (HDestroy 1), EOp (HDestroy 0)]"
  have inv: "err_inv (rc_refs rerrs re_refs) ?raw (\<lambda>_. 0) (reobjs ex_ew) ex_ew"
    by (simp add: err_inv_def ref_inv_def rc_refs_def own_refs_def request_error_new_def)
  have room: "rc_refs rerrs re_refs ex_ew p + length ?xs \<le> 2 ^ 64 - 1" for p
    by (simp add: rc_refs_def request_error_new_def)
  have "escope_all (e_shape (reobjs ex_ew), ?raw) ?xs = Some (Map.empty, \<lambda>_. 0)"
    by (auto simp: fun_eq_iff)
  from request_error_programs_safe [OF ex_err_wf(2) inv room ex_texts_nul this]
  show ?thesis by blast
qed

text \<open>
  The first \<open>what()\<close> of an exception object gives a C string that reads as the text of its
  error; the string is cached, so that a second call gives the same pointer and allocates nothing.
  Of an object that neither refers to an error nor has a text, \<open>what()\<close> stops at its assertion.
\<close>

theorem error_what_text:
  assumes "own_wf strs w" "ceobjs w i = Some \<lparr>eo_e = p, eo_str = None\<rparr>"
    and "p \<noteq> null \<Longrightarrow> cerrs w p = Some e" "0 \<notin> set (ce_text e)"
  shows "if p = null then ConnectionError_what i w = Inl (AssertFail no_exception)
    else \<exists>d w'. ConnectionError_what i w = Inr (d, w') \<and> cstr_bytes d w' = Inr (ce_text e, w')
      \<and> ConnectionError_what i w' = Inr (d, w')"
proof -
  have "takeWhile (\<lambda>c. c \<noteq> 0) (ce_text e @ [0]) = ce_text e"
    using assms(4) by (induction "ce_text e") (auto simp: takeWhile_append)
  moreover have "0 < brk w" using assms(1) by (simp add: own_wf_def heap_ok_pos)
  ultimately show ?thesis
    using assms(2-4)
    by (simp add: ConnectionError_what_def async_nats_connection_error_describtion_def
        string_to_owned_string_def cstr_ptr_def cm_simps)
qed

theorem error_what_text_witness:
  "\<exists>d w'. ConnectionError_what 0 (ex_ew\<lparr>ceobjs := [0 \<mapsto> \<lparr>eo_e = 2, eo_str = None\<rparr>]\<rparr>) = Inr (d, w')
    \<and> cstr_bytes d w' = Inr (bs ''dns'', w')"
  using error_what_text [of "ex_ew\<lparr>ceobjs := [0 \<mapsto> \<lparr>eo_e = 2, eo_str = None\<rparr>]\<rparr>" 0 2
      "connect_error_new Kind_Dns (bs ''dns'')"]
  by (auto simp: own_wf_def heap_ok_def connect_error_new_def bs_def)

text \<open>
  Copy assignment keeps the cached text of the object it assigns to. When \<open>what()\<close> has been
  called before, the object afterwards has the kind of the new error and the text of the old one.
  After a move the source keeps an engaged but null text, and its \<open>what()\<close> gives null.
\<close>

theorem error_text_stale:
  assumes "ceobjs w i = Some \<lparr>eo_e = p, eo_str = Some s\<rparr>" "ceobjs w j = Some \<lparr>eo_e = q, eo_str = t\<rparr>"
    and "i \<noteq> j" "p \<noteq> null" "q \<noteq> null" "p \<noteq> q" "cerrs w p = Some e" "cerrs w q = Some e'"
  shows "\<exists>w'. ConnectionError_copy_assign i j w = Inr ((), w')
      \<and> ConnectionError_kind i w' = Inr (connect_error_kind_of (ce_kind e'), w')
      \<and> ConnectionError_what i w' = Inr (cstr_ptr s, w') \<and> strs w' = strs w
    \<and> (\<exists>w''. sq (ConnectionError_move_ctor k i) (ConnectionError_what i) w = Inr (DNull, w'') \<or> k = i)"
  using assms
  by (auto simp: ConnectionError_copy_assign_def async_nats_connection_error_delete_def
      async_nats_connection_error_clone_def ConnectionError_kind_def async_nats_connection_error_kind_def
      ConnectionError_what_def ConnectionError_move_ctor_def opt_move_def cstr_ptr_def cm_simps)

theorem error_text_stale_witness:
  "\<exists>w'. ConnectionError_copy_assign 0 1 (ex_ew\<lparr>strs := [7 \<mapsto> bs ''dns'' @ [0]], ceobjs := [0 \<mapsto> \<lparr>eo_e = 2, eo_str = Some 7\<rparr>,
      1 \<mapsto> \<lparr>eo_e = 3, eo_str = None\<rparr>]\<rparr>) = Inr ((), w')
    \<and> ConnectionError_kind 0 w' = Inr (AsyncNats_ConnectIo, w')
    \<and> bnd (ConnectionError_what 0) cstr_bytes w' = Inr (bs ''dns'', w')"
  using error_text_stale [of "ex_ew\<lparr>strs := [7 \<mapsto> bs ''dns'' @ [0]], ceobjs := [0 \<mapsto> \<lparr>eo_e = 2, eo_str = Some 7\<rparr>,
      1 \<mapsto> \<lparr>eo_e = 3, eo_str = None\<rparr>]\<rparr>" 0 2 7 1 3 None
      "connect_error_new Kind_Dns (bs ''dns'')" "connect_error_new Kind_Io (bs ''io'')" 5]
  by (auto simp: connect_error_new_def cstr_ptr_def bnd_run cstr_bytes_run bs_def)

text \<open>
  \<open>kind()\<close> tells the kinds of the underlying errors apart: two live exception objects of the
  same class report the same kind exactly when their errors have the same kind. Copying an
  exception that refers to no error (it has been moved from) dereferences null.
\<close>

theorem error_kinds_faithful:
  assumes "ceobjs w i = Some x" "ceobjs w j = Some y" "eo_e x \<noteq> null" "eo_e y \<noteq> null"
    and "cerrs w (eo_e x) = Some e" "cerrs w (eo_e y) = Some e'"
    and "reobjs w i = Some x'" "reobjs w j = Some y'" "eo_e x' \<noteq> null" "eo_e y' \<noteq> null"
    and "rerrs w (eo_e x') = Some r" "rerrs w (eo_e y') = Some r'"
  shows "(ConnectionError_kind i w = ConnectionError_kind j w \<longleftrightarrow> ce_kind e = ce_kind e')
    \<and> (RequestError_kind i w = RequestError_kind j w \<longleftrightarrow> re_kind r = re_kind r')
    \<and> ConnectionError_copy_ctor l k (w\<lparr>ceobjs := [k \<mapsto> \<lparr>eo_e = null, eo_str = t\<rparr>]\<rparr>) = Inl (UB NullDeref)
    \<and> RequestError_copy_ctor l k (w\<lparr>reobjs := [k \<mapsto> \<lparr>eo_e = null, eo_str = t\<rparr>]\<rparr>) = Inl (UB NullDeref)"
proof -
  have "connect_error_kind_of a = connect_error_kind_of b \<longleftrightarrow> a = b" for a b
    by (cases a; cases b) simp_all
  moreover have "request_error_kind_of a = request_error_kind_of b \<longleftrightarrow> a = b" for a b
    by (cases a; cases b) simp_all
  ultimately show ?thesis
    using assms
    by (simp add: ConnectionError_kind_def RequestError_kind_def async_nats_connection_error_kind_def
        async_nats_request_error_kind_def ConnectionError_copy_ctor_def RequestError_copy_ctor_def
        async_nats_connection_error_clone_def async_nats_request_error_clone_def cm_simps)
qed

definition ex_kinds_world :: ew where
  "ex_kinds_world = ex_ew\<lparr>ceobjs := [0 \<mapsto> \<lparr>eo_e = 2, eo_str = None\<rparr>, 1 \<mapsto> \<lparr>eo_e = 3, eo_str = None\<rparr>],
     reobjs := [0 \<mapsto> \<lparr>eo_e = 4, eo_str = None\<rparr>, 1 \<mapsto> \<lparr>eo_e = 4, eo_str = None\<rparr>]\<rparr>"

theorem error_kinds_faithful_witness:
  "ConnectionError_kind 0 ex_kinds_world \<noteq> ConnectionError_kind 1 ex_kinds_world
    \<and> RequestError_kind 0 ex_kinds_world = RequestError_kind 1 ex_kinds_world"
  using error_kinds_faithful [of ex_kinds_world 0 "\<lparr>eo_e = 2, eo_str = None\<rparr>" 1
      "\<lparr>eo_e = 3, eo_str = None\<rparr>" "connect_error_new Kind_Dns (bs ''dns'')"
      "connect_error_new Kind_Io (bs ''io'')" "\<lparr>eo_e = 4, eo_str = None\<rparr>" "\<lparr>eo_e = 4, eo_str = None\<rparr>"
      "request_error_new RKind_NoResponders (bs ''none'')"
      "request_error_new RKind_NoResponders (bs ''none'')"]
  by (simp add: ex_kinds_world_def connect_error_new_def)

end
