(* ===== verification/Values.thy ===== *)
theory Values
  imports Boxes
begin

text \<open>
  Classes that own a plain box: \<open>RequestBuilder\<close>, \<open>ConnectionOptions\<close>, \<open>TokioRuntimeConfig\<close>,
  \<open>TokioRuntime\<close>, \<open>Connection\<close>, \<open>Subscribtion\<close>, \<open>SubscribtionCancellationToken\<close>, \<open>Receiver\<close> and
  \<open>Sender\<close>. Each object owns at most one box and no two objects share one,
  so that the objects behave like values: this theory states the abstract machine in which an
  object simply is an optional value, and proves once, in locales, that every program over the
  objects of such a class, with its raw pointers, boxes and deletions, refines that machine.
\<close>

subsection \<open>The abstract machine\<close>

text \<open>
  The state: the value of each live object (\<open>None\<close> when it has been moved from), and the values
  behind the raw pointers that no object has adopted. The operations: a constructor with an
  argument, a setter with an argument, the special member functions.
\<close>

type_synonym 'b vstate = "(oid \<rightharpoonup> 'b option) \<times> (ptr \<rightharpoonup> 'b)"

datatype ('n, 's) vop = VNew oid 'n | VSet oid 's | VOp hop

text \<open>
  \<open>None\<close>: the operation is not well scoped. \<open>Some (Inl e)\<close>: it ends in the fault \<open>e\<close>. The
  arguments say whether the class is copyable, what a constructor gives and what a setter does to
  a value.
\<close>

fun vstep :: "bool \<Rightarrow> ('n \<Rightarrow> fault + 'b option) \<Rightarrow> ('s \<Rightarrow> 'b \<Rightarrow> fault + 'b) \<Rightarrow> 'b vstate
    \<Rightarrow> ('n, 's) vop \<Rightarrow> (fault + 'b vstate) option" where
  "vstep cp mk st (s, r) (VNew i n) =
     (if s i = None then Some (map_sum id (\<lambda>x. (s(i \<mapsto> x), r)) (mk n)) else None)"
| "vstep cp mk st (s, r) (VSet i a) =
     (case s i of None \<Rightarrow> None
      | Some None \<Rightarrow> Some (Inl (UB NullDeref))
      | Some (Some b) \<Rightarrow> Some (map_sum id (\<lambda>b'. (s(i \<mapsto> Some b'), r)) (st a b)))"
| "vstep cp mk st (s, r) (VOp (HAdopt i p)) =
     (if s i \<noteq> None then None
      else if p = null then Some (Inr (s(i \<mapsto> None), r))
      else case r p of None \<Rightarrow> None | Some b \<Rightarrow> Some (Inr (s(i \<mapsto> Some b), r(p := None))))"
| "vstep cp mk st (s, r) (VOp (HMove i j)) =
     (case (s i, s j) of (None, Some x) \<Rightarrow> Some (Inr (s(i \<mapsto> x, j \<mapsto> None), r)) | _ \<Rightarrow> None)"
| "vstep cp mk st (s, r) (VOp (HMoveAssign i j)) =
     (case (s i, s j) of
        (Some _, Some x) \<Rightarrow> Some (Inr (if i = j then s else s(i \<mapsto> x, j \<mapsto> None), r)) | _ \<Rightarrow> None)"
| "vstep cp mk st (s, r) (VOp (HDestroy i)) =
     (case s i of None \<Rightarrow> None | Some _ \<Rightarrow> Some (Inr (s(i := None), r)))"
| "vstep cp mk st (s, r) (VOp (HCopy i j)) =
     (if \<not> cp then None
      else case (s i, s j) of
        (None, Some None) \<Rightarrow> Some (Inl (UB NullDeref))
      | (None, Some (Some b)) \<Rightarrow> Some (Inr (s(i \<mapsto> Some b), r)) | _ \<Rightarrow> None)"
| "vstep cp mk st (s, r) (VOp (HCopyAssign i j)) =
     (if \<not> cp then None
      else case (s i, s j) of
        (Some _, Some x) \<Rightarrow>
          if i = j then Some (Inr (s, r))
          else (case x of None \<Rightarrow> Some (Inl (UB NullDeref)) | Some b \<Rightarrow> Some (Inr (s(i \<mapsto> Some b), r)))
      | _ \<Rightarrow> None)"

fun vrun :: "bool \<Rightarrow> ('n \<Rightarrow> fault + 'b option) \<Rightarrow> ('s \<Rightarrow> 'b \<Rightarrow> fault + 'b) \<Rightarrow> 'b vstate
    \<Rightarrow> ('n, 's) vop list \<Rightarrow> (fault + 'b vstate) option" where
  "vrun cp mk st t [] = Some (Inr t)"
| "vrun cp mk st t (x # xs) =
     (case vstep cp mk st t x of
        None \<Rightarrow> None | Some (Inl e) \<Rightarrow> Some (Inl e) | Some (Inr t') \<Rightarrow> vrun cp mk st t' xs)"

subsection \<open>Exclusive ownership\<close>

text \<open>
  The heap \<open>hp\<close> and the objects' pointers \<open>cl\<close> represent the abstract state: an object that is
  not null owns a box, alone, whose content is the object's value; a raw pointer owns a box; no
  other box is alive.
\<close>

definition owns :: "(ptr \<rightharpoonup> 'b) \<Rightarrow> (oid \<rightharpoonup> ptr) \<Rightarrow> 'b vstate \<Rightarrow> bool" where
  "owns hp cl t \<longleftrightarrow> hp null = None
     \<and> (\<forall>i. fst t i = map_option hp (cl i))
     \<and> (\<forall>i p. cl i = Some p \<and> p \<noteq> null \<longrightarrow>
          hp p \<noteq> None \<and> snd t p = None \<and> (\<forall>j. cl j = Some p \<longrightarrow> j = i))
     \<and> (\<forall>p b. snd t p = Some b \<longrightarrow> hp p = Some b)
     \<and> (\<forall>p. hp p \<noteq> None \<longrightarrow> snd t p \<noteq> None \<or> (\<exists>i. cl i = Some p))"

lemma owns_at:
  assumes "owns hp cl (s, r)"
  shows "s i = None \<longleftrightarrow> cl i = None" "cl i = Some p \<Longrightarrow> s i = Some (hp p)"
    "cl i = Some p \<Longrightarrow> hp p = None \<longleftrightarrow> p = null" "r p = Some b \<Longrightarrow> hp p = Some b \<and> p \<noteq> null"
  using assms unfolding owns_def by (auto, (metis gr0I option.simps(3))+)

lemma ownsD:
  assumes "owns hp cl (s, r)"
  shows "hp null = None" "s i = map_option hp (cl i)" "cl i = Some p \<Longrightarrow> p \<noteq> null \<Longrightarrow> hp p \<noteq> None"
    "cl i = Some p \<Longrightarrow> r p = None" "cl i = Some p \<Longrightarrow> cl j = Some p \<Longrightarrow> p \<noteq> null \<Longrightarrow> j = i"
    "r p = Some b \<Longrightarrow> hp p = Some b" "hp p = Some b \<Longrightarrow> r p = None \<Longrightarrow> \<exists>i. cl i = Some p"
  using assms unfolding owns_def by (auto, metis gr0I not_Some_eq)

lemma ownsI:
  assumes "hp null = None" "\<And>i. s i = map_option hp (cl i)"
    "\<And>i p. cl i = Some p \<Longrightarrow> p \<noteq> null \<Longrightarrow> hp p \<noteq> None \<and> r p = None"
    "\<And>i j p. cl i = Some p \<Longrightarrow> cl j = Some p \<Longrightarrow> p \<noteq> null \<Longrightarrow> j = i"
    "\<And>p b. r p = Some b \<Longrightarrow> hp p = Some b" "\<And>p b. hp p = Some b \<Longrightarrow> r p = None \<Longrightarrow> \<exists>i. cl i = Some p"
  shows "owns hp cl (s, r)"
  using assms unfolding owns_def by (auto simp: not_None_eq [symmetric] simp del: not_None_eq)

lemma owns_fresh:
  assumes "owns hp cl (s, r)" "hp p = None" "p \<noteq> null" "cl i = None \<or> cl i = Some null"
  shows "owns (hp(p \<mapsto> b)) (cl(i \<mapsto> p)) (s(i \<mapsto> Some b), r)"
proof (rule ownsI)
  note D = ownsD [OF assms(1)]
  show "\<exists>j. (cl(i \<mapsto> p)) j = Some q" if "(hp(p \<mapsto> b)) q = Some x" "r q = None" for q x
    using that D(1) D(7) [of q x] assms(4) by (cases "q = p") (force simp: fun_upd_apply)+
  show "r q = Some x \<Longrightarrow> (hp(p \<mapsto> b)) q = Some x" for q x
    using D(6) [of q x] assms(2) by auto
  show "j = k" if "(cl(i \<mapsto> p)) k = Some q" "(cl(i \<mapsto> p)) j = Some q" "q \<noteq> null" for k j q
    using that D(3) [of _ q] D(5) [of k q j] assms(2) by (auto split: if_splits)
  show "(hp(p \<mapsto> b)) q \<noteq> None \<and> r q = None" if "(cl(i \<mapsto> p)) k = Some q" "q \<noteq> null" for k q
    using that D(3,4) [of k q] D(6) [of p] assms(2) by (cases "r p") (auto split: if_splits)
  show "(s(i \<mapsto> Some b)) k = map_option (hp(p \<mapsto> b)) ((cl(i \<mapsto> p)) k)" for k
    using D(2) [of k] D(3) [of k p] assms(2,3) by (cases "cl k") auto
qed (use ownsD(1) [OF assms(1)] assms(3) in simp)

lemma owns_null:
  "owns hp cl (s, r) \<Longrightarrow> cl i = None \<Longrightarrow> owns hp (cl(i \<mapsto> null)) (s(i \<mapsto> None), r)"
  unfolding owns_def by (auto split: if_splits) (metis gr0I option.inject option.simps(3))+

lemma owns_adopt:
  assumes "owns hp cl (s, r)" "r p = Some b" "cl i = None"
  shows "owns hp (cl(i \<mapsto> p)) (s(i \<mapsto> Some b), r(p := None))"
  using assms unfolding owns_def by (auto split: if_splits) (metis gr0I option.inject option.simps(3))+

lemma owns_drop:
  assumes "owns hp cl (s, r)" "cl i = Some p"
  shows "owns (hp(p := None)) (cl(i \<mapsto> null)) (s(i \<mapsto> None), r)"
proof (rule ownsI)
  note D = ownsD [OF assms(1)]
  show "\<exists>j. (cl(i \<mapsto> null)) j = Some q" if "(hp(p := None)) q = Some x" "r q = None" for q x
    using that D(7) [of q x] assms(2) by (force simp: fun_upd_apply split: if_splits)
  show "r q = Some x \<Longrightarrow> (hp(p := None)) q = Some x" for q x
    using D(4) [OF assms(2)] D(6) [of q x] by auto
  show "j = k" if "(cl(i \<mapsto> null)) k = Some q" "(cl(i \<mapsto> null)) j = Some q" "q \<noteq> null" for k j q
    using that D(5) [of k q j] by (auto split: if_splits)
  show "(hp(p := None)) q \<noteq> None \<and> r q = None" if "(cl(i \<mapsto> null)) k = Some q" "q \<noteq> null" for k q
    using that D(3,4) [of k q] D(5) [OF assms(2), of k] by (auto split: if_splits)
  show "(s(i \<mapsto> None)) k = map_option (hp(p := None)) ((cl(i \<mapsto> null)) k)" for k
    using D(1) D(2) [of k] D(5) [OF assms(2), of k] by (cases "cl k"; cases "p = null") auto
qed (use ownsD(1) [OF assms(1)] in simp)

lemma owns_end:
  "owns hp cl (s, r) \<Longrightarrow> cl i = Some null \<Longrightarrow> owns hp (cl(i := None)) (s(i := None), r)"
  unfolding owns_def by (auto split: if_splits) (metis gr0I option.inject option.simps(3))+

lemma owns_move:
  assumes "owns hp cl (s, r)" "cl j = Some q" "i \<noteq> j" "cl i = None \<or> cl i = Some null"
  shows "owns hp (cl(i \<mapsto> q, j \<mapsto> null)) (s(i \<mapsto> hp q, j \<mapsto> None), r)"
proof (rule ownsI)
  note D = ownsD [OF assms(1)]
  let ?cl = "cl(i \<mapsto> q, j \<mapsto> null)"
  show "\<exists>k. ?cl k = Some p" if "hp p = Some x" "r p = None" for p x
  proof -
    note p = that
    obtain k where k: "cl k = Some p" using D(7) [OF p] by blast
    show ?thesis
    proof (cases "k = j")
      case True
      with k assms(2,3) have "?cl i = Some p" by simp
      then show ?thesis by blast
    next
      case False
      with k p(1) D(1) assms(4) have "?cl k = Some p" by auto
      then show ?thesis by blast
    qed
  qed
  show "l = k" if "?cl k = Some p" "?cl l = Some p" "p \<noteq> null" for k l p
  proof -
    have "cl (if k = i then j else k) = Some p" "k \<noteq> j" "cl (if l = i then j else l) = Some p" "l \<noteq> j"
      using that assms(2) by (simp_all split: if_splits)
    with D(5) [OF this(1,3) that(3)] show ?thesis by (simp split: if_splits)
  qed
  show "hp p \<noteq> None \<and> r p = None" if "?cl k = Some p" "p \<noteq> null" for k p
  proof -
    have "cl (if k = i then j else k) = Some p" using that assms(2) by (simp split: if_splits)
    with D(3,4) that(2) show ?thesis by blast
  qed
  show "(s(i \<mapsto> hp q, j \<mapsto> None)) k = map_option hp (?cl k)" for k
    using D(1) D(2) [of k] by simp
qed (use ownsD [OF assms(1)] in simp_all)

lemma owns_set:
  assumes "owns hp cl (s, r)" "cl i = Some p" "p \<noteq> null"
  shows "owns (hp(p \<mapsto> b)) cl (s(i \<mapsto> Some b), r)"
proof (rule ownsI)
  note D = ownsD [OF assms(1)]
  show "\<exists>j. cl j = Some q" if "(hp(p \<mapsto> b)) q = Some x" "r q = None" for q x
    using that D(7) [of q x] assms(2) by (auto split: if_splits)
  show "r q = Some x \<Longrightarrow> (hp(p \<mapsto> b)) q = Some x" for q x
    using D(4) [OF assms(2)] D(6) [of q x] by auto
  show "j = k" if "cl k = Some q" "cl j = Some q" "q \<noteq> null" for k j q
    using that D(5) [of k q j] by auto
  show "(hp(p \<mapsto> b)) q \<noteq> None \<and> r q = None" if "cl k = Some q" "q \<noteq> null" for k q
    using that D(3,4) [of k q] by auto
  show "(s(i \<mapsto> Some b)) k = map_option (hp(p \<mapsto> b)) (cl k)" for k
    using D(2) [of k] D(5) [OF assms(2), of k] assms(2,3) by (cases "cl k") auto
qed (use ownsD(1) [OF assms(1)] assms(3) in simp)

text \<open>With no object and no raw pointer left, every box has been freed.\<close>

lemma owns_no_leak: "owns hp cl (Map.empty, Map.empty) \<Longrightarrow> hp = Map.empty"
  unfolding owns_def by (auto simp: fun_eq_iff)

subsection \<open>The contract of an owning class\<close>

text \<open>
  \<open>keep\<close> is the part of the world that the class leaves alone: arguments of constructors and
  setters are read from it. \<open>mk\<close> and \<open>st\<close> are the abstract constructor and setter, given that
  part.
\<close>

definition idiom_new where
  "idiom_new upd cupd x i =
     (case x of None \<Rightarrow> obj_put cupd i null | Some b \<Rightarrow> bnd (box_into_raw upd b) (obj_put cupd i))"

text \<open>
  The concrete machine: the constructor, the setter and the special member functions of the class.
\<close>

fun ostep :: "('n \<Rightarrow> oid \<Rightarrow> ('w, unit) cm) \<Rightarrow> ('s \<Rightarrow> oid \<Rightarrow> ('w, unit) cm) \<Rightarrow> 'w hclass \<Rightarrow> ('n, 's) vop
    \<Rightarrow> ('w, unit) cm" where
  "ostep new setter cls (VNew i n) = new n i"
| "ostep new setter cls (VSet i a) = setter a i"
| "ostep new setter cls (VOp x) = hstep cls x"

fun orun :: "('n \<Rightarrow> oid \<Rightarrow> ('w, unit) cm) \<Rightarrow> ('s \<Rightarrow> oid \<Rightarrow> ('w, unit) cm) \<Rightarrow> 'w hclass
    \<Rightarrow> ('n, 's) vop list \<Rightarrow> ('w, unit) cm" where
  "orun new setter cls [] = ret ()"
| "orun new setter cls (x # xs) = sq (ostep new setter cls x) (orun new setter cls xs)"

text \<open>The simulation relation, with the part of the world that stays (\<open>F\<close>).\<close>

definition vrel :: "('z mem_scheme \<Rightarrow> ptr \<rightharpoonup> 'b) \<Rightarrow> ('z mem_scheme \<Rightarrow> oid \<rightharpoonup> ptr) \<Rightarrow> ('z mem_scheme \<Rightarrow> 'k)
    \<Rightarrow> 'k \<Rightarrow> 'b vstate \<Rightarrow> 'z mem_scheme \<Rightarrow> bool" where
  "vrel h cells keep F t w \<longleftrightarrow> keep w = F \<and> own_wf h w \<and> owns (h w) (cells w) t"

lemma vrel_null: "vrel h cells keep F (s, r) w \<Longrightarrow> h w null = None"
  by (auto simp: vrel_def dest: ownsD(1))

text \<open>
  The contract of a class whose objects own boxes alone: the C API's delete function frees the box,
  and whatever else it does stays outside \<open>keep\<close>; its clone function makes a new box with the
  same content, and dereferences null when there is nothing to clone.
\<close>

locale value_handle =
  fixes h :: "'z mem_scheme \<Rightarrow> ptr \<rightharpoonup> 'b"
    and cells :: "'z mem_scheme \<Rightarrow> oid \<rightharpoonup> ptr"
    and cupd :: "((oid \<rightharpoonup> ptr) \<Rightarrow> (oid \<rightharpoonup> ptr)) \<Rightarrow> 'z mem_scheme \<Rightarrow> 'z mem_scheme"
    and del :: "ptr \<Rightarrow> ('z mem_scheme, unit) cm"
    and clone :: "ptr \<Rightarrow> ('z mem_scheme, ptr) cm"
    and keep :: "'z mem_scheme \<Rightarrow> 'k"
    and cls :: "'z mem_scheme hclass"
    and cp :: bool
  assumes object_laws: "h (cupd g w) = h w" "brk (cupd g w) = brk w" "keep (cupd g w) = keep w"
      "cells (cupd (\<lambda>c. c(i := y)) w) = (cells w)(i := y)"
    and del_ok: "h w p = Some b \<Longrightarrow> p \<noteq> null \<Longrightarrow> \<exists>w'. del p w = Inr ((), w')
      \<and> h w' = (h w)(p := None) \<and> cells w' = cells w \<and> brk w' = brk w \<and> keep w' = keep w"
    and clone_null: "cp \<Longrightarrow> clone null w = Inl (UB NullDeref)"
    and clone_ok: "cp \<Longrightarrow> h w p = Some b \<Longrightarrow> p \<noteq> null \<Longrightarrow> \<exists>w'. clone p w = Inr (brk w, w')
      \<and> h w' = (h w)(brk w \<mapsto> b) \<and> cells w' = cells w \<and> brk w' = Suc (brk w) \<and> keep w' = keep w"
    and adopt_idiom: "h_adopt cls i p = obj_put cupd i p"
    and move_idiom: "h_move cls i j = idiom_move_ctor cells cupd i j"
    and move_assign_idiom: "h_move_assign cls i j = idiom_move_assign cells cupd del i j"
    and dtor_idiom: "h_dtor cls i = idiom_dtor cells cupd del i"
    and copy_idiom: "cp \<Longrightarrow> h_copy cls i j = idiom_copy_ctor cells cupd clone i j"
    and copy_assign_idiom: "cp \<Longrightarrow> h_copy_assign cls i j = idiom_copy_assign cells cupd del clone i j"
begin

text \<open>Object \<open>i\<close> holds the box just made at the break.\<close>

lemma fresh_owned:
  assumes "own_wf h w" "keep w = F" "owns (h w) (cells w) (s, r)" "cells w i = None \<or> cells w i = Some null"
    and "h w' = (h w)(brk w \<mapsto> b)" "cells w' = cells w" "brk w' = Suc (brk w)" "keep w' = F"
  shows "vrel h cells keep F (s(i \<mapsto> Some b), r) (cupd (\<lambda>c. c(i \<mapsto> brk w)) w')"
  using assms owns_fresh [of "h w" "cells w" s r "brk w" i b]
  by (auto simp: vrel_def own_wf_def object_laws heap_ok_fresh heap_ok_pos heap_ok_new)

text \<open>Deleting what object \<open>i\<close> owns.\<close>

lemma drop_box:
  assumes "vrel h cells keep F (s, r) w" "cells w i = Some p"
  shows "\<exists>w'. whenM (p \<noteq> null) (del p) w = Inr ((), w') \<and> cells w' = cells w \<and> h w' = (h w)(p := None)
    \<and> keep w' = F \<and> own_wf h w' \<and> owns (h w') ((cells w)(i \<mapsto> null)) (s(i \<mapsto> None), r)"
proof (cases "p = null")
  case True
  have "(h w)(p := None) = h w" using vrel_null [OF assms(1)] True by auto
  moreover have "owns ((h w)(p := None)) ((cells w)(i \<mapsto> null)) (s(i \<mapsto> None), r)"
    using assms by (intro owns_drop) (auto simp: vrel_def)
  ultimately show ?thesis using assms(1) True by (simp add: whenM_run vrel_def)
next
  case False
  have "owns ((h w)(p := None)) ((cells w)(i \<mapsto> null)) (s(i \<mapsto> None), r)"
    using assms by (intro owns_drop) (auto simp: vrel_def)
  moreover obtain b where "h w p = Some b"
    using assms False ownsD(3) [of "h w" "cells w" s r i p] by (auto simp: vrel_def)
  then obtain w' where "del p w = Inr ((), w')" "h w' = (h w)(p := None)" "cells w' = cells w"
      "brk w' = brk w" "keep w' = keep w"
    using del_ok False by blast
  ultimately show ?thesis
    using assms(1) False by (simp add: whenM_run vrel_def own_wf_def heap_ok_free)
qed

lemma vmove_ok:
  assumes "vrel h cells keep F (s, r) w" "cells w i = None" "cells w j = Some q"
  shows "\<exists>w'. h_move cls i j w = Inr ((), w') \<and> vrel h cells keep F (s(i \<mapsto> h w q, j \<mapsto> None), r) w'"
proof -
  have "i \<noteq> j" using assms(2,3) by auto
  then have "owns (h w) ((cells w)(i \<mapsto> q, j \<mapsto> null)) (s(i \<mapsto> h w q, j \<mapsto> None), r)"
    using assms by (intro owns_move) (auto simp: vrel_def)
  then show ?thesis
    using assms by (simp add: move_idiom idiom_move_ctor_def cm_simps vrel_def own_wf_def object_laws)
qed

lemma vdtor_ok:
  assumes "vrel h cells keep F (s, r) w" "cells w i = Some p"
  shows "\<exists>w'. h_dtor cls i w = Inr ((), w') \<and> vrel h cells keep F (s(i := None), r) w'"
proof -
  obtain w' where w': "whenM (p \<noteq> null) (del p) w = Inr ((), w')" "cells w' = cells w" "keep w' = F"
      "own_wf h w'" "owns (h w') ((cells w)(i \<mapsto> null)) (s(i \<mapsto> None), r)"
    using drop_box [OF assms] by blast
  have "owns (h w') ((cells w)(i := None)) (s(i := None), r)"
    using owns_end [OF w'(5), of i] by simp
  then show ?thesis
    using w' assms(2)
    by (simp add: dtor_idiom idiom_dtor_def bnd_run sq_run obj_get_run obj_end_run vrel_def own_wf_def
        object_laws)
qed

lemma vmove_assign_ok:
  assumes "vrel h cells keep F (s, r) w" "cells w i = Some p" "cells w j = Some q" "i \<noteq> j"
  shows "\<exists>w'. h_move_assign cls i j w = Inr ((), w') \<and> vrel h cells keep F (s(i \<mapsto> h w q, j \<mapsto> None), r) w'"
proof -
  obtain w' where w': "whenM (p \<noteq> null) (del p) w = Inr ((), w')" "cells w' = cells w" "keep w' = F"
      "own_wf h w'" "h w' = (h w)(p := None)" "owns (h w') ((cells w)(i \<mapsto> null)) (s(i \<mapsto> None), r)"
    using drop_box [OF assms(1,2)] by blast
  have "h w' q = h w q"
    using ownsD(1) [of "h w" "cells w" s r] ownsD(5) [of "h w" "cells w" s r i p j] assms w'(5)
    by (cases "p = null") (auto simp: vrel_def)
  then have "owns (h w') ((cells w)(i \<mapsto> q, j \<mapsto> null)) (s(i \<mapsto> h w q, j \<mapsto> None), r)"
    using owns_move [OF w'(6), of j q i] assms(3,4) by simp
  then show ?thesis
    using w' assms(2-4)
    by (simp add: move_assign_idiom idiom_move_assign_def bnd_run sq_run obj_get_run obj_put_run
        vrel_def own_wf_def object_laws)
qed

lemma vcopy_ok:
  assumes "vrel h cells keep F (s, r) w" "cells w i = None" "cells w j = Some q" cp
  shows "case h w q of None \<Rightarrow> h_copy cls i j w = Inl (UB NullDeref)
    | Some b \<Rightarrow> \<exists>w'. h_copy cls i j w = Inr ((), w') \<and> vrel h cells keep F (s(i \<mapsto> Some b), r) w'"
proof (cases "h w q")
  case None
  then have "q = null" using ownsD(3) [of "h w" "cells w" s r j q] assms by (auto simp: vrel_def)
  then show ?thesis using None assms(3,4)
    by (simp add: copy_idiom idiom_copy_ctor_def clone_null cm_simps)
next
  case (Some b)
  then have "q \<noteq> null" using vrel_null [OF assms(1)] by (cases "q = null") auto
  then obtain w' where w': "clone q w = Inr (brk w, w')" "h w' = (h w)(brk w \<mapsto> b)" "cells w' = cells w"
      "brk w' = Suc (brk w)" "keep w' = keep w"
    using clone_ok [OF assms(4) Some] by blast
  then have "vrel h cells keep F (s(i \<mapsto> Some b), r) (cupd (\<lambda>c. c(i \<mapsto> brk w)) w')"
    using assms(1,2) by (intro fresh_owned) (auto simp: vrel_def)
  then show ?thesis using Some assms(3,4) w'(1)
    by (simp add: copy_idiom idiom_copy_ctor_def bnd_run obj_get_run obj_put_run)
qed

lemma vcopy_assign_ok:
  assumes "vrel h cells keep F (s, r) w" "cells w i = Some p" "cells w j = Some q" "i \<noteq> j" cp
  shows "case h w q of None \<Rightarrow> h_copy_assign cls i j w = Inl (UB NullDeref)
    | Some b \<Rightarrow> \<exists>w'. h_copy_assign cls i j w = Inr ((), w') \<and> vrel h cells keep F (s(i \<mapsto> Some b), r) w'"
proof -
  obtain w1 where w1: "whenM (p \<noteq> null) (del p) w = Inr ((), w1)" "cells w1 = cells w" "keep w1 = F"
      "own_wf h w1" "h w1 = (h w)(p := None)" "owns (h w1) ((cells w)(i \<mapsto> null)) (s(i \<mapsto> None), r)"
    using drop_box [OF assms(1,2)] by blast
  note start = assms(2-5) w1(1,2)
  show ?thesis
  proof (cases "h w q")
    case None
    then have "q = null" using ownsD(3) [of "h w" "cells w" s r j q] assms by (auto simp: vrel_def)
    then show ?thesis using None start
      by (simp add: copy_assign_idiom idiom_copy_assign_def clone_null bnd_run sq_run obj_get_run)
  next
    case (Some b)
    then have q: "q \<noteq> null" using vrel_null [OF assms(1)] by (cases "q = null") auto
    then have b: "h w1 q = Some b"
      using Some ownsD(5) [of "h w" "cells w" s r i p j] assms w1(5) by (auto simp: vrel_def)
    obtain w2 where w2: "clone q w1 = Inr (brk w1, w2)" "h w2 = (h w1)(brk w1 \<mapsto> b)" "cells w2 = cells w1"
        "brk w2 = Suc (brk w1)" "keep w2 = keep w1"
      using clone_ok [OF assms(5) b q] by blast
    have "owns ((h w1)(brk w1 \<mapsto> b)) ((cells w)(i \<mapsto> null, i \<mapsto> brk w1))
        (s(i \<mapsto> None, i \<mapsto> Some b), r)"
      using w1(4) by (intro owns_fresh [OF w1(6)]) (auto simp: own_wf_def heap_ok_fresh heap_ok_pos)
    then show ?thesis using Some b q start w1(3,4) w2
      by (simp add: copy_assign_idiom idiom_copy_assign_def bnd_run sq_run obj_get_run
          obj_put_run vrel_def own_wf_def object_laws heap_ok_new)
  qed
qed

text \<open>The assignments, self-assignment included.\<close>

lemma vmove_assign_any:
  assumes "vrel h cells keep F (s, r) w" "cells w i = Some p" "cells w j = Some q"
  shows "\<exists>w'. h_move_assign cls i j w = Inr ((), w')
    \<and> vrel h cells keep F (if i = j then s else s(i \<mapsto> h w q, j \<mapsto> None), r) w'"
proof (cases "i = j")
  case True
  then show ?thesis using assms(1) by (simp add: move_assign_idiom idiom_move_assign_def)
next
  case False
  with vmove_assign_ok [OF assms] show ?thesis by auto
qed

lemma vcopy_assign_any:
  assumes "vrel h cells keep F (s, r) w" "cells w i = Some p" "cells w j = Some q" cp
  shows "case (if i = j then Inr (s, r)
      else case h w q of None \<Rightarrow> Inl (UB NullDeref) | Some b \<Rightarrow> Inr (s(i \<mapsto> Some b), r)) of
        Inl e \<Rightarrow> h_copy_assign cls i j w = Inl e
      | Inr t \<Rightarrow> \<exists>w'. h_copy_assign cls i j w = Inr ((), w') \<and> vrel h cells keep F t w'"
proof (cases "i = j")
  case True
  then show ?thesis using assms(1,4) by (simp add: copy_assign_idiom idiom_copy_assign_def)
next
  case False
  with vcopy_assign_ok [OF assms(1-3) False assms(4)] show ?thesis by (cases "h w q") auto
qed

text \<open>The special member functions simulate those of the abstract machine.\<close>

lemma vop_refines:
  assumes "vrel h cells keep F t w" "vstep cp mk st t (VOp y) = Some res"
  shows "case res of Inl e \<Rightarrow> hstep cls y w = Inl e
    | Inr t' \<Rightarrow> \<exists>w'. hstep cls y w = Inr ((), w') \<and> vrel h cells keep F t' w'"
proof -
  obtain s r where t: "t = (s, r)" by (cases t)
  note rel = assms(1) [unfolded t]
  have own: "owns (h w) (cells w) (s, r)" using rel by (simp add: vrel_def)
  note at = owns_at(1) [OF own] ownsD(2) [OF own]
  note sc = assms(2) [unfolded t]
  show ?thesis
  proof (cases y)
    case (HAdopt i p)
    have "owns (h w) ((cells w)(i \<mapsto> p)) (fst t', snd t')" if "res = Inr t'" for t'
      using that sc HAdopt owns_null [OF own] owns_adopt [OF own]
      by (auto simp: at(1) split: if_splits option.splits)
    moreover have "\<exists>t'. res = Inr t'"
      using sc HAdopt by (auto split: if_splits option.splits)
    ultimately show ?thesis
      using rel HAdopt by (auto simp: adopt_idiom obj_put_run vrel_def own_wf_def object_laws)
  next
    case (HMove i j)
    with sc obtain q where "cells w i = None" "cells w j = Some q"
        "res = Inr (s(i \<mapsto> h w q, j \<mapsto> None), r)"
      by (cases "cells w j") (auto simp: at split: option.splits)
    with vmove_ok [OF rel] HMove show ?thesis by auto
  next
    case (HMoveAssign i j)
    with sc obtain p q where q: "cells w i = Some p" "cells w j = Some q"
        "res = Inr (if i = j then s else s(i \<mapsto> h w q, j \<mapsto> None), r)"
      by (cases "cells w j"; cases "cells w i") (auto simp: at)
    with vmove_assign_any [OF rel q(1,2)] HMoveAssign show ?thesis by auto
  next
    case (HDestroy i)
    with sc obtain p where "cells w i = Some p" "res = Inr (s(i := None), r)"
      by (cases "cells w i") (auto simp: at)
    with vdtor_ok [OF rel] HDestroy show ?thesis by auto
  next
    case (HCopy i j)
    with sc obtain q where q: cp "cells w i = None" "cells w j = Some q"
        "res = (case h w q of None \<Rightarrow> Inl (UB NullDeref) | Some b \<Rightarrow> Inr (s(i \<mapsto> Some b), r))"
      by (cases "cells w j"; cases "cells w i") (auto simp: at split: option.splits if_splits)
    with vcopy_ok [OF rel q(2,3,1)] HCopy show ?thesis by (cases "h w q") auto
  next
    case (HCopyAssign i j)
    with sc obtain p q where q: cp "cells w i = Some p" "cells w j = Some q"
        "res = (if i = j then Inr (s, r)
           else case h w q of None \<Rightarrow> Inl (UB NullDeref) | Some b \<Rightarrow> Inr (s(i \<mapsto> Some b), r))"
      by (cases "cells w j"; cases "cells w i") (auto simp: at split: option.splits if_splits)
    show ?thesis
      unfolding HCopyAssign hstep.simps q(4) using vcopy_assign_any [OF rel q(2,3,1)] .
  qed
qed

lemma vops_refine:
  assumes "vrel h cells keep F t w" "vrun cp mk st t (map VOp xs) = Some res"
  shows "case res of Inl e \<Rightarrow> hrun cls xs w = Inl e
    | Inr t' \<Rightarrow> \<exists>w'. hrun cls xs w = Inr ((), w') \<and> vrel h cells keep F t' w'"
  using assms
proof (induction xs arbitrary: t w)
  case Nil
  then show ?case by auto
next
  case (Cons x xs)
  from Cons.prems(2) obtain res1 where x: "vstep cp mk st t (VOp x) = Some res1"
    by (cases "vstep cp mk st t (VOp x)") auto
  show ?case
  proof (cases res1)
    case (Inl e)
    with vop_refines [OF Cons.prems(1) x] Cons.prems(2) x show ?thesis by (auto simp: sq_run)
  next
    case (Inr t1)
    then obtain w1 where "hstep cls x w = Inr ((), w1)" "vrel h cells keep F t1 w1"
      using vop_refines [OF Cons.prems(1) x] by auto
    with Cons.IH [of t1 w1] Cons.prems(2) x Inr show ?thesis by (cases res) (auto simp: sq_run)
  qed
qed

end

text \<open>
  A class that also constructs its boxes and has setters: what they read is in \<open>keep\<close>, \<open>mk\<close> and
  \<open>st\<close> are the abstract constructor and setter, given that part.
\<close>

locale value_class = value_handle h cells cupd del clone keep cls cp
  for h :: "'z mem_scheme \<Rightarrow> ptr \<rightharpoonup> 'b"
    and cells :: "'z mem_scheme \<Rightarrow> oid \<rightharpoonup> ptr"
    and cupd :: "((oid \<rightharpoonup> ptr) \<Rightarrow> (oid \<rightharpoonup> ptr)) \<Rightarrow> 'z mem_scheme \<Rightarrow> 'z mem_scheme"
    and del :: "ptr \<Rightarrow> ('z mem_scheme, unit) cm"
    and clone :: "ptr \<Rightarrow> ('z mem_scheme, ptr) cm"
    and keep :: "'z mem_scheme \<Rightarrow> 'k"
    and cls :: "'z mem_scheme hclass"
    and cp :: bool +
  fixes upd :: "((ptr \<rightharpoonup> 'b) \<Rightarrow> (ptr \<rightharpoonup> 'b)) \<Rightarrow> 'z mem_scheme \<Rightarrow> 'z mem_scheme"
    and new :: "'n \<Rightarrow> oid \<Rightarrow> ('z mem_scheme, unit) cm"
    and setter :: "'s \<Rightarrow> oid \<Rightarrow> ('z mem_scheme, unit) cm"
    and mk :: "'k \<Rightarrow> 'n \<Rightarrow> fault + 'b option"
    and st :: "'k \<Rightarrow> 's \<Rightarrow> 'b \<Rightarrow> fault + 'b"
  assumes heap_laws: "h (upd (\<lambda>m. m(i := x)) w) = (h w)(i := x)" "h (brk_update f w) = h w"
      "brk (upd k w) = brk w" "cells (upd k w) = cells w" "cells (brk_update f w) = cells w"
      "keep (upd k w) = keep w" "keep (brk_update f w) = keep w"
    and new_idiom: "new n i w = (case mk (keep w) n of Inl e \<Rightarrow> Inl e
      | Inr x \<Rightarrow> idiom_new upd cupd x i w)"
    and setter_null: "cells w i = Some null \<Longrightarrow> setter a i w = Inl (UB NullDeref)"
    and setter_idiom: "cells w i = Some p \<Longrightarrow> h w p = Some b \<Longrightarrow> p \<noteq> null \<Longrightarrow>
      setter a i w = (case st (keep w) a b of Inl e \<Rightarrow> Inl e
        | Inr b' \<Rightarrow> Inr ((), upd (\<lambda>m. m(p \<mapsto> b')) w))"
begin

lemmas frame_laws = object_laws heap_laws

text \<open>A fresh box for object \<open>i\<close>.\<close>

lemma fresh_box:
  assumes "vrel h cells keep F (s, r) w" "cells w i = None \<or> cells w i = Some null"
  shows "\<exists>q w'. box_into_raw upd b w = Inr (q, w') \<and> cells w' = cells w
    \<and> vrel h cells keep F (s(i \<mapsto> Some b), r) (cupd (\<lambda>c. c(i \<mapsto> q)) w')"
  using assms fresh_owned [of w F s r i "upd (\<lambda>h. h(brk w \<mapsto> b)) (w\<lparr>brk := Suc (brk w)\<rparr>)" b]
  by (auto simp: vrel_def box_into_raw_run frame_laws)

lemma vnew_ok:
  assumes "vrel h cells keep F (s, r) w" "cells w i = None"
  shows "case mk F n of Inl e \<Rightarrow> new n i w = Inl e
    | Inr x \<Rightarrow> \<exists>w'. new n i w = Inr ((), w') \<and> vrel h cells keep F (s(i \<mapsto> x), r) w'"
proof -
  have F: "keep w = F" using assms(1) by (simp add: vrel_def)
  have "\<exists>w'. idiom_new upd cupd x i w = Inr ((), w') \<and> vrel h cells keep F (s(i \<mapsto> x), r) w'" for x
  proof (cases x)
    case None
    then show ?thesis using assms owns_null [of "h w" "cells w" s r i]
      by (simp add: idiom_new_def obj_put_run vrel_def own_wf_def frame_laws)
  next
    case (Some b)
    then show ?thesis using fresh_box [OF assms(1), of i b] assms(2)
      by (auto simp: idiom_new_def bnd_run obj_put_run)
  qed
  then show ?thesis by (simp add: new_idiom F split: sum.splits)
qed

lemma vset_ok:
  assumes "vrel h cells keep F (s, r) w" "cells w i = Some p" "h w p = Some b"
  shows "case st F a b of Inl e \<Rightarrow> setter a i w = Inl e
    | Inr b' \<Rightarrow> \<exists>w'. setter a i w = Inr ((), w') \<and> vrel h cells keep F (s(i \<mapsto> Some b'), r) w'"
proof -
  have F: "keep w = F" using assms(1) by (simp add: vrel_def)
  have p: "p \<noteq> null" using assms(3) vrel_null [OF assms(1)] by (cases "p = null") auto
  have "vrel h cells keep F (s(i \<mapsto> Some b'), r) (upd (\<lambda>m. m(p \<mapsto> b')) w)" for b'
    using assms owns_set [of "h w" "cells w" s r i p b'] p
    by (simp add: vrel_def own_wf_def frame_laws heap_ok_store)
  then show ?thesis by (simp add: setter_idiom [OF assms(2,3) p] F split: sum.splits)
qed

text \<open>One operation of the concrete machine simulates one of the abstract machine.\<close>

lemma vstep_refines:
  assumes "vrel h cells keep F t w" "vstep cp (mk F) (st F) t x = Some res"
  shows "case res of Inl e \<Rightarrow> ostep new setter cls x w = Inl e
    | Inr t' \<Rightarrow> \<exists>w'. ostep new setter cls x w = Inr ((), w') \<and> vrel h cells keep F t' w'"
proof -
  obtain s r where t: "t = (s, r)" by (cases t)
  note rel = assms(1) [unfolded t]
  have own: "owns (h w) (cells w) (s, r)" using rel by (simp add: vrel_def)
  note at = owns_at(1) [OF own] ownsD(2) [OF own]
  note sc = assms(2) [unfolded t]
  show ?thesis
  proof (cases x)
    case (VNew i n)
    with sc have "cells w i = None" "res = map_sum id (\<lambda>x. (s(i \<mapsto> x), r)) (mk F n)"
      by (auto simp: at split: if_splits)
    with vnew_ok [OF rel, of i n] VNew show ?thesis by (auto split: sum.splits)
  next
    case (VSet i a)
    with sc obtain p where p: "cells w i = Some p"
      by (cases "cells w i") (auto simp: at)
    show ?thesis
    proof (cases "h w p")
      case None
      then have "p = null" using ownsD(3) [OF own p] by auto
      with None VSet sc p setter_null [of w i a] show ?thesis by (auto simp: at(2))
    next
      case (Some b)
      with vset_ok [OF rel p Some, of a] VSet sc p show ?thesis by (auto simp: at(2) split: sum.splits)
    qed
  next
    case (VOp y)
    then show ?thesis
      using vop_refines [OF assms(1), of "mk F" "st F" y res] assms(2) by (auto split: sum.splits)
  qed
qed

text \<open>A program of the concrete machine simulates the same program of the abstract machine.\<close>

lemma vrun_refines:
  assumes "vrel h cells keep F t w" "vrun cp (mk F) (st F) t xs = Some res"
  shows "case res of Inl e \<Rightarrow> orun new setter cls xs w = Inl e
    | Inr t' \<Rightarrow> \<exists>w'. orun new setter cls xs w = Inr ((), w') \<and> vrel h cells keep F t' w'"
  using assms
proof (induction xs arbitrary: t w)
  case Nil
  then show ?case by auto
next
  case (Cons x xs)
  from Cons.prems(2) obtain res1 where x: "vstep cp (mk F) (st F) t x = Some res1"
    by (cases "vstep cp (mk F) (st F) t x") auto
  show ?case
  proof (cases res1)
    case (Inl e)
    with vstep_refines [OF Cons.prems(1) x] Cons.prems(2) x show ?thesis by (auto simp: sq_run)
  next
    case (Inr t1)
    then obtain w1 where "ostep new setter cls x w = Inr ((), w1)" "vrel h cells keep F t1 w1"
      using vstep_refines [OF Cons.prems(1) x] by auto
    with Cons.IH [of t1 w1] Cons.prems(2) x Inr show ?thesis by (cases res) (auto simp: sq_run)
  qed
qed

end

end
