(* ===== verification/Builders.thy ===== *)
theory Builders
  imports Errors Values "HOL-Library.Signed_Division"
begin

text \<open>
  The classes that carry settings to the Rust side: \<open>RequestBuilder\<close> (include/async\_nats/request.hpp
  with rust/src/request.rs), \<open>TokioRuntimeConfig\<close> and \<open>TokioRuntime\<close> (tokio\_runtime.hpp with
  tokio\_runtime.rs), \<open>ConnectionOptions\<close> (connection.hpp with the config part of connection.rs).
  Each owns one plain box.
\<close>

subsection \<open>State\<close>

text \<open>A \<open>Duration\<close> made by \<open>from_millis\<close> is its number of milliseconds.\<close>

record AsyncNatsRequest =
  rq_inbox :: "bytes option"
  rq_timeout :: "u64 option"
  rq_payload :: "bytes option"

record AsyncNatsTokioRuntimeConfig =
  thread_name :: bytes
  thread_count :: usize

text \<open>A running runtime, by what it was built with.\<close>

record AsyncNatsTokioRuntime =
  rt_threads :: usize
  rt_name :: bytes

text \<open>A \<open>ServerAddr\<close> is the string it prints as.\<close>

record AsyncNatsConnetionParams =
  cp_addrs :: "bytes list"
  cp_name :: "bytes option"

record bw = ew +
  reqs :: "ptr \<rightharpoonup> AsyncNatsRequest"
  rqobjs :: "oid \<rightharpoonup> ptr"
  rtcfgs :: "ptr \<rightharpoonup> AsyncNatsTokioRuntimeConfig"
  rcobjs :: "oid \<rightharpoonup> ptr"
  rts :: "ptr \<rightharpoonup> AsyncNatsTokioRuntime"
  rtobjs :: "oid \<rightharpoonup> ptr"
  cparams :: "ptr \<rightharpoonup> AsyncNatsConnetionParams"
  coobjs :: "oid \<rightharpoonup> ptr"

text \<open>\<open>c_str()\<close> of a \<open>std::string\<close>: its characters and a terminating NUL.\<close>

definition c_str :: "bytes \<Rightarrow> dptr" where
  "c_str s = DStatic (s @ [0])"

subsection \<open>Requests\<close>

definition request_default :: AsyncNatsRequest where
  "request_default = \<lparr>rq_inbox = None, rq_timeout = None, rq_payload = None\<rparr>"

text \<open>
  \<open>build\<close> with the builder methods of \<open>async_nats::Request\<close>, code of that crate: \<open>new\<close>,
  \<open>inbox\<close>, \<open>timeout\<close>, \<open>payload\<close>. It takes the fields it uses. The result and the request left.
\<close>

record 'r request_api =
  api_new :: 'r
  api_inbox :: "bytes \<Rightarrow> 'r \<Rightarrow> 'r"
  api_timeout :: "u64 option \<Rightarrow> 'r \<Rightarrow> 'r"
  api_payload :: "bytes \<Rightarrow> 'r \<Rightarrow> 'r"

definition request_build :: "'r request_api \<Rightarrow> AsyncNatsRequest \<Rightarrow> 'r \<times> AsyncNatsRequest" where
  "request_build api r0 =
     (let req = api_new api;
          (req, r1) = (case rq_inbox r0 of None \<Rightarrow> (req, r0)
                       | Some x \<Rightarrow> (api_inbox api x req, r0\<lparr>rq_inbox := None\<rparr>));
          (req, r2) = (case rq_timeout r1 of None \<Rightarrow> (req, r1)
                       | Some x \<Rightarrow> (api_timeout api (Some x) req, r1\<lparr>rq_timeout := None\<rparr>));
          (req, r3) = (case rq_payload r2 of None \<Rightarrow> (req, r2)
                       | Some x \<Rightarrow> (api_payload api x req, r2\<lparr>rq_payload := None\<rparr>))
      in (req, r3))"

definition async_nats_request_new :: "('z bw_scheme, ptr) cm" where
  "async_nats_request_new = box_into_raw reqs_update request_default"

definition async_nats_request_delete :: "ptr \<Rightarrow> ('z bw_scheme, unit) cm" where
  "async_nats_request_delete req = bnd (box_from_raw reqs reqs_update req) (\<lambda>_. ret ())"

definition async_nats_request_inbox :: "ptr \<Rightarrow> dptr \<Rightarrow> ('z bw_scheme, unit) cm" where
  "async_nats_request_inbox req inbox =
     bnd (deref reqs req) (\<lambda>r.
     bnd (cstr_lossy_convert inbox) (\<lambda>s. store reqs_update req (r\<lparr>rq_inbox := Some s\<rparr>)))"

definition async_nats_request_timeout :: "ptr \<Rightarrow> u64 \<Rightarrow> ('z bw_scheme, unit) cm" where
  "async_nats_request_timeout req timeout =
     bnd (deref reqs req) (\<lambda>r. store reqs_update req (r\<lparr>rq_timeout := Some timeout\<rparr>))"

definition async_nats_request_message :: "ptr \<Rightarrow> dptr \<Rightarrow> u64 \<Rightarrow> ('z bw_scheme, unit) cm" where
  "async_nats_request_message req d n =
     bnd (deref reqs req) (\<lambda>r.
     bnd (from_raw_parts d (unat n)) (\<lambda>b. store reqs_update req (r\<lparr>rq_payload := Some b\<rparr>)))"

text \<open>The class \<open>RequestBuilder\<close>. Its constructor takes no argument.\<close>

definition RequestBuilder_ctor :: "unit \<Rightarrow> oid \<Rightarrow> ('z bw_scheme, unit) cm" where
  "RequestBuilder_ctor _ this = bnd async_nats_request_new (obj_put rqobjs_update this)"

definition RequestBuilder_init :: "oid \<Rightarrow> ptr \<Rightarrow> ('z bw_scheme, unit) cm" where
  "RequestBuilder_init this p = obj_put rqobjs_update this p"

definition RequestBuilder_move_ctor :: "oid \<Rightarrow> oid \<Rightarrow> ('z bw_scheme, unit) cm" where
  "RequestBuilder_move_ctor this other =
     bnd (obj_get rqobjs other) (\<lambda>p.
     sq (obj_put rqobjs_update this p) (obj_put rqobjs_update other null))"

definition RequestBuilder_dtor :: "oid \<Rightarrow> ('z bw_scheme, unit) cm" where
  "RequestBuilder_dtor this =
     bnd (obj_get rqobjs this) (\<lambda>p.
     sq (whenM (p \<noteq> null) (async_nats_request_delete p)) (obj_end rqobjs_update this))"

definition RequestBuilder_move_assign :: "oid \<Rightarrow> oid \<Rightarrow> ('z bw_scheme, unit) cm" where
  "RequestBuilder_move_assign this other =
     (if this = other then ret ()
      else bnd (obj_get rqobjs this) (\<lambda>p.
           sq (whenM (p \<noteq> null) (async_nats_request_delete p))
           (bnd (obj_get rqobjs other) (\<lambda>q.
            sq (obj_put rqobjs_update this q) (obj_put rqobjs_update other null)))))"

definition RequestBuilder_inbox :: "oid \<Rightarrow> dptr \<Rightarrow> ('z bw_scheme, unit) cm" where
  "RequestBuilder_inbox this inbox =
     bnd (obj_get rqobjs this) (\<lambda>p. async_nats_request_inbox p inbox)"

definition RequestBuilder_data :: "oid \<Rightarrow> dptr \<Rightarrow> u64 \<Rightarrow> ('z bw_scheme, unit) cm" where
  "RequestBuilder_data this d n =
     bnd (obj_get rqobjs this) (\<lambda>p. async_nats_request_message p d n)"

text \<open>
  \<open>duration_cast<milliseconds>\<close> of a \<open>steady_clock::duration\<close> (a signed 64-bit count of
  nanoseconds) truncates towards zero; the \<open>static_cast<uint64_t>\<close> is modulo \<open>2 ^ 64\<close>.
\<close>

definition timeout_ms :: "64 word \<Rightarrow> u64" where
  "timeout_ms d = word_of_int (sint d sdiv 1000000)"

definition RequestBuilder_timeout :: "oid \<Rightarrow> 64 word \<Rightarrow> ('z bw_scheme, unit) cm" where
  "RequestBuilder_timeout this d =
     bnd (obj_get rqobjs this) (\<lambda>p. async_nats_request_timeout p (timeout_ms d))"

definition RequestBuilder_release :: "oid \<Rightarrow> ('z bw_scheme, ptr) cm" where
  "RequestBuilder_release this =
     bnd (obj_get rqobjs this) (\<lambda>p. sq (obj_put rqobjs_update this null) (ret p))"

datatype request_set = Inbox dptr | Data dptr u64 | Timeout "64 word"

fun RequestBuilder_set :: "request_set \<Rightarrow> oid \<Rightarrow> ('z bw_scheme, unit) cm" where
  "RequestBuilder_set (Inbox s) this = RequestBuilder_inbox this s"
| "RequestBuilder_set (Data d n) this = RequestBuilder_data this d n"
| "RequestBuilder_set (Timeout d) this = RequestBuilder_timeout this d"

definition RequestBuilder_class :: "'z bw_scheme hclass" where
  "RequestBuilder_class =
     \<lparr>h_adopt = RequestBuilder_init, h_move = RequestBuilder_move_ctor,
      h_move_assign = RequestBuilder_move_assign, h_dtor = RequestBuilder_dtor,
      h_copy = deleted, h_copy_assign = deleted\<rparr>"

subsection \<open>The configuration of the runtime\<close>

text \<open>\<open>ap\<close> is what \<open>std::thread::available_parallelism()\<close> returns, \<open>None\<close> for an error.\<close>

definition runtime_config_default :: "usize option \<Rightarrow> AsyncNatsTokioRuntimeConfig" where
  "runtime_config_default ap =
     \<lparr>thread_name = bs ''tokio_runtime'', thread_count = (case ap of Some x \<Rightarrow> x | None \<Rightarrow> 1)\<rparr>"

definition async_nats_tokio_runtime_config_new :: "usize option \<Rightarrow> ('z bw_scheme, ptr) cm" where
  "async_nats_tokio_runtime_config_new ap = box_into_raw rtcfgs_update (runtime_config_default ap)"

definition async_nats_tokio_runtime_config_delete :: "ptr \<Rightarrow> ('z bw_scheme, unit) cm" where
  "async_nats_tokio_runtime_config_delete cfg =
     bnd (box_from_raw rtcfgs rtcfgs_update cfg) (\<lambda>_. ret ())"

definition async_nats_tokio_runtime_config_thread_name :: "ptr \<Rightarrow> dptr \<Rightarrow> ('z bw_scheme, unit) cm" where
  "async_nats_tokio_runtime_config_thread_name cfg name =
     bnd (deref rtcfgs cfg) (\<lambda>c.
     bnd (cstr_lossy_convert name) (\<lambda>s. store rtcfgs_update cfg (c\<lparr>thread_name := s\<rparr>)))"

definition async_nats_tokio_runtime_config_thread_count :: "ptr \<Rightarrow> u32 \<Rightarrow> ('z bw_scheme, unit) cm" where
  "async_nats_tokio_runtime_config_thread_count cfg n =
     bnd (deref rtcfgs cfg) (\<lambda>c. store rtcfgs_update cfg (c\<lparr>thread_count := ucast n\<rparr>))"

definition TokioRuntimeConfig_ctor :: "usize option \<Rightarrow> oid \<Rightarrow> ('z bw_scheme, unit) cm" where
  "TokioRuntimeConfig_ctor ap this =
     bnd (async_nats_tokio_runtime_config_new ap) (obj_put rcobjs_update this)"

definition TokioRuntimeConfig_init :: "oid \<Rightarrow> ptr \<Rightarrow> ('z bw_scheme, unit) cm" where
  "TokioRuntimeConfig_init this p = obj_put rcobjs_update this p"

definition TokioRuntimeConfig_move_ctor :: "oid \<Rightarrow> oid \<Rightarrow> ('z bw_scheme, unit) cm" where
  "TokioRuntimeConfig_move_ctor this other =
     bnd (obj_get rcobjs other) (\<lambda>p.
     sq (obj_put rcobjs_update this p) (obj_put rcobjs_update other null))"

definition TokioRuntimeConfig_dtor :: "oid \<Rightarrow> ('z bw_scheme, unit) cm" where
  "TokioRuntimeConfig_dtor this =
     bnd (obj_get rcobjs this) (\<lambda>p.
     sq (whenM (p \<noteq> null) (async_nats_tokio_runtime_config_delete p)) (obj_end rcobjs_update this))"

definition TokioRuntimeConfig_move_assign :: "oid \<Rightarrow> oid \<Rightarrow> ('z bw_scheme, unit) cm" where
  "TokioRuntimeConfig_move_assign this other =
     (if this = other then ret ()
      else bnd (obj_get rcobjs this) (\<lambda>p.
           sq (whenM (p \<noteq> null) (async_nats_tokio_runtime_config_delete p))
           (bnd (obj_get rcobjs other) (\<lambda>q.
            sq (obj_put rcobjs_update this q) (obj_put rcobjs_update other null)))))"

definition TokioRuntimeConfig_thread_name :: "oid \<Rightarrow> bytes \<Rightarrow> ('z bw_scheme, unit) cm" where
  "TokioRuntimeConfig_thread_name this tname =
     bnd (obj_get rcobjs this) (\<lambda>p. async_nats_tokio_runtime_config_thread_name p (c_str tname))"

definition TokioRuntimeConfig_thread_count :: "oid \<Rightarrow> u32 \<Rightarrow> ('z bw_scheme, unit) cm" where
  "TokioRuntimeConfig_thread_count this tcount =
     bnd (obj_get rcobjs this) (\<lambda>p. async_nats_tokio_runtime_config_thread_count p tcount)"

datatype runtime_set = ThreadName bytes | ThreadCount u32

fun TokioRuntimeConfig_set :: "runtime_set \<Rightarrow> oid \<Rightarrow> ('z bw_scheme, unit) cm" where
  "TokioRuntimeConfig_set (ThreadName n) this = TokioRuntimeConfig_thread_name this n"
| "TokioRuntimeConfig_set (ThreadCount n) this = TokioRuntimeConfig_thread_count this n"

definition TokioRuntimeConfig_class :: "'z bw_scheme hclass" where
  "TokioRuntimeConfig_class =
     \<lparr>h_adopt = TokioRuntimeConfig_init, h_move = TokioRuntimeConfig_move_ctor,
      h_move_assign = TokioRuntimeConfig_move_assign, h_dtor = TokioRuntimeConfig_dtor,
      h_copy = deleted, h_copy_assign = deleted\<rparr>"

subsection \<open>The runtime\<close>

text \<open>
  \<open>tokio n name\<close> is the builder chain of tokio with \<open>n\<close> worker threads and that thread name: a
  panic of a builder method with its message, or whether \<open>build()\<close> succeeds.
\<close>

type_synonym tokio_builder = "usize \<Rightarrow> bytes \<Rightarrow> string + bool"

definition runtime_new :: "tokio_builder \<Rightarrow> AsyncNatsTokioRuntimeConfig \<Rightarrow> fault + AsyncNatsTokioRuntime" where
  "runtime_new tokio cfg =
     (case tokio (thread_count cfg) (thread_name cfg) of
        Inl msg \<Rightarrow> Inl (Panic msg)
      | Inr ok \<Rightarrow> if ok then Inr \<lparr>rt_threads = thread_count cfg, rt_name = thread_name cfg\<rparr>
                 else Inl (Panic ''Unable to create tokio runtime''))"

definition async_nats_tokio_runtime_new :: "tokio_builder \<Rightarrow> ptr \<Rightarrow> ('z bw_scheme, ptr) cm" where
  "async_nats_tokio_runtime_new tokio cfg =
     bnd (deref rtcfgs cfg) (\<lambda>c.
     case runtime_new tokio c of Inl e \<Rightarrow> fail e | Inr rt \<Rightarrow> box_into_raw rts_update rt)"

definition async_nats_tokio_runtime_delete :: "ptr \<Rightarrow> ('z bw_scheme, unit) cm" where
  "async_nats_tokio_runtime_delete rt = bnd (box_from_raw rts rts_update rt) (\<lambda>_. ret ())"

definition TokioRuntime_ctor :: "tokio_builder \<Rightarrow> oid \<Rightarrow> oid \<Rightarrow> ('z bw_scheme, unit) cm" where
  "TokioRuntime_ctor tokio cfg this =
     bnd (obj_get rcobjs cfg) (\<lambda>c.
     bnd (async_nats_tokio_runtime_new tokio c) (obj_put rtobjs_update this))"

definition TokioRuntime_init :: "oid \<Rightarrow> ptr \<Rightarrow> ('z bw_scheme, unit) cm" where
  "TokioRuntime_init this p = obj_put rtobjs_update this p"

definition TokioRuntime_move_ctor :: "oid \<Rightarrow> oid \<Rightarrow> ('z bw_scheme, unit) cm" where
  "TokioRuntime_move_ctor this other =
     bnd (obj_get rtobjs other) (\<lambda>p.
     sq (obj_put rtobjs_update this p) (obj_put rtobjs_update other null))"

definition TokioRuntime_dtor :: "oid \<Rightarrow> ('z bw_scheme, unit) cm" where
  "TokioRuntime_dtor this =
     bnd (obj_get rtobjs this) (\<lambda>p.
     sq (whenM (p \<noteq> null) (async_nats_tokio_runtime_delete p)) (obj_end rtobjs_update this))"

definition TokioRuntime_move_assign :: "oid \<Rightarrow> oid \<Rightarrow> ('z bw_scheme, unit) cm" where
  "TokioRuntime_move_assign this other =
     (if this = other then ret ()
      else bnd (obj_get rtobjs this) (\<lambda>p.
           sq (whenM (p \<noteq> null) (async_nats_tokio_runtime_delete p))
           (bnd (obj_get rtobjs other) (\<lambda>q.
            sq (obj_put rtobjs_update this q) (obj_put rtobjs_update other null)))))"

definition TokioRuntime_bool :: "oid \<Rightarrow> ('z bw_scheme, bool) cm" where
  "TokioRuntime_bool this = bnd (obj_get rtobjs this) (\<lambda>p. ret (p \<noteq> null))"

definition TokioRuntime_class :: "'z bw_scheme hclass" where
  "TokioRuntime_class =
     \<lparr>h_adopt = TokioRuntime_init, h_move = TokioRuntime_move_ctor,
      h_move_assign = TokioRuntime_move_assign, h_dtor = TokioRuntime_dtor,
      h_copy = deleted, h_copy_assign = deleted\<rparr>"

subsection \<open>The options of a connection\<close>

definition params_default :: AsyncNatsConnetionParams where
  "params_default = \<lparr>cp_addrs = [], cp_name = None\<rparr>"

definition async_nats_connection_config_new :: "('z bw_scheme, ptr) cm" where
  "async_nats_connection_config_new = box_into_raw cparams_update params_default"

definition async_nats_connection_config_delete :: "ptr \<Rightarrow> ('z bw_scheme, unit) cm" where
  "async_nats_connection_config_delete cfg = bnd (box_from_raw cparams cparams_update cfg) (\<lambda>_. ret ())"

definition async_nats_connection_config_name :: "ptr \<Rightarrow> dptr \<Rightarrow> ('z bw_scheme, unit) cm" where
  "async_nats_connection_config_name cfg name =
     bnd (deref cparams cfg) (\<lambda>c.
     bnd (cstr_lossy_convert name) (\<lambda>s. store cparams_update cfg (c\<lparr>cp_name := Some s\<rparr>)))"

text \<open>\<open>parse\<close> is the parser of \<open>ServerAddr\<close>, code of the async\_nats crate.\<close>

definition async_nats_connection_config_addr ::
    "(bytes \<Rightarrow> bytes option) \<Rightarrow> ptr \<Rightarrow> dptr \<Rightarrow> ('z bw_scheme, unit) cm" where
  "async_nats_connection_config_addr parse cfg addr =
     bnd (deref cparams cfg) (\<lambda>c.
     bnd (cstr_lossy_convert addr) (\<lambda>s.
     bnd (expect (parse s) ''Unable to parse address'') (\<lambda>a.
     store cparams_update cfg (c\<lparr>cp_addrs := cp_addrs c @ [a]\<rparr>))))"

definition ConnectionOptions_ctor :: "unit \<Rightarrow> oid \<Rightarrow> ('z bw_scheme, unit) cm" where
  "ConnectionOptions_ctor _ this = bnd async_nats_connection_config_new (obj_put coobjs_update this)"

definition ConnectionOptions_init :: "oid \<Rightarrow> ptr \<Rightarrow> ('z bw_scheme, unit) cm" where
  "ConnectionOptions_init this p = obj_put coobjs_update this p"

definition ConnectionOptions_move_ctor :: "oid \<Rightarrow> oid \<Rightarrow> ('z bw_scheme, unit) cm" where
  "ConnectionOptions_move_ctor this other =
     bnd (obj_get coobjs other) (\<lambda>p.
     sq (obj_put coobjs_update this p) (obj_put coobjs_update other null))"

definition ConnectionOptions_dtor :: "oid \<Rightarrow> ('z bw_scheme, unit) cm" where
  "ConnectionOptions_dtor this =
     bnd (obj_get coobjs this) (\<lambda>p.
     sq (whenM (p \<noteq> null) (async_nats_connection_config_delete p)) (obj_end coobjs_update this))"

definition ConnectionOptions_move_assign :: "oid \<Rightarrow> oid \<Rightarrow> ('z bw_scheme, unit) cm" where
  "ConnectionOptions_move_assign this other =
     (if this = other then ret ()
      else bnd (obj_get coobjs this) (\<lambda>p.
           sq (whenM (p \<noteq> null) (async_nats_connection_config_delete p))
           (bnd (obj_get coobjs other) (\<lambda>q.
            sq (obj_put coobjs_update this q) (obj_put coobjs_update other null)))))"

definition ConnectionOptions_name :: "oid \<Rightarrow> bytes \<Rightarrow> ('z bw_scheme, unit) cm" where
  "ConnectionOptions_name this nm =
     bnd (obj_get coobjs this) (\<lambda>p. async_nats_connection_config_name p (c_str nm))"

definition ConnectionOptions_address :: "(bytes \<Rightarrow> bytes option) \<Rightarrow> oid \<Rightarrow> bytes \<Rightarrow> ('z bw_scheme, unit) cm" where
  "ConnectionOptions_address parse this addr =
     bnd (obj_get coobjs this) (\<lambda>p. async_nats_connection_config_addr parse p (c_str addr))"

datatype options_set = OptName bytes | OptAddress bytes

fun ConnectionOptions_set :: "(bytes \<Rightarrow> bytes option) \<Rightarrow> options_set \<Rightarrow> oid \<Rightarrow> ('z bw_scheme, unit) cm" where
  "ConnectionOptions_set parse (OptName n) this = ConnectionOptions_name this n"
| "ConnectionOptions_set parse (OptAddress a) this = ConnectionOptions_address parse this a"

definition ConnectionOptions_class :: "'z bw_scheme hclass" where
  "ConnectionOptions_class =
     \<lparr>h_adopt = ConnectionOptions_init, h_move = ConnectionOptions_move_ctor,
      h_move_assign = ConnectionOptions_move_assign, h_dtor = ConnectionOptions_dtor,
      h_copy = deleted, h_copy_assign = deleted\<rparr>"

subsection \<open>The classes as owners of values\<close>

text \<open>
  What a class leaves alone is the world without its boxes and objects. What the setters do to a
  value, given that part of the world.
\<close>

lemma mem_at_bw [simp]:
  "mem_at (w\<lparr>brk := b\<rparr>) d = mem_at w d"
  "mem_at (v\<lparr>reqs := x\<rparr>) d = mem_at v d" "mem_at (v\<lparr>rqobjs := y\<rparr>) d = mem_at v d"
  "mem_at (v\<lparr>rtcfgs := x2\<rparr>) d = mem_at v d" "mem_at (v\<lparr>rcobjs := y\<rparr>) d = mem_at v d"
  "mem_at (v\<lparr>cparams := x3\<rparr>) d = mem_at v d" "mem_at (v\<lparr>coobjs := y\<rparr>) d = mem_at v d"
  by (cases d; simp)+

definition request_keep :: "'z bw_scheme \<Rightarrow> 'z bw_scheme" where
  "request_keep w = w\<lparr>brk := 0, reqs := Map.empty, rqobjs := Map.empty\<rparr>"

fun request_st :: "'z bw_scheme \<Rightarrow> request_set \<Rightarrow> AsyncNatsRequest \<Rightarrow> fault + AsyncNatsRequest" where
  "request_st F (Inbox s) r = map_sum id (\<lambda>(t, _). r\<lparr>rq_inbox := Some t\<rparr>) (cstr_lossy_convert s F)"
| "request_st F (Data d n) r = map_sum id (\<lambda>(b, _). r\<lparr>rq_payload := Some b\<rparr>) (from_raw_parts d (unat n) F)"
| "request_st F (Timeout d) r = Inr (r\<lparr>rq_timeout := Some (timeout_ms d)\<rparr>)"

definition config_keep :: "'z bw_scheme \<Rightarrow> 'z bw_scheme" where
  "config_keep w = w\<lparr>brk := 0, rtcfgs := Map.empty, rcobjs := Map.empty\<rparr>"

text \<open>What the Rust side makes of a \<open>std::string\<close> passed by \<open>c_str()\<close>.\<close>

definition through_c_str :: "bytes \<Rightarrow> bytes" where
  "through_c_str s = from_utf8_lossy (takeWhile (\<lambda>c. c \<noteq> 0) s)"

lemma c_str_convert: "cstr_lossy_convert (c_str s) w = Inr (through_c_str s, w)"
proof -
  have "takeWhile (\<lambda>c. c \<noteq> 0) (s @ [0]) = takeWhile (\<lambda>c. c \<noteq> 0) s"
    by (induction s) auto
  then show ?thesis by (simp add: cstr_lossy_convert_def c_str_def through_c_str_def cm_simps)
qed

fun config_st :: "runtime_set \<Rightarrow> AsyncNatsTokioRuntimeConfig \<Rightarrow> fault + AsyncNatsTokioRuntimeConfig" where
  "config_st (ThreadName n) c = Inr (c\<lparr>thread_name := through_c_str n\<rparr>)"
| "config_st (ThreadCount n) c = Inr (c\<lparr>thread_count := ucast n\<rparr>)"

definition runtime_keep :: "'z bw_scheme \<Rightarrow> 'z bw_scheme" where
  "runtime_keep w = w\<lparr>brk := 0, rts := Map.empty, rtobjs := Map.empty\<rparr>"

text \<open>The constructor of a runtime reads its configuration object.\<close>

definition runtime_mk :: "tokio_builder \<Rightarrow> 'z bw_scheme \<Rightarrow> oid \<Rightarrow> fault + AsyncNatsTokioRuntime option" where
  "runtime_mk tokio F cfg =
     (case rcobjs F cfg of None \<Rightarrow> Inl (UB DeadObject)
      | Some c \<Rightarrow> if c = null then Inl (UB NullDeref)
        else (case rtcfgs F c of None \<Rightarrow> Inl (UB UseAfterFree)
              | Some x \<Rightarrow> map_sum id Some (runtime_new tokio x)))"

definition options_keep :: "'z bw_scheme \<Rightarrow> 'z bw_scheme" where
  "options_keep w = w\<lparr>brk := 0, cparams := Map.empty, coobjs := Map.empty\<rparr>"

fun options_st :: "(bytes \<Rightarrow> bytes option) \<Rightarrow> options_set \<Rightarrow> AsyncNatsConnetionParams
    \<Rightarrow> fault + AsyncNatsConnetionParams" where
  "options_st parse (OptName n) c = Inr (c\<lparr>cp_name := Some (through_c_str n)\<rparr>)"
| "options_st parse (OptAddress a) c =
     (case parse (through_c_str a) of None \<Rightarrow> Inl (Panic ''Unable to parse address'')
      | Some x \<Rightarrow> Inr (c\<lparr>cp_addrs := cp_addrs c @ [x]\<rparr>))"

text \<open>The laws of the setters and of the constructors.\<close>

lemma request_setter:
  "rqobjs w i = Some null \<Longrightarrow> RequestBuilder_set a i w = Inl (UB NullDeref)"
  "rqobjs w i = Some p \<Longrightarrow> reqs w p = Some b \<Longrightarrow> p \<noteq> null \<Longrightarrow> RequestBuilder_set a i w =
    (case request_st (request_keep w) a b of Inl e \<Rightarrow> Inl e
     | Inr b' \<Rightarrow> Inr ((), reqs_update (\<lambda>m. m(p \<mapsto> b')) w))"
  by (cases a; simp add: RequestBuilder_inbox_def RequestBuilder_data_def RequestBuilder_timeout_def
      async_nats_request_inbox_def async_nats_request_message_def async_nats_request_timeout_def
      request_keep_def cstr_lossy_convert_def cm_simps split: sum.splits)+

lemma config_setter:
  "rcobjs w i = Some null \<Longrightarrow> TokioRuntimeConfig_set a i w = Inl (UB NullDeref)"
  "rcobjs w i = Some p \<Longrightarrow> rtcfgs w p = Some b \<Longrightarrow> p \<noteq> null \<Longrightarrow> TokioRuntimeConfig_set a i w =
    (case config_st a b of Inl e \<Rightarrow> Inl e
     | Inr b' \<Rightarrow> Inr ((), rtcfgs_update (\<lambda>m. m(p \<mapsto> b')) w))"
  by (cases a; simp add: TokioRuntimeConfig_thread_name_def TokioRuntimeConfig_thread_count_def
      async_nats_tokio_runtime_config_thread_name_def async_nats_tokio_runtime_config_thread_count_def
      c_str_convert cm_simps)+

lemma options_setter:
  "coobjs w i = Some null \<Longrightarrow> ConnectionOptions_set parse a i w = Inl (UB NullDeref)"
  "coobjs w i = Some p \<Longrightarrow> cparams w p = Some b \<Longrightarrow> p \<noteq> null \<Longrightarrow> ConnectionOptions_set parse a i w =
    (case options_st parse a b of Inl e \<Rightarrow> Inl e
     | Inr b' \<Rightarrow> Inr ((), cparams_update (\<lambda>m. m(p \<mapsto> b')) w))"
  by (cases a; simp add: ConnectionOptions_name_def ConnectionOptions_address_def
      async_nats_connection_config_name_def async_nats_connection_config_addr_def
      c_str_convert cm_simps split: option.splits)+

lemma runtime_ctor:
  "TokioRuntime_ctor tokio cfg i w = (case runtime_mk tokio (runtime_keep w) cfg of Inl e \<Rightarrow> Inl e
     | Inr x \<Rightarrow> idiom_new rts_update rtobjs_update x i w)"
  by (simp add: TokioRuntime_ctor_def async_nats_tokio_runtime_new_def runtime_mk_def runtime_keep_def
      idiom_new_def cm_simps split: option.splits sum.splits)

text \<open>
  A runtime has no setter. What its users do with \<open>get_raw()\<close> is to take a reference to the
  runtime, the first step of \<open>async_nats_connection_connect\<close>.
\<close>

definition TokioRuntime_use :: "unit \<Rightarrow> oid \<Rightarrow> ('z bw_scheme, unit) cm" where
  "TokioRuntime_use _ this = bnd (obj_get rtobjs this) (\<lambda>rt. bnd (deref rts rt) (\<lambda>_. ret ()))"

lemma runtime_user:
  "rtobjs w i = Some null \<Longrightarrow> TokioRuntime_use a i w = Inl (UB NullDeref)"
  "rtobjs w i = Some p \<Longrightarrow> rts w p = Some b \<Longrightarrow> p \<noteq> null \<Longrightarrow>
    TokioRuntime_use a i w = Inr ((), rts_update (\<lambda>m. m(p \<mapsto> b)) w)"
  by (simp add: TokioRuntime_use_def cm_simps, cases w)
    (simp add: TokioRuntime_use_def cm_simps fun_upd_idem)

lemmas RequestBuilder_defs = RequestBuilder_ctor_def RequestBuilder_init_def RequestBuilder_move_ctor_def
  RequestBuilder_dtor_def RequestBuilder_move_assign_def RequestBuilder_class_def
  async_nats_request_new_def async_nats_request_delete_def

lemmas TokioRuntimeConfig_defs = TokioRuntimeConfig_ctor_def TokioRuntimeConfig_init_def
  TokioRuntimeConfig_move_ctor_def TokioRuntimeConfig_dtor_def TokioRuntimeConfig_move_assign_def
  TokioRuntimeConfig_class_def async_nats_tokio_runtime_config_new_def
  async_nats_tokio_runtime_config_delete_def

lemmas TokioRuntime_defs = TokioRuntime_init_def TokioRuntime_move_ctor_def TokioRuntime_dtor_def
  TokioRuntime_move_assign_def TokioRuntime_class_def async_nats_tokio_runtime_delete_def

lemmas ConnectionOptions_defs = ConnectionOptions_ctor_def ConnectionOptions_init_def
  ConnectionOptions_move_ctor_def ConnectionOptions_dtor_def ConnectionOptions_move_assign_def
  ConnectionOptions_class_def async_nats_connection_config_new_def
  async_nats_connection_config_delete_def

interpretation rq: value_class reqs rqobjs rqobjs_update async_nats_request_delete
  "\<lambda>_. ret null" request_keep RequestBuilder_class False reqs_update RequestBuilder_ctor RequestBuilder_set
  "\<lambda>_ _. Inr (Some request_default)" request_st
  by unfold_locales
    ((rule request_setter; assumption) |
     (simp add: request_keep_def RequestBuilder_defs idiom_defs idiom_new_def cm_simps; fail))+

interpretation rc: value_class rtcfgs rcobjs rcobjs_update
  async_nats_tokio_runtime_config_delete "\<lambda>_. ret null" config_keep TokioRuntimeConfig_class False
  rtcfgs_update TokioRuntimeConfig_ctor TokioRuntimeConfig_set
  "\<lambda>_ ap. Inr (Some (runtime_config_default ap))" "\<lambda>_. config_st"
  by unfold_locales
    ((rule config_setter; assumption) |
     (simp add: config_keep_def TokioRuntimeConfig_defs idiom_defs idiom_new_def cm_simps; fail))+

interpretation rt: value_class rts rtobjs rtobjs_update async_nats_tokio_runtime_delete
  "\<lambda>_. ret null" runtime_keep TokioRuntime_class False rts_update "TokioRuntime_ctor tokio" TokioRuntime_use
  "runtime_mk tokio" "\<lambda>_ _ b. Inr b" for tokio
  by unfold_locales
    ((rule runtime_ctor) | (simp add: runtime_user; fail) |
     (simp add: runtime_keep_def TokioRuntime_defs idiom_defs cm_simps; fail))+

interpretation co: value_class cparams coobjs coobjs_update
  async_nats_connection_config_delete "\<lambda>_. ret null" options_keep ConnectionOptions_class False
  cparams_update ConnectionOptions_ctor "ConnectionOptions_set parse"
  "\<lambda>_ _. Inr (Some params_default)" "\<lambda>_. options_st parse" for parse
  by unfold_locales
    ((rule options_setter; assumption) |
     (simp add: options_keep_def ConnectionOptions_defs idiom_defs idiom_new_def cm_simps; fail))+

subsection \<open>Properties\<close>

definition ex_bw :: bw where
  "ex_bw = ew.extend ex_ew \<lparr>reqs = Map.empty, rqobjs = Map.empty, rtcfgs = Map.empty, rcobjs = Map.empty,
     rts = Map.empty, rtobjs = Map.empty, cparams = Map.empty, coobjs = Map.empty\<rparr>
     \<lparr>brk := 5, cbuf := [4 \<mapsto> bs ''reply'' @ [0]]\<rparr>"

lemma ex_bw_simps [simp]:
  "brk ex_bw = 5" "cbuf ex_bw = [4 \<mapsto> bs ''reply'' @ [0]]" "reqs ex_bw = Map.empty" "rqobjs ex_bw = Map.empty"
  "rtcfgs ex_bw = Map.empty" "rcobjs ex_bw = Map.empty" "rts ex_bw = Map.empty" "rtobjs ex_bw = Map.empty"
  "cparams ex_bw = Map.empty" "coobjs ex_bw = Map.empty"
  by (simp_all add: ex_bw_def ex_ew_def ex_hw_def ex_world_def ew.defs hw.defs mw.defs)

lemma owns_empty [simp]: "owns Map.empty Map.empty (Map.empty, Map.empty)"
  by (simp add: owns_def)

lemma ex_bw_start:
  "vrel reqs rqobjs request_keep (request_keep ex_bw) (Map.empty, Map.empty) ex_bw"
  "vrel rtcfgs rcobjs config_keep (config_keep ex_bw) (Map.empty, Map.empty) ex_bw"
  "vrel cparams coobjs options_keep (options_keep ex_bw) (Map.empty, Map.empty) ex_bw"
  by (simp_all add: vrel_def own_wf_def heap_ok_empty)

text \<open>
  C27: a program over \<open>RequestBuilder\<close> objects (constructions, \<open>inbox\<close>, \<open>data\<close> and
  \<open>timeout\<close>, moves, assignments, destructions) does exactly what the machine of request values
  does: it faults where that does (a null buffer, a moved-from builder), and otherwise every object
  has the value the machine says, nothing outside the class changes, and when no object is left no
  box is.
\<close>

theorem request_builder_refines:
  assumes "vrel reqs rqobjs request_keep F t w"
    and "vrun False (\<lambda>_. Inr (Some request_default)) (request_st F) t xs = Some res"
  shows "case res of
      Inl e \<Rightarrow> orun RequestBuilder_ctor RequestBuilder_set RequestBuilder_class xs w = Inl e
    | Inr t' \<Rightarrow> \<exists>w'. orun RequestBuilder_ctor RequestBuilder_set RequestBuilder_class xs w = Inr ((), w')
        \<and> vrel reqs rqobjs request_keep F t' w' \<and> (t' = (Map.empty, Map.empty) \<longrightarrow> reqs w' = Map.empty)"
  using rq.vrun_refines [OF assms] owns_no_leak by (fastforce simp: vrel_def split: sum.splits)

theorem request_builder_refines_witness:
  "\<exists>w'. orun RequestBuilder_ctor RequestBuilder_set RequestBuilder_class
      [VNew 0 (), VSet 0 (Inbox (DBuf 4)), VSet 0 (Timeout 7000000), VOp (HMove 1 0), VOp (HDestroy 0),
       VOp (HDestroy 1)] ex_bw = Inr ((), w') \<and> reqs w' = Map.empty
    \<and> orun RequestBuilder_ctor RequestBuilder_set RequestBuilder_class
      [VNew 0 (), VOp (HMove 1 0), VSet 0 (Timeout 7000000)] ex_bw = Inl (UB NullDeref)"
  using request_builder_refines [OF ex_bw_start(1), of "[VNew 0 (), VSet 0 (Inbox (DBuf 4)),
       VSet 0 (Timeout 7000000), VOp (HMove 1 0), VOp (HDestroy 0), VOp (HDestroy 1)]"
       "Inr (Map.empty, Map.empty)"]
    request_builder_refines [OF ex_bw_start(1), of "[VNew 0 (), VOp (HMove 1 0), VSet 0 (Timeout 7000000)]"
       "Inl (UB NullDeref)"]
  by (auto simp: request_keep_def cstr_lossy_convert_def cm_simps fun_eq_iff)

text \<open>
  The same of the programs over \<open>ConnectionOptions\<close> objects; the addresses are kept in the
  order in which they were given, and an address that does not parse is a panic.
\<close>

theorem connection_options_refines:
  assumes "vrel cparams coobjs options_keep F t w"
    and "vrun False (\<lambda>_. Inr (Some params_default)) (options_st parse) t xs = Some res"
  shows "case res of
      Inl e \<Rightarrow> orun ConnectionOptions_ctor (ConnectionOptions_set parse) ConnectionOptions_class xs w = Inl e
    | Inr t' \<Rightarrow> \<exists>w'. orun ConnectionOptions_ctor (ConnectionOptions_set parse) ConnectionOptions_class xs w
          = Inr ((), w')
        \<and> vrel cparams coobjs options_keep F t' w' \<and> (t' = (Map.empty, Map.empty) \<longrightarrow> cparams w' = Map.empty)"
  using co.vrun_refines [OF assms] owns_no_leak by (fastforce simp: vrel_def split: sum.splits)

theorem connection_options_refines_witness:
  "orun ConnectionOptions_ctor (ConnectionOptions_set (\<lambda>_. None)) ConnectionOptions_class
      [VNew 0 (), VSet 0 (OptName (bs ''me'')), VSet 0 (OptAddress (bs ''?''))] ex_bw
    = Inl (Panic ''Unable to parse address'')
   \<and> (\<exists>w'. orun ConnectionOptions_ctor (ConnectionOptions_set Some) ConnectionOptions_class
      [VNew 0 (), VSet 0 (OptAddress (bs ''a'')), VOp (HDestroy 0)] ex_bw = Inr ((), w')
      \<and> cparams w' = Map.empty)"
  using connection_options_refines [OF ex_bw_start(3), of "\<lambda>_. None"
      "[VNew 0 (), VSet 0 (OptName (bs ''me'')), VSet 0 (OptAddress (bs ''?''))]"
      "Inl (Panic ''Unable to parse address'')"]
    connection_options_refines [OF ex_bw_start(3), of Some
      "[VNew 0 (), VSet 0 (OptAddress (bs ''a'')), VOp (HDestroy 0)]" "Inr (Map.empty, Map.empty)"]
  by auto

text \<open>
  The same of the programs over \<open>TokioRuntimeConfig\<close> objects and, given the configuration
  objects, over \<open>TokioRuntime\<close> objects: a runtime is built with the thread count and name its
  configuration has at that moment, and using a moved-from runtime dereferences null.
\<close>

theorem tokio_runtime_refines:
  assumes "vrel rtcfgs rcobjs config_keep F t w"
    and "vrun False (\<lambda>ap. Inr (Some (runtime_config_default ap))) config_st t xs = Some (Inr t')"
    and "vrel rts rtobjs runtime_keep G u v"
    and "vrun False (runtime_mk tokio G) (\<lambda>_ b. Inr b) u ys = Some res"
  shows "(\<exists>w'. orun TokioRuntimeConfig_ctor TokioRuntimeConfig_set TokioRuntimeConfig_class xs w
        = Inr ((), w') \<and> vrel rtcfgs rcobjs config_keep F t' w')
    \<and> (case res of
        Inl e \<Rightarrow> orun (TokioRuntime_ctor tokio) TokioRuntime_use TokioRuntime_class ys v = Inl e
      | Inr u' \<Rightarrow> \<exists>v'. orun (TokioRuntime_ctor tokio) TokioRuntime_use TokioRuntime_class ys v = Inr ((), v')
          \<and> vrel rts rtobjs runtime_keep G u' v')"
  using rc.vrun_refines [OF assms(1,2)] rt.vrun_refines [OF assms(3,4)] by simp

definition ex_rt_world :: bw where
  "ex_rt_world = ex_bw\<lparr>rtcfgs := [3 \<mapsto> runtime_config_default None], rcobjs := [0 \<mapsto> 3]\<rparr>"

theorem tokio_runtime_refines_witness:
  "(\<exists>w'. orun TokioRuntimeConfig_ctor TokioRuntimeConfig_set TokioRuntimeConfig_class
      [VNew 0 None, VSet 0 (ThreadCount 2)] ex_bw = Inr ((), w'))
   \<and> orun (TokioRuntime_ctor (\<lambda>_ _. Inr True)) TokioRuntime_use TokioRuntime_class
      [VNew 5 0, VOp (HMove 6 5), VSet 6 (), VSet 5 ()] ex_rt_world = Inl (UB NullDeref)"
proof -
  have "vrel rts rtobjs runtime_keep (runtime_keep ex_rt_world) (Map.empty, Map.empty) ex_rt_world"
    by (simp add: vrel_def own_wf_def heap_ok_empty ex_rt_world_def)
  from tokio_runtime_refines [OF ex_bw_start(2) _ this, of "[VNew 0 None, VSet 0 (ThreadCount 2)]"
      "([0 \<mapsto> Some \<lparr>thread_name = bs ''tokio_runtime'', thread_count = 2\<rparr>], Map.empty)" "\<lambda>_ _. Inr True"
      "[VNew 5 0, VOp (HMove 6 5), VSet 6 (), VSet 5 ()]" "Inl (UB NullDeref)"]
  show ?thesis
    by (auto simp: runtime_config_default_def runtime_mk_def runtime_keep_def ex_rt_world_def
        runtime_new_def)
qed

text \<open>The last value among a list of optional ones, and what a setter call gives a field.\<close>

fun last_some :: "'a option list \<Rightarrow> 'a option" where
  "last_some [] = None"
| "last_some (x # xs) = (case last_some xs of None \<Rightarrow> x | Some y \<Rightarrow> Some y)"

fun set_inbox :: "'z bw_scheme \<Rightarrow> request_set \<Rightarrow> bytes option" where
  "set_inbox F (Inbox s) = (case cstr_lossy_convert s F of Inl _ \<Rightarrow> None | Inr (t, _) \<Rightarrow> Some t)"
| "set_inbox F _ = None"

fun set_payload :: "'z bw_scheme \<Rightarrow> request_set \<Rightarrow> bytes option" where
  "set_payload F (Data d n) = (case from_raw_parts d (unat n) F of Inl _ \<Rightarrow> None | Inr (b, _) \<Rightarrow> Some b)"
| "set_payload F _ = None"

fun set_timeout :: "request_set \<Rightarrow> u64 option" where
  "set_timeout (Timeout d) = Some (timeout_ms d)"
| "set_timeout _ = None"

fun request_sets :: "'z bw_scheme \<Rightarrow> request_set list \<Rightarrow> AsyncNatsRequest \<Rightarrow> fault + AsyncNatsRequest" where
  "request_sets F [] r = Inr r"
| "request_sets F (a # as) r = (case request_st F a r of Inl e \<Rightarrow> Inl e | Inr r' \<Rightarrow> request_sets F as r')"

definition with_opt :: "('a \<Rightarrow> 'r \<Rightarrow> 'r) \<Rightarrow> 'a option \<Rightarrow> 'r \<Rightarrow> 'r" where
  "with_opt f x r = (case x of None \<Rightarrow> r | Some a \<Rightarrow> f a r)"

lemma map_sum_InrE:
  assumes "map_sum id f x = Inr y"
  obtains a where "x = Inr a" "y = f a"
  using assms by (cases x) auto

lemma request_st_fields:
  assumes "request_st F a r = Inr r1"
  shows "rq_inbox r1 = (case set_inbox F a of None \<Rightarrow> rq_inbox r | x \<Rightarrow> x)"
    "rq_timeout r1 = (case set_timeout a of None \<Rightarrow> rq_timeout r | x \<Rightarrow> x)"
    "rq_payload r1 = (case set_payload F a of None \<Rightarrow> rq_payload r | x \<Rightarrow> x)"
  using assms by (cases "(F, a, r)" rule: request_st.cases; force elim!: map_sum_InrE)+

lemma request_sets_fields:
  assumes "request_sets F as r = Inr r'"
  shows "rq_inbox r' = (case last_some (map (set_inbox F) as) of None \<Rightarrow> rq_inbox r | x \<Rightarrow> x)"
    "rq_timeout r' = (case last_some (map set_timeout as) of None \<Rightarrow> rq_timeout r | x \<Rightarrow> x)"
    "rq_payload r' = (case last_some (map (set_payload F) as) of None \<Rightarrow> rq_payload r | x \<Rightarrow> x)"
proof (atomize (full), use assms in \<open>induction as arbitrary: r\<close>)
  case Nil
  then show ?case by simp
next
  case (Cons a as)
  from Cons.prems obtain r1 where r1: "request_st F a r = Inr r1" "request_sets F as r1 = Inr r'"
    by (cases "request_st F a r") auto
  then show ?case
    using Cons.IH [OF r1(2)] request_st_fields [OF r1(1)] by (auto split: option.splits)
qed

lemma request_build_run:
  "request_build api r = (with_opt (api_payload api) (rq_payload r)
     (with_opt (\<lambda>x. api_timeout api (Some x)) (rq_timeout r)
     (with_opt (api_inbox api) (rq_inbox r) (api_new api))), request_default)"
  by (cases r) (auto simp: request_build_def with_opt_def request_default_def Let_def split: option.splits)

lemma vrun_sets:
  assumes "request_sets F as r0 = Inr r1" "s i = Some (Some r0)"
  shows "vrun False (\<lambda>_ :: unit. Inr (Some request_default)) (request_st F) (s, t) (map (VSet i) as)
    = Some (Inr (s(i \<mapsto> Some r1), t))"
  using assms
proof (induction as arbitrary: s r0)
  case Nil
  then show ?case by (simp add: fun_upd_idem)
next
  case (Cons a as)
  from Cons.prems obtain r2 where r2: "request_st F a r0 = Inr r2" "request_sets F as r2 = Inr r1"
    by (cases "request_st F a r0") auto
  have "vrun False (\<lambda>_ :: unit. Inr (Some request_default)) (request_st F) (s(i \<mapsto> Some r2), t) (map (VSet i) as)
      = Some (Inr (s(i \<mapsto> Some r1), t))"
  proof -
    have "vrun False (\<lambda>_ :: unit. Inr (Some request_default)) (request_st F) (s(i \<mapsto> Some r2), t)
        (map (VSet i) as) = Some (Inr (s(i \<mapsto> Some r2, i \<mapsto> Some r1), t))"
      by (rule Cons.IH [OF r2(2)]) simp
    then show ?thesis by (simp only: fun_upd_upd)
  qed
  with Cons.prems(2) r2(1) show ?case by (simp add: fun_eq_iff)
qed

text \<open>
  C29: a builder that has been given any sequence of settings (in readable buffers) and is released
  hands over a box whose \<open>build()\<close> applies, in the order inbox, timeout, payload, the last value
  given for each field and nothing for a field never given, and leaves the request empty.
\<close>

theorem request_last_write_wins:
  assumes "vrel reqs rqobjs request_keep F (Map.empty, Map.empty) w"
    and "request_sets F as request_default = Inr r"
  shows "\<exists>q w1 w2 w3. orun RequestBuilder_ctor RequestBuilder_set RequestBuilder_class
        (VNew i () # map (VSet i) as) w = Inr ((), w1)
      \<and> RequestBuilder_release i w1 = Inr (q, w2) \<and> rqobjs w2 i = Some null
      \<and> box_from_raw reqs reqs_update q w2 = Inr (r, w3) \<and> reqs w3 = Map.empty
      \<and> request_build api r
        = (with_opt (api_payload api) (last_some (map (set_payload F) as))
           (with_opt (\<lambda>x. api_timeout api (Some x)) (last_some (map set_timeout as))
           (with_opt (api_inbox api) (last_some (map (set_inbox F) as)) (api_new api))), request_default)"
proof -
  have "vrun False (\<lambda>_. Inr (Some request_default)) (request_st F) (Map.empty, Map.empty)
      (VNew i () # map (VSet i) as) = Some (Inr ([i \<mapsto> Some r], Map.empty))"
    using vrun_sets [OF assms(2), of "[i \<mapsto> Some request_default]" i Map.empty] by simp
  then obtain w1 where w1: "orun RequestBuilder_ctor RequestBuilder_set RequestBuilder_class
        (VNew i () # map (VSet i) as) w = Inr ((), w1)"
      "vrel reqs rqobjs request_keep F ([i \<mapsto> Some r], Map.empty) w1"
    using rq.vrun_refines [OF assms(1), of "VNew i () # map (VSet i) as"] by force
  then have own: "owns (reqs w1) (rqobjs w1) ([i \<mapsto> Some r], Map.empty)" by (simp add: vrel_def)
  then obtain q where q: "rqobjs w1 i = Some q" "reqs w1 q = Some r"
    using ownsD(2) [OF own, of i] by (cases "rqobjs w1 i") auto
  then have "q \<noteq> null" using ownsD(1) [OF own] by (cases "q = null") auto
  moreover have "(reqs w1)(q := None) = Map.empty"
  proof
    fix p
    show "((reqs w1)(q := None)) p = None"
    proof (cases "reqs w1 p")
      case (Some b)
      then obtain j where "rqobjs w1 j = Some p" using ownsD(7) [OF own] by auto
      then have "j = i" using ownsD(2) [OF own, of j] by (cases "j = i") auto
      then show ?thesis using \<open>rqobjs w1 j = Some p\<close> q(1) by simp
    qed simp
  qed
  moreover have "rq_inbox r = last_some (map (set_inbox F) as)"
    "rq_timeout r = last_some (map set_timeout as)" "rq_payload r = last_some (map (set_payload F) as)"
    using request_sets_fields [OF assms(2)] by (simp_all add: request_default_def split: option.splits)
  ultimately show ?thesis
    using w1(1) q
    by (intro exI [of _ q] exI [of _ w1] exI)
      (auto simp: RequestBuilder_release_def cm_simps request_build_run)
qed

definition ex_api :: "string list request_api" where
  "ex_api = \<lparr>api_new = [], api_inbox = \<lambda>s r. r @ [''inbox''], api_timeout = \<lambda>t r. r @ [''timeout''],
     api_payload = \<lambda>b r. r @ [''payload'']\<rparr>"

theorem request_last_write_wins_witness:
  "\<exists>q w1 w2. orun RequestBuilder_ctor RequestBuilder_set RequestBuilder_class
      (VNew 0 () # map (VSet 0) [Timeout 1000000, Data (DBuf 4) 2, Timeout 9000000]) ex_bw = Inr ((), w1)
    \<and> RequestBuilder_release 0 w1 = Inr (q, w2)
    \<and> reqs w2 q = Some \<lparr>rq_inbox = None, rq_timeout = Some (timeout_ms 9000000), rq_payload = Some (bs ''re'')\<rparr>"
proof -
  let ?F = "request_keep ex_bw"
  let ?r = "\<lparr>rq_inbox = None, rq_timeout = Some (timeout_ms 9000000), rq_payload = Some (bs ''re'')\<rparr>"
  let ?as = "[Timeout 1000000, Data (DBuf 4) 2, Timeout 9000000]"
  have r: "request_sets ?F ?as request_default = Inr ?r"
    by (simp add: request_keep_def request_default_def cm_simps bs_def)
  from request_last_write_wins [OF ex_bw_start(1) r, of 0 ex_api] show ?thesis
    by (auto simp: box_from_raw_run split: if_splits option.splits)
qed

lemma unat_word_of_int: "unat (word_of_int k :: u64) = nat (k mod 2 ^ 64)"
  by (simp add: unat_eq_nat_uint uint_word_of_int)

text \<open>
  C40: a timeout of a non-negative duration is its number of whole milliseconds. A duration of minus
  one millisecond or less becomes a timeout of more than \<open>2 ^ 63\<close> milliseconds.
\<close>

theorem timeout_conversion:
  "if 0 \<le> sint d then unat (timeout_ms d) = nat (sint d) div 1000000
   else if sint d \<le> - 1000000 then 2 ^ 63 < unat (timeout_ms d) else timeout_ms d = 0"
proof -
  have lo: "- (2 ^ 63) \<le> sint d" and hi: "sint d < 2 ^ 63"
    using sint_ge [of d] sint_lt [of d] by simp_all
  consider (pos) "0 \<le> sint d" | (neg) "sint d \<le> - 1000000" | (mid) "- 1000000 < sint d" "sint d < 0"
    by linarith
  then show ?thesis
  proof cases
    case pos
    then have "sint d sdiv 1000000 = sint d div 1000000"
      by (cases "sint d = 0") (simp_all add: signed_divide_int_def sgn_if)
    moreover have "0 \<le> sint d div 1000000" "sint d div 1000000 < 2 ^ 64"
      using pos hi by (auto simp: pos_imp_zdiv_nonneg_iff)
    ultimately show ?thesis
      using pos by (simp add: timeout_ms_def unat_word_of_int nat_div_distrib)
  next
    case neg
    define k where "k = (- sint d) div 1000000"
    have k: "1 \<le> k" "k < 2 ^ 62" using neg lo by (auto simp: k_def)
    have "sint d sdiv 1000000 = - k"
      using neg by (simp add: signed_divide_int_def k_def sgn_if)
    moreover have "(- k) mod 2 ^ 64 = 2 ^ 64 - k"
      using k by (simp add: zmod_zminus1_eq_if)
    ultimately have "unat (timeout_ms d) = nat (2 ^ 64 - k)"
      unfolding timeout_ms_def by (simp only: unat_word_of_int)
    then show ?thesis using neg k by simp
  next
    case mid
    then have "sint d sdiv 1000000 = 0" by (simp add: signed_divide_int_def)
    then show ?thesis using mid by (simp add: timeout_ms_def)
  qed
qed

text \<open>
  What tokio documents of its builder: \<open>worker_threads\<close> panics when it is given 0.
\<close>

definition tokio_laws :: "tokio_builder \<Rightarrow> bool" where
  "tokio_laws tokio \<longleftrightarrow> (\<forall>name. \<exists>msg. tokio 0 name = Inl msg)"

text \<open>
  A configuration whose thread count was set to 0 makes the construction of a runtime panic,
  whatever its name; a default configuration never asks for 0 threads, since the available
  parallelism is not 0.
\<close>

theorem runtime_thread_count:
  assumes "tokio_laws tokio" "rcobjs w i = Some c" "c \<noteq> null" "rtcfgs w c = Some cfg" "ap \<noteq> Some 0"
  shows "(\<exists>msg. sq (TokioRuntimeConfig_thread_count i 0) (TokioRuntime_ctor tokio i j) w = Inl (Panic msg))
    \<and> thread_count (runtime_config_default ap) \<noteq> 0"
proof -
  obtain msg where "tokio 0 (thread_name cfg) = Inl msg" using assms(1) by (auto simp: tokio_laws_def)
  then show ?thesis
    using assms(2-5)
    by (auto simp: TokioRuntimeConfig_thread_count_def async_nats_tokio_runtime_config_thread_count_def
        TokioRuntime_ctor_def async_nats_tokio_runtime_new_def runtime_new_def runtime_config_default_def
        cm_simps split: option.splits)
qed

theorem runtime_thread_count_witness:
  "\<exists>msg. sq (TokioRuntimeConfig_thread_count 0 0)
      (TokioRuntime_ctor (\<lambda>n _. if n = 0 then Inl ''Worker threads cannot be set to 0'' else Inr True) 0 5)
      ex_rt_world = Inl (Panic msg)"
  using runtime_thread_count [of "\<lambda>n _. if n = 0 then Inl ''Worker threads cannot be set to 0'' else Inr True"
      ex_rt_world 0 3 "runtime_config_default None" None 5]
  by (simp add: tokio_laws_def ex_rt_world_def)

end
