(* ===== verification/Connection.thy ===== *)
theory Connection
  imports Builders
begin

text \<open>
  The class \<open>Connection\<close> of include/async\_nats/connection.hpp and the connection box of
  rust/src/connection.rs: a plain box with a handle to the runtime and a client of the async\_nats
  crate, cloned by every copy. The asynchronous operations are in the theory Async.
\<close>

text \<open>A tokio handle and a client are cheap references; they are modelled by their identity.\<close>

record AsyncNatsConnection =
  cn_rt :: nat
  cn_client :: nat

record nw = bw +
  conns :: "ptr \<rightharpoonup> AsyncNatsConnection"
  cnobjs :: "oid \<rightharpoonup> ptr"

definition async_nats_connection_clone :: "ptr \<Rightarrow> ('z nw_scheme, ptr) cm" where
  "async_nats_connection_clone conn = bnd (deref conns conn) (\<lambda>c. box_into_raw conns_update c)"

definition async_nats_connection_delete :: "ptr \<Rightarrow> ('z nw_scheme, unit) cm" where
  "async_nats_connection_delete conn = bnd (box_from_raw conns conns_update conn) (\<lambda>_. ret ())"

text \<open>\<open>new_inbox\<close> is \<open>Client::new_inbox\<close> of the crate.\<close>

definition async_nats_connection_mailbox :: "(nat \<Rightarrow> bytes) \<Rightarrow> ptr \<Rightarrow> ('z nw_scheme, ptr) cm" where
  "async_nats_connection_mailbox new_inbox conn =
     bnd (deref conns conn) (\<lambda>c. string_to_owned_string (new_inbox (cn_client c)))"

definition Connection_default :: "unit \<Rightarrow> oid \<Rightarrow> ('z nw_scheme, unit) cm" where
  "Connection_default _ this = obj_put cnobjs_update this null"

definition Connection_from_raw :: "oid \<Rightarrow> ptr \<Rightarrow> ('z nw_scheme, unit) cm" where
  "Connection_from_raw this conn = obj_put cnobjs_update this conn"

definition Connection_copy_ctor :: "oid \<Rightarrow> oid \<Rightarrow> ('z nw_scheme, unit) cm" where
  "Connection_copy_ctor this other =
     bnd (obj_get cnobjs other) (\<lambda>q.
     bnd (async_nats_connection_clone q) (\<lambda>p. obj_put cnobjs_update this p))"

definition Connection_move_ctor :: "oid \<Rightarrow> oid \<Rightarrow> ('z nw_scheme, unit) cm" where
  "Connection_move_ctor this other =
     bnd (obj_get cnobjs other) (\<lambda>q.
     sq (obj_put cnobjs_update this q) (obj_put cnobjs_update other null))"

definition Connection_dtor :: "oid \<Rightarrow> ('z nw_scheme, unit) cm" where
  "Connection_dtor this =
     bnd (obj_get cnobjs this) (\<lambda>p.
     sq (whenM (p \<noteq> null) (async_nats_connection_delete p)) (obj_end cnobjs_update this))"

definition Connection_copy_assign :: "oid \<Rightarrow> oid \<Rightarrow> ('z nw_scheme, unit) cm" where
  "Connection_copy_assign this other =
     (if this = other then ret ()
      else bnd (obj_get cnobjs this) (\<lambda>p.
           sq (whenM (p \<noteq> null) (async_nats_connection_delete p))
           (bnd (obj_get cnobjs other) (\<lambda>q.
            bnd (async_nats_connection_clone q) (\<lambda>r. obj_put cnobjs_update this r)))))"

definition Connection_move_assign :: "oid \<Rightarrow> oid \<Rightarrow> ('z nw_scheme, unit) cm" where
  "Connection_move_assign this other =
     (if this = other then ret ()
      else bnd (obj_get cnobjs this) (\<lambda>p.
           sq (whenM (p \<noteq> null) (async_nats_connection_delete p))
           (bnd (obj_get cnobjs other) (\<lambda>q.
            sq (obj_put cnobjs_update this q) (obj_put cnobjs_update other null)))))"

definition Connection_bool :: "oid \<Rightarrow> ('z nw_scheme, bool) cm" where
  "Connection_bool this = bnd (obj_get cnobjs this) (\<lambda>p. ret (p \<noteq> null))"

text \<open>\<open>new_mailbox\<close> constructs its result, the \<open>OwnedString\<close> object \<open>res\<close>.\<close>

definition Connection_new_mailbox :: "(nat \<Rightarrow> bytes) \<Rightarrow> oid \<Rightarrow> oid \<Rightarrow> ('z nw_scheme, unit) cm" where
  "Connection_new_mailbox new_inbox this res =
     bnd (obj_get cnobjs this) (\<lambda>p.
     bnd (async_nats_connection_mailbox new_inbox p) (\<lambda>s. OwnedString_ctor res s))"

definition Connection_class :: "'z nw_scheme hclass" where
  "Connection_class =
     \<lparr>h_adopt = Connection_from_raw, h_move = Connection_move_ctor,
      h_move_assign = Connection_move_assign, h_dtor = Connection_dtor,
      h_copy = Connection_copy_ctor, h_copy_assign = Connection_copy_assign\<rparr>"

text \<open>
  Every operation of a connection first takes a reference to its box (\<open>unsafe { &*conn }\<close>); that
  is the use of a connection in the programs below.
\<close>

definition Connection_use :: "unit \<Rightarrow> oid \<Rightarrow> ('z nw_scheme, unit) cm" where
  "Connection_use _ this = bnd (obj_get cnobjs this) (\<lambda>p. bnd (deref conns p) (\<lambda>_. ret ()))"

lemma connection_user:
  "cnobjs w i = Some null \<Longrightarrow> Connection_use a i w = Inl (UB NullDeref)"
  "cnobjs w i = Some p \<Longrightarrow> conns w p = Some b \<Longrightarrow> p \<noteq> null \<Longrightarrow>
    Connection_use a i w = Inr ((), conns_update (\<lambda>m. m(p \<mapsto> b)) w)"
  by (simp add: Connection_use_def cm_simps, cases w)
    (simp add: Connection_use_def cm_simps fun_upd_idem)

lemmas Connection_defs = Connection_default_def Connection_from_raw_def Connection_copy_ctor_def
  Connection_move_ctor_def Connection_dtor_def Connection_copy_assign_def Connection_move_assign_def
  Connection_class_def async_nats_connection_delete_def async_nats_connection_clone_def

definition connection_keep :: "'z nw_scheme \<Rightarrow> 'z nw_scheme" where
  "connection_keep w = w\<lparr>brk := 0, conns := Map.empty, cnobjs := Map.empty\<rparr>"

interpretation cn: value_class conns cnobjs cnobjs_update async_nats_connection_delete
  async_nats_connection_clone connection_keep Connection_class True conns_update Connection_default
  Connection_use
  "\<lambda>_ _. Inr None" "\<lambda>_ _ b. Inr b"
  by unfold_locales
    ((simp add: connection_user; fail) |
     (simp add: connection_keep_def Connection_defs idiom_defs idiom_new_def cm_simps; fail))+

subsection \<open>Properties\<close>

definition ex_nw :: nw where
  "ex_nw = bw.extend ex_bw \<lparr>conns = [2 \<mapsto> \<lparr>cn_rt = 0, cn_client = 9\<rparr>], cnobjs = Map.empty\<rparr>"

lemma ex_nw_simps [simp]:
  "brk ex_nw = 5" "conns ex_nw = [2 \<mapsto> \<lparr>cn_rt = 0, cn_client = 9\<rparr>]" "cnobjs ex_nw = Map.empty"
  "strs ex_nw = Map.empty"
  by (simp_all add: ex_nw_def ex_bw_def ex_ew_def ex_hw_def ex_world_def bw.defs ew.defs hw.defs mw.defs)

text \<open>
  C22: a program over \<open>Connection\<close> objects does exactly what the machine of connection values
  does: a copy is a connection of its own to the same client and runtime, using or copying a null
  connection (default constructed or moved from) dereferences null, and when no object and no raw
  pointer is left no connection box is.
\<close>

theorem connection_refines:
  assumes "vrel conns cnobjs connection_keep F t w"
    and "vrun True (\<lambda>_. Inr None) (\<lambda>_ b. Inr b) t xs = Some res"
  shows "case res of
      Inl e \<Rightarrow> orun Connection_default Connection_use Connection_class xs w = Inl e
    | Inr t' \<Rightarrow> \<exists>w'. orun Connection_default Connection_use Connection_class xs w = Inr ((), w')
        \<and> vrel conns cnobjs connection_keep F t' w' \<and> (t' = (Map.empty, Map.empty) \<longrightarrow> conns w' = Map.empty)"
  using cn.vrun_refines [OF assms] owns_no_leak by (fastforce simp: vrel_def split: sum.splits)

theorem connection_refines_witness:
  "(\<exists>w'. orun Connection_default Connection_use Connection_class
      [VOp (HAdopt 0 2), VOp (HCopy 1 0), VOp (HDestroy 0), VSet 1 (), VOp (HDestroy 1)] ex_nw = Inr ((), w')
      \<and> conns w' = Map.empty)
   \<and> orun Connection_default Connection_use Connection_class [VNew 0 (), VOp (HCopy 1 0)] ex_nw
      = Inl (UB NullDeref)"
proof -
  let ?t = "(Map.empty, [2 \<mapsto> \<lparr>cn_rt = 0, cn_client = 9\<rparr>]) :: AsyncNatsConnection vstate"
  have "vrel conns cnobjs connection_keep (connection_keep ex_nw) ?t ex_nw"
    by (auto simp: vrel_def own_wf_def heap_ok_def owns_def split: if_splits)
  from connection_refines [OF this, of "[VOp (HAdopt 0 2), VOp (HCopy 1 0), VOp (HDestroy 0), VSet 1 (),
      VOp (HDestroy 1)]" "Inr (Map.empty, Map.empty)"]
    connection_refines [OF this, of "[VNew 0 (), VOp (HCopy 1 0)]" "Inl (UB NullDeref)"]
  show ?thesis by (auto simp: fun_eq_iff)
qed

end
