(* ===== verification/Subscribtion.thy ===== *)
theory Subscribtion
  imports Connection "HOL-Library.Multiset"
begin

text \<open>
  The classes \<open>Subscribtion\<close> and \<open>SubscribtionCancellationToken\<close> of
  include/async\_nats/subscribtion.hpp and the boxes behind them (rust/src/subscribtion.rs). A
  subscription box holds a handle to the runtime, a subscriber of the async\_nats crate and both ends
  of a channel of capacity one over which cancellations are requested; a token holds one more sender
  of that channel. Deleting a subscription hands it to a task that unsubscribes and drops it.
  Receiving from a subscription is in the theories Async and Delivery.
\<close>

subsection \<open>State\<close>

text \<open>
  The channel \<open>tokio::sync::mpsc::channel(1)\<close> of unit values is code of the tokio crate: it is
  represented by the history of what has been done with it through its ends (\<open>try_send(())\<close>, a
  completed \<open>recv()\<close>, the drop of the receiver); what it answers is a parameter of the theory
  Delivery. A channel is named by an address; the crate keeps it alive as long as one of its ends
  exists, so that no end can dangle.
\<close>

datatype sd_event = SdSend | SdRecv | SdClose

record AsyncNatsSubscribtion =
  sb_rt :: nat
  sb_sub :: nat
  sb_sd :: ptr

record AsyncNatsSubscribtionCancellationToken =
  tk_sd :: ptr

text \<open>\<open>droppers\<close>: the tasks spawned by deletions that have not run yet, each with its subscription.\<close>

record sw = nw +
  subs :: "ptr \<rightharpoonup> AsyncNatsSubscribtion"
  sbobjs :: "oid \<rightharpoonup> ptr"
  tokens :: "ptr \<rightharpoonup> AsyncNatsSubscribtionCancellationToken"
  tkobjs :: "oid \<rightharpoonup> ptr"
  sds :: "ptr \<Rightarrow> sd_event list"
  droppers :: "AsyncNatsSubscribtion list"

subsection \<open>The C API\<close>

definition sd_channel_new :: "('z sw_scheme, ptr) cm" where
  "sd_channel_new = (\<lambda>w. Inr (brk w, w\<lparr>brk := Suc (brk w), sds := (sds w)(brk w := [])\<rparr>))"

text \<open>\<open>try_send(()).ok()\<close>: the result is discarded.\<close>

definition sd_try_send :: "ptr \<Rightarrow> ('z sw_scheme, unit) cm" where
  "sd_try_send c = modify (\<lambda>w. w\<lparr>sds := (sds w)(c := sds w c @ [SdSend])\<rparr>)"

definition AsyncNatsSubscribtion_new :: "nat \<Rightarrow> nat \<Rightarrow> ('z sw_scheme, AsyncNatsSubscribtion) cm" where
  "AsyncNatsSubscribtion_new rt sub =
     bnd sd_channel_new (\<lambda>tx. ret \<lparr>sb_rt = rt, sb_sub = sub, sb_sd = tx\<rparr>)"

definition async_nats_subscribtion_delete :: "ptr \<Rightarrow> ('z sw_scheme, unit) cm" where
  "async_nats_subscribtion_delete s =
     bnd (box_from_raw subs subs_update s) (\<lambda>b. modify (droppers_update (\<lambda>l. l @ [b])))"

definition async_nats_subscribtion_get_cancellation_token :: "ptr \<Rightarrow> ('z sw_scheme, ptr) cm" where
  "async_nats_subscribtion_get_cancellation_token s =
     bnd (deref subs s) (\<lambda>b. box_into_raw tokens_update \<lparr>tk_sd = sb_sd b\<rparr>)"

definition async_nats_subscribtion_cancellation_token_clone :: "ptr \<Rightarrow> ('z sw_scheme, ptr) cm" where
  "async_nats_subscribtion_cancellation_token_clone c =
     bnd (deref tokens c) (\<lambda>t. box_into_raw tokens_update \<lparr>tk_sd = tk_sd t\<rparr>)"

definition async_nats_subscribtion_cancellation_token_delete :: "ptr \<Rightarrow> ('z sw_scheme, unit) cm" where
  "async_nats_subscribtion_cancellation_token_delete c =
     bnd (box_from_raw tokens tokens_update c) (\<lambda>_. ret ())"

definition async_nats_subscribtion_cancellation_token_cancel :: "ptr \<Rightarrow> ('z sw_scheme, unit) cm" where
  "async_nats_subscribtion_cancellation_token_cancel c =
     bnd (deref tokens c) (\<lambda>t. sd_try_send (tk_sd t))"

subsection \<open>SubscribtionCancellationToken\<close>

definition SubscribtionCancellationToken_default :: "oid \<Rightarrow> ('z sw_scheme, unit) cm" where
  "SubscribtionCancellationToken_default this = obj_put tkobjs_update this null"

definition SubscribtionCancellationToken_from_raw :: "oid \<Rightarrow> ptr \<Rightarrow> ('z sw_scheme, unit) cm" where
  "SubscribtionCancellationToken_from_raw this token = obj_put tkobjs_update this token"

definition SubscribtionCancellationToken_copy_ctor :: "oid \<Rightarrow> oid \<Rightarrow> ('z sw_scheme, unit) cm" where
  "SubscribtionCancellationToken_copy_ctor this o' =
     bnd (obj_get tkobjs o') (\<lambda>q.
     bnd (async_nats_subscribtion_cancellation_token_clone q) (\<lambda>p. obj_put tkobjs_update this p))"

definition SubscribtionCancellationToken_move_ctor :: "oid \<Rightarrow> oid \<Rightarrow> ('z sw_scheme, unit) cm" where
  "SubscribtionCancellationToken_move_ctor this o' =
     bnd (obj_get tkobjs o') (\<lambda>q. sq (obj_put tkobjs_update this q) (obj_put tkobjs_update o' null))"

definition SubscribtionCancellationToken_dtor :: "oid \<Rightarrow> ('z sw_scheme, unit) cm" where
  "SubscribtionCancellationToken_dtor this =
     bnd (obj_get tkobjs this) (\<lambda>p.
     sq (whenM (p \<noteq> null) (async_nats_subscribtion_cancellation_token_delete p))
        (obj_end tkobjs_update this))"

definition SubscribtionCancellationToken_copy_assign :: "oid \<Rightarrow> oid \<Rightarrow> ('z sw_scheme, unit) cm" where
  "SubscribtionCancellationToken_copy_assign this o' =
     (if this = o' then ret ()
      else bnd (obj_get tkobjs this) (\<lambda>p.
           sq (whenM (p \<noteq> null) (async_nats_subscribtion_cancellation_token_delete p))
           (bnd (obj_get tkobjs o') (\<lambda>q.
            bnd (async_nats_subscribtion_cancellation_token_clone q) (\<lambda>r. obj_put tkobjs_update this r)))))"

definition SubscribtionCancellationToken_move_assign :: "oid \<Rightarrow> oid \<Rightarrow> ('z sw_scheme, unit) cm" where
  "SubscribtionCancellationToken_move_assign this o' =
     (if this = o' then ret ()
      else bnd (obj_get tkobjs this) (\<lambda>p.
           sq (whenM (p \<noteq> null) (async_nats_subscribtion_cancellation_token_delete p))
           (bnd (obj_get tkobjs o') (\<lambda>q.
            sq (obj_put tkobjs_update this q) (obj_put tkobjs_update o' null)))))"

definition SubscribtionCancellationToken_cancel :: "oid \<Rightarrow> ('z sw_scheme, unit) cm" where
  "SubscribtionCancellationToken_cancel this =
     bnd (obj_get tkobjs this) (\<lambda>p.
     whenM (p \<noteq> null) (async_nats_subscribtion_cancellation_token_cancel p))"

definition SubscribtionCancellationToken_class :: "'z sw_scheme hclass" where
  "SubscribtionCancellationToken_class =
     \<lparr>h_adopt = SubscribtionCancellationToken_from_raw, h_move = SubscribtionCancellationToken_move_ctor,
      h_move_assign = SubscribtionCancellationToken_move_assign,
      h_dtor = SubscribtionCancellationToken_dtor, h_copy = SubscribtionCancellationToken_copy_ctor,
      h_copy_assign = SubscribtionCancellationToken_copy_assign\<rparr>"

subsection \<open>Subscribtion\<close>

definition Subscribtion_default :: "oid \<Rightarrow> ('z sw_scheme, unit) cm" where
  "Subscribtion_default this = obj_put sbobjs_update this null"

definition Subscribtion_from_raw :: "oid \<Rightarrow> ptr \<Rightarrow> ('z sw_scheme, unit) cm" where
  "Subscribtion_from_raw this sub = obj_put sbobjs_update this sub"

definition Subscribtion_move_ctor :: "oid \<Rightarrow> oid \<Rightarrow> ('z sw_scheme, unit) cm" where
  "Subscribtion_move_ctor this o' =
     bnd (obj_get sbobjs o') (\<lambda>q. sq (obj_put sbobjs_update this q) (obj_put sbobjs_update o' null))"

definition Subscribtion_dtor :: "oid \<Rightarrow> ('z sw_scheme, unit) cm" where
  "Subscribtion_dtor this =
     bnd (obj_get sbobjs this) (\<lambda>p.
     sq (whenM (p \<noteq> null) (async_nats_subscribtion_delete p)) (obj_end sbobjs_update this))"

definition Subscribtion_move_assign :: "oid \<Rightarrow> oid \<Rightarrow> ('z sw_scheme, unit) cm" where
  "Subscribtion_move_assign this o' =
     (if this = o' then ret ()
      else bnd (obj_get sbobjs this) (\<lambda>p.
           sq (whenM (p \<noteq> null) (async_nats_subscribtion_delete p))
           (bnd (obj_get sbobjs o') (\<lambda>q.
            sq (obj_put sbobjs_update this q) (obj_put sbobjs_update o' null)))))"

definition Subscribtion_bool :: "oid \<Rightarrow> ('z sw_scheme, bool) cm" where
  "Subscribtion_bool this = bnd (obj_get sbobjs this) (\<lambda>p. ret (p \<noteq> null))"

definition Subscribtion_get_raw :: "oid \<Rightarrow> ('z sw_scheme, ptr) cm" where
  "Subscribtion_get_raw this = obj_get sbobjs this"

definition Subscribtion_release_raw :: "oid \<Rightarrow> ('z sw_scheme, ptr) cm" where
  "Subscribtion_release_raw this =
     bnd (obj_get sbobjs this) (\<lambda>result. sq (obj_put sbobjs_update this null) (ret result))"

text \<open>The result is the token object \<open>res\<close>.\<close>

definition Subscribtion_get_cancellation_token :: "oid \<Rightarrow> oid \<Rightarrow> ('z sw_scheme, unit) cm" where
  "Subscribtion_get_cancellation_token this res =
     bnd (obj_get sbobjs this) (\<lambda>p.
     bnd (async_nats_subscribtion_get_cancellation_token p) (\<lambda>t.
     SubscribtionCancellationToken_from_raw res t))"

definition Subscribtion_class :: "'z sw_scheme hclass" where
  "Subscribtion_class =
     \<lparr>h_adopt = Subscribtion_from_raw, h_move = Subscribtion_move_ctor,
      h_move_assign = Subscribtion_move_assign, h_dtor = Subscribtion_dtor,
      h_copy = deleted, h_copy_assign = deleted\<rparr>"

subsection \<open>The classes own their boxes\<close>

lemmas token_defs = SubscribtionCancellationToken_from_raw_def SubscribtionCancellationToken_copy_ctor_def
  SubscribtionCancellationToken_move_ctor_def SubscribtionCancellationToken_dtor_def
  SubscribtionCancellationToken_copy_assign_def SubscribtionCancellationToken_move_assign_def
  SubscribtionCancellationToken_class_def async_nats_subscribtion_cancellation_token_clone_def
  async_nats_subscribtion_cancellation_token_delete_def

lemmas Subscribtion_defs = Subscribtion_from_raw_def Subscribtion_move_ctor_def Subscribtion_dtor_def
  Subscribtion_move_assign_def Subscribtion_class_def async_nats_subscribtion_delete_def

lemma token_eta [simp]: "\<lparr>tk_sd = tk_sd t\<rparr> = t"
  by simp

definition token_keep :: "'z sw_scheme \<Rightarrow> 'z sw_scheme" where
  "token_keep w = w\<lparr>brk := 0, tokens := Map.empty, tkobjs := Map.empty\<rparr>"

interpretation tk: value_handle tokens tkobjs tkobjs_update
  async_nats_subscribtion_cancellation_token_delete async_nats_subscribtion_cancellation_token_clone
  token_keep SubscribtionCancellationToken_class True
  by unfold_locales (simp add: token_keep_def token_defs idiom_defs cm_simps; fail)+

text \<open>A deletion of a subscription spawns a task: all else stays.\<close>

definition subscribtion_keep :: "'z sw_scheme \<Rightarrow> 'z sw_scheme" where
  "subscribtion_keep w = w\<lparr>brk := 0, subs := Map.empty, sbobjs := Map.empty, droppers := []\<rparr>"

interpretation sb: value_handle subs sbobjs sbobjs_update async_nats_subscribtion_delete
  "\<lambda>_. ret null" subscribtion_keep Subscribtion_class False
  by unfold_locales (simp add: subscribtion_keep_def Subscribtion_defs idiom_defs cm_simps; fail)+

subsection \<open>No subscription is lost\<close>

text \<open>The subscriptions in boxes and those handed to a task that unsubscribes them.\<close>

definition ledger :: "'z sw_scheme \<Rightarrow> AsyncNatsSubscribtion multiset" where
  "ledger w = image_mset (\<lambda>p. the (subs w p)) (mset_set (dom (subs w))) + mset (droppers w)"

lemma heap_ok_finite: "heap_ok h b \<Longrightarrow> finite (dom h)"
  by (rule finite_subset [of _ "{..<b}"]) (auto simp: heap_ok_def)

lemma ledger_frame: "subs w' = subs w \<Longrightarrow> droppers w' = droppers w \<Longrightarrow> ledger w' = ledger w"
  by (simp add: ledger_def)

lemma ledger_delete:
  assumes "async_nats_subscribtion_delete p w = Inr ((), w')" "finite (dom (subs w))"
  shows "ledger w' = ledger w \<and> finite (dom (subs w'))"
proof -
  obtain b where b: "subs w p = Some b" and w': "subs w' = (subs w)(p := None)"
      "droppers w' = droppers w @ [b]"
    using assms(1) by (auto simp: async_nats_subscribtion_delete_def cm_simps split: if_splits option.splits)
  have "mset_set (dom (subs w)) = add_mset p (mset_set (dom (subs w) - {p}))"
    using b assms(2) by (metis domI mset_set.remove)
  moreover have "image_mset (\<lambda>q. the (((subs w)(p := None)) q)) (mset_set (dom (subs w) - {p}))
      = image_mset (\<lambda>q. the (subs w q)) (mset_set (dom (subs w) - {p}))"
    using assms(2) by (intro image_mset_cong) auto
  ultimately show ?thesis using w' b assms(2) by (simp add: ledger_def dom_fun_upd)
qed

lemma ledger_hstep:
  assumes "hstep Subscribtion_class x w = Inr ((), w')" "finite (dom (subs w))"
  shows "ledger w' = ledger w \<and> finite (dom (subs w'))"
proof -
  have del: "ledger v = ledger w \<and> finite (dom (subs v))"
    if "whenM (0 < p) (async_nats_subscribtion_delete p) w = Inr ((), v)" for p v
    using that ledger_delete [OF _ assms(2)] assms(2) by (auto simp: whenM_run split: if_splits)
  have frame: "ledger (sbobjs_update f v) = ledger v" for f and v :: "'a sw_scheme"
    by (rule ledger_frame) simp_all
  show ?thesis
    using assms
    by (cases x)
      (auto simp: Subscribtion_class_def Subscribtion_from_raw_def Subscribtion_move_ctor_def
        Subscribtion_move_assign_def Subscribtion_dtor_def deleted_def bnd_run sq_run obj_get_run
        obj_put_run obj_end_run frame dest!: del split: sum.splits option.splits if_splits)
qed

lemma ledger_hrun:
  "hrun Subscribtion_class xs w = Inr ((), w') \<Longrightarrow> finite (dom (subs w)) \<Longrightarrow> ledger w' = ledger w"
proof (induction xs arbitrary: w)
  case (Cons x xs)
  then obtain w1 where "hstep Subscribtion_class x w = Inr ((), w1)" "hrun Subscribtion_class xs w1 = Inr ((), w')"
    by (auto simp: sq_run split: sum.splits)
  with ledger_hstep [of x w w1] Cons show ?case by auto
qed simp

subsection \<open>Properties\<close>

lemma vrun_no_copy: "vrun False mk st t (map VOp xs) = Some res \<Longrightarrow> \<exists>t'. res = Inr t'"
proof (induction xs arbitrary: t)
  case (Cons x xs)
  moreover have "vstep False mk st t (VOp x) \<noteq> Some (Inl e)" for e
    by (cases x; cases t) (auto split: option.splits)
  ultimately show ?case by (auto split: option.splits sum.splits)
qed auto

text \<open>A world with a raw pointer to a subscription, whose channel has no request queued.\<close>

definition ex_sub :: AsyncNatsSubscribtion where
  "ex_sub = \<lparr>sb_rt = 0, sb_sub = 1, sb_sd = 6\<rparr>"

definition ex_sw :: sw where
  "ex_sw = nw.extend ex_nw \<lparr>subs = [5 \<mapsto> ex_sub], sbobjs = Map.empty, tokens = [7 \<mapsto> \<lparr>tk_sd = 6\<rparr>],
     tkobjs = Map.empty, sds = (\<lambda>_. []), droppers = []\<rparr>\<lparr>brk := 8\<rparr>"

lemma ex_sw_simps [simp]:
  "brk ex_sw = 8" "subs ex_sw = [5 \<mapsto> ex_sub]" "sbobjs ex_sw = Map.empty" "tokens ex_sw = [7 \<mapsto> \<lparr>tk_sd = 6\<rparr>]"
  "tkobjs ex_sw = Map.empty" "sds ex_sw = (\<lambda>_. [])" "droppers ex_sw = []"
  "conns ex_sw = conns ex_nw" "cnobjs ex_sw = Map.empty" "strs ex_sw = Map.empty"
  by (simp_all add: ex_sw_def ex_nw_def ex_bw_def ex_ew_def ex_hw_def ex_world_def nw.defs bw.defs ew.defs
      hw.defs mw.defs)

text \<open>
  C23: programs over \<open>Subscribtion\<close> objects refine the machine of subscription values and lose no
  subscription: each is in a live box or has been handed, once, to a task that unsubscribes it. When
  no object and no raw pointer is left, every subscription has been handed over and no box is left.
\<close>

theorem subscribtion_refines:
  assumes "vrel subs sbobjs subscribtion_keep F t w"
    and "vrun False (\<lambda>_ :: unit. Inr None) (\<lambda>_ :: unit. Inr) t (map VOp xs) = Some res"
  shows "\<exists>t' w'. res = Inr t' \<and> hrun Subscribtion_class xs w = Inr ((), w')
    \<and> vrel subs sbobjs subscribtion_keep F t' w' \<and> ledger w' = ledger w
    \<and> (t' = (Map.empty, Map.empty) \<longrightarrow> subs w' = Map.empty \<and> mset (droppers w') = ledger w)"
proof -
  obtain t' where t': "res = Inr t'" using vrun_no_copy [OF assms(2)] by blast
  then obtain w' where w': "hrun Subscribtion_class xs w = Inr ((), w')"
      "vrel subs sbobjs subscribtion_keep F t' w'"
    using sb.vops_refine [OF assms] by auto
  have led: "ledger w' = ledger w"
    using ledger_hrun [OF w'(1)] assms(1) heap_ok_finite by (auto simp: vrel_def own_wf_def)
  have "subs w' = Map.empty" if "t' = (Map.empty, Map.empty)"
    using that w'(2) owns_no_leak by (auto simp: vrel_def)
  with t' w' led show ?thesis by (auto simp: ledger_def)
qed

theorem subscribtion_refines_witness:
  "\<exists>w'. hrun Subscribtion_class [HAdopt 0 5, HMove 1 0, HDestroy 0, HDestroy 1] ex_sw = Inr ((), w')
    \<and> subs w' = Map.empty \<and> droppers w' = [ex_sub]"
proof -
  let ?t = "(Map.empty, [5 \<mapsto> ex_sub]) :: AsyncNatsSubscribtion vstate"
  have rel: "vrel subs sbobjs subscribtion_keep (subscribtion_keep ex_sw) ?t ex_sw"
    by (auto simp: vrel_def own_wf_def heap_ok_def owns_def split: if_splits)
  have led: "ledger ex_sw = {#ex_sub#}"
    by (simp add: ledger_def)
  from subscribtion_refines [OF rel, of "[HAdopt 0 5, HMove 1 0, HDestroy 0, HDestroy 1]"
      "Inr (Map.empty, Map.empty)"]
  show ?thesis by (auto simp: led mset_single_iff)
qed

text \<open>
  C26: programs over cancellation tokens refine the machine of token values: a copy is a token for the
  same channel in a box of its own, copying a null token (default constructed or moved from)
  dereferences null, and when no object and no raw pointer is left no token box is.
\<close>

theorem token_refines:
  assumes "vrel tokens tkobjs token_keep F t w"
    and "vrun True (\<lambda>_ :: unit. Inr None) (\<lambda>_ :: unit. Inr) t (map VOp xs) = Some res"
  shows "case res of Inl e \<Rightarrow> hrun SubscribtionCancellationToken_class xs w = Inl e
    | Inr t' \<Rightarrow> \<exists>w'. hrun SubscribtionCancellationToken_class xs w = Inr ((), w')
        \<and> vrel tokens tkobjs token_keep F t' w'
        \<and> (t' = (Map.empty, Map.empty) \<longrightarrow> tokens w' = Map.empty)"
  using tk.vops_refine [OF assms] owns_no_leak by (fastforce simp: vrel_def split: sum.splits)

theorem token_refines_witness:
  "(\<exists>w'. hrun SubscribtionCancellationToken_class
      [HAdopt 0 7, HCopy 1 0, HDestroy 0, HDestroy 1] ex_sw = Inr ((), w') \<and> tokens w' = Map.empty)
   \<and> hrun SubscribtionCancellationToken_class [HAdopt 0 7, HMove 1 0, HCopy 2 0] ex_sw = Inl (UB NullDeref)"
proof -
  let ?t = "(Map.empty, [7 \<mapsto> \<lparr>tk_sd = 6\<rparr>]) :: AsyncNatsSubscribtionCancellationToken vstate"
  have "vrel tokens tkobjs token_keep (token_keep ex_sw) ?t ex_sw"
    by (auto simp: vrel_def own_wf_def heap_ok_def owns_def split: if_splits)
  from token_refines [OF this, of "[HAdopt 0 7, HCopy 1 0, HDestroy 0, HDestroy 1]" "Inr (Map.empty, Map.empty)"]
    token_refines [OF this, of "[HAdopt 0 7, HMove 1 0, HCopy 2 0]" "Inl (UB NullDeref)"]
  show ?thesis by (auto simp: fun_eq_iff)
qed

text \<open>A sequence of calls of \<open>cancel\<close>, through the given tokens.\<close>

fun cancel_all :: "oid list \<Rightarrow> ('z sw_scheme, unit) cm" where
  "cancel_all [] = ret ()"
| "cancel_all (i # is) = sq (SubscribtionCancellationToken_cancel i) (cancel_all is)"

definition token_for :: "'z sw_scheme \<Rightarrow> ptr \<Rightarrow> oid \<Rightarrow> bool" where
  "token_for w c i \<longleftrightarrow> (case tkobjs w i of None \<Rightarrow> False
     | Some p \<Rightarrow> p = null \<or> map_option tk_sd (tokens w p) = Some c)"

lemma token_for_sds [simp]: "token_for (w\<lparr>sds := x\<rparr>) c i = token_for w c i"
  by (simp add: token_for_def split: option.splits)

lemma cancel_null: "tkobjs w i = Some null \<Longrightarrow> SubscribtionCancellationToken_cancel i w = Inr ((), w)"
  by (simp add: SubscribtionCancellationToken_cancel_def cm_simps)

lemma cancel_sends:
  assumes "token_for w c i" "tkobjs w i \<noteq> Some null"
  shows "SubscribtionCancellationToken_cancel i w = Inr ((), w\<lparr>sds := (sds w)(c := sds w c @ [SdSend])\<rparr>)"
proof -
  obtain p tok where "tkobjs w i = Some p" "p \<noteq> null" "tokens w p = Some tok" "c = tk_sd tok"
    using assms by (auto simp: token_for_def split: option.splits)
  then show ?thesis
    by (simp add: SubscribtionCancellationToken_cancel_def
        async_nats_subscribtion_cancellation_token_cancel_def sd_try_send_def cm_simps)
qed

text \<open>
  Every call of \<open>cancel\<close> through a token of a subscription, the original or any copy, makes one
  \<open>try_send\<close> on that subscription's channel and changes nothing else; through a null token it does
  nothing. It never fails and never blocks.
\<close>

theorem token_cancel:
  assumes "\<forall>i \<in> set is. token_for w c i"
  shows "cancel_all is w = Inr ((), w\<lparr>sds := (sds w)(c := sds w c
    @ replicate (length (filter (\<lambda>i. tkobjs w i \<noteq> Some null) is)) SdSend)\<rparr>)"
  using assms
proof (induction "is" arbitrary: w)
  case (Cons i "is")
  show ?case
  proof (cases "tkobjs w i = Some null")
    case True
    then show ?thesis using Cons.IH [of w] Cons.prems cancel_null [of w i] by (simp add: sq_run)
  next
    case False
    let ?w = "w\<lparr>sds := (sds w)(c := sds w c @ [SdSend])\<rparr>"
    have "SubscribtionCancellationToken_cancel i w = Inr ((), ?w)"
      using False Cons.prems by (intro cancel_sends) auto
    moreover have "\<forall>j \<in> set is. token_for ?w c j" using Cons.prems by simp
    note Cons.IH [OF this]
    ultimately show ?thesis using False by (simp add: sq_run cong: if_cong)
  qed
qed simp

theorem token_cancel_witness:
  "cancel_all [0, 1, 0] (ex_sw\<lparr>tkobjs := [0 \<mapsto> 7, 1 \<mapsto> null]\<rparr>)
    = Inr ((), ex_sw\<lparr>tkobjs := [0 \<mapsto> 7, 1 \<mapsto> null], sds := (\<lambda>_. [])(6 := [SdSend, SdSend])\<rparr>)"
  using token_cancel [of "[0, 1, 0]" "ex_sw\<lparr>tkobjs := [0 \<mapsto> 7, 1 \<mapsto> null]\<rparr>" 6]
  by (simp add: token_for_def eval_nat_numeral)

end
