(* ===== verification/Async.thy ===== *)
theory Async
  imports Subscribtion
begin

text \<open>
  The asynchronous operations: \<open>publish\<close>, \<open>subcribe\<close>, \<open>request\<close> of \<open>Connection\<close>, the
  function \<open>connect\<close> and \<open>receive\<close> of \<open>Subscribtion\<close> (include/async\_nats/connection.hpp,
  subscribtion.hpp, detail/helpers.hpp), and the tasks they spawn on the tokio runtime
  (rust/src/connection.rs, request.rs, subscribtion.rs). An operation moves the
  completion handler to the heap, passes its address with a callback to the Rust side and returns;
  the task later calls the callback, which calls the handler and frees its memory.

  The runtime and the server are the environment: which task runs next and what the server answers
  is not determined. A task has two steps: it starts (reads its arguments and hands the operation
  to the client), and it finishes with a response of the server. What a task that receives from a
  subscription finishes with is determined in the theory Delivery.
\<close>

subsection \<open>State\<close>

text \<open>
  A handler is modelled by its identity. What it is called with: nothing, or the one reference to
  a box that the object passed to it holds. \<open>CSubscribtion\<close> with null is an empty
  \<open>Subscribtion\<close>, \<open>CMessage\<close> with null an empty \<open>Message\<close> (the end of a subscription); with \<open>CRequestError\<close> comes an empty \<open>Message\<close>, with \<open>CConnectError\<close>
  an empty \<open>Connection\<close>.
\<close>

type_synonym handler = nat

datatype completion =
    CVoid
  | CMessage ptr
  | CRequestError ptr
  | CSubscribtion ptr
  | CConnection ptr
  | CConnectError ptr

text \<open>A spawned task with what it has captured; the last component is the callback's context.\<close>

datatype task =
    TPublish ptr bytes bytes ptr
  | TPublishReply ptr bytes bytes bytes ptr
  | TSubscribe ptr bytes ptr
  | TRequest ptr bytes dptr u64 ptr
  | TSendRequest ptr bytes AsyncNatsRequest ptr
  | TConnect nat ptr ptr
  | TReceive ptr ptr

text \<open>What a client (by its identity) is asked to do, or a new connection with its options.\<close>

datatype wire_op =
    WPublish nat bytes "bytes option" bytes
  | WSubscribe nat bytes
  | WRequest nat bytes bytes
  | WSendRequest nat bytes AsyncNatsRequest
  | WConnect "bytes list" "bytes option"

text \<open>A response; an error of a subscription or of a publication is its text.\<close>

datatype response =
    ROk
  | RFailed bytes
  | RSubscriber nat
  | RMessage nats_message
  | RRequestError request_error_kind bytes
  | RClient nat
  | RConnectError connect_error_kind bytes
  | REnd

text \<open>
  \<open>ctxs\<close> are the handlers on the C++ heap; \<open>undestroyed\<close> counts those whose memory was freed
  without a call of their destructor. \<open>BYTES\<close> and \<open>BYTES_reply\<close> are the thread-local buffers
  of the two publish functions, by thread. \<open>pending\<close> are the tasks that have not finished, with
  whether they have started; \<open>wire\<close> is what has been handed to clients, \<open>calls\<close> the calls of
  handlers, both in order.
\<close>

record aw = sw +
  ctxs :: "ptr \<rightharpoonup> handler"
  undestroyed :: nat
  BYTES :: "nat \<Rightarrow> bytes"
  BYTES_reply :: "nat \<Rightarrow> bytes"
  pending :: "(task \<times> bool) list"
  wire :: "wire_op list"
  calls :: "(handler \<times> completion) list"

subsection \<open>Contexts and callbacks\<close>

definition allocate_ctx :: "handler \<Rightarrow> ('z aw_scheme, ptr) cm" where
  "allocate_ctx token = box_into_raw ctxs_update token"

definition deallocate_ctx :: "ptr \<Rightarrow> ('z aw_scheme, unit) cm" where
  "deallocate_ctx token =
     bnd (box_from_raw ctxs ctxs_update token) (\<lambda>_. modify (undestroyed_update Suc))"

definition call_handler :: "handler \<Rightarrow> completion \<Rightarrow> ('z aw_scheme, unit) cm" where
  "call_handler h c = modify (calls_update (\<lambda>l. l @ [(h, c)]))"

definition publish_callback :: "ptr \<Rightarrow> ('z aw_scheme, unit) cm" where
  "publish_callback ctx =
     bnd (deref ctxs ctx) (\<lambda>c. sq (call_handler c CVoid) (deallocate_ctx ctx))"

text \<open>The error string is not used.\<close>

definition subscribe_callback :: "ptr \<Rightarrow> ptr \<Rightarrow> ptr \<Rightarrow> ('z aw_scheme, unit) cm" where
  "subscribe_callback sub err ctx =
     bnd (deref ctxs ctx) (\<lambda>c. sq (call_handler c (CSubscribtion sub)) (deallocate_ctx ctx))"

definition request_callback :: "ptr \<Rightarrow> ptr \<Rightarrow> ptr \<Rightarrow> ('z aw_scheme, unit) cm" where
  "request_callback msg e ctx =
     bnd (deref ctxs ctx) (\<lambda>c.
     sq (if msg = null then call_handler c (CRequestError e) else call_handler c (CMessage msg))
        (deallocate_ctx ctx))"

definition connect_callback :: "ptr \<Rightarrow> ptr \<Rightarrow> ptr \<Rightarrow> ('z aw_scheme, unit) cm" where
  "connect_callback conn e ctx =
     bnd (deref ctxs ctx) (\<lambda>c.
     sq (if conn = null then call_handler c (CConnectError e) else call_handler c (CConnection conn))
        (deallocate_ctx ctx))"

definition receive_callback :: "ptr \<Rightarrow> ptr \<Rightarrow> ('z aw_scheme, unit) cm" where
  "receive_callback msg ctx =
     bnd (deref ctxs ctx) (\<lambda>c. sq (call_handler c (CMessage msg)) (deallocate_ctx ctx))"

subsection \<open>The functions that spawn tasks\<close>

definition spawn :: "task \<Rightarrow> ('z aw_scheme, unit) cm" where
  "spawn t = modify (pending_update (\<lambda>ts. ts @ [(t, False)]))"

text \<open>
  The copy through a thread-local \<open>BytesMut\<close>: \<open>extend_from_slice\<close>, then \<open>split_to\<close> the length
  of the data.
\<close>

definition bytes_copy where
  "bytes_copy get upd thread data =
     bnd (gets (\<lambda>w. get w thread @ data)) (\<lambda>mbytes.
     sq (modify (upd (\<lambda>t. t(thread := drop (length data) mbytes)))) (ret (take (length data) mbytes)))"

definition async_nats_connection_publish_async ::
    "nat \<Rightarrow> ptr \<Rightarrow> AsyncNatsSlice \<Rightarrow> dptr \<Rightarrow> u64 \<Rightarrow> ptr \<Rightarrow> ('z aw_scheme, unit) cm" where
  "async_nats_connection_publish_async thread conn topic d n ctx =
     bnd (deref conns conn) (\<lambda>_.
     bnd (slice_lossy_convert topic) (\<lambda>topic_str.
     bnd (from_raw_parts d (unat n)) (\<lambda>data_slice.
     bnd (bytes_copy BYTES BYTES_update thread data_slice) (\<lambda>bytes.
     spawn (TPublish conn topic_str bytes ctx)))))"

definition async_nats_connection_publish_with_reply_async ::
    "nat \<Rightarrow> ptr \<Rightarrow> AsyncNatsSlice \<Rightarrow> AsyncNatsSlice \<Rightarrow> dptr \<Rightarrow> u64 \<Rightarrow> ptr \<Rightarrow> ('z aw_scheme, unit) cm" where
  "async_nats_connection_publish_with_reply_async thread conn topic reply_to d n ctx =
     bnd (deref conns conn) (\<lambda>_.
     bnd (slice_lossy_convert topic) (\<lambda>topic_str.
     bnd (slice_lossy_convert reply_to) (\<lambda>reply_to_str.
     bnd (from_raw_parts d (unat n)) (\<lambda>data_slice.
     bnd (bytes_copy BYTES_reply BYTES_reply_update thread data_slice) (\<lambda>bytes.
     spawn (TPublishReply conn topic_str reply_to_str bytes ctx))))))"

definition async_nats_connection_subscribe_async :: "ptr \<Rightarrow> dptr \<Rightarrow> ptr \<Rightarrow> ('z aw_scheme, unit) cm" where
  "async_nats_connection_subscribe_async conn topic ctx =
     bnd (deref conns conn) (\<lambda>_.
     bnd (cstr_lossy_convert topic) (\<lambda>topic_str. spawn (TSubscribe conn topic_str ctx)))"

text \<open>The payload of a request is read by the task, not here.\<close>

definition async_nats_connection_request_async ::
    "ptr \<Rightarrow> dptr \<Rightarrow> dptr \<Rightarrow> u64 \<Rightarrow> ptr \<Rightarrow> ('z aw_scheme, unit) cm" where
  "async_nats_connection_request_async conn topic d n ctx =
     bnd (deref conns conn) (\<lambda>_.
     bnd (cstr_lossy_convert topic) (\<lambda>topic_str. spawn (TRequest conn topic_str d n ctx)))"

definition async_nats_connection_send_request_async ::
    "ptr \<Rightarrow> dptr \<Rightarrow> ptr \<Rightarrow> ptr \<Rightarrow> ('z aw_scheme, unit) cm" where
  "async_nats_connection_send_request_async conn topic request ctx =
     bnd (deref conns conn) (\<lambda>_.
     bnd (cstr_lossy_convert topic) (\<lambda>topic_str.
     bnd (box_from_raw reqs reqs_update request) (\<lambda>r. spawn (TSendRequest conn topic_str r ctx))))"

text \<open>The runtime and the options are dereferenced at the call; the task reads the options.\<close>

definition async_nats_connection_connect :: "ptr \<Rightarrow> ptr \<Rightarrow> ptr \<Rightarrow> ('z aw_scheme, unit) cm" where
  "async_nats_connection_connect rt cfg ctx =
     bnd (deref rts rt) (\<lambda>_. bnd (deref cparams cfg) (\<lambda>_. spawn (TConnect rt cfg ctx)))"

definition async_nats_subscribtion_receive_async :: "ptr \<Rightarrow> ptr \<Rightarrow> ('z aw_scheme, unit) cm" where
  "async_nats_subscribtion_receive_async s ctx =
     bnd (deref subs s) (\<lambda>_. spawn (TReceive s ctx))"

subsection \<open>The tasks\<close>

definition hand_over :: "wire_op \<Rightarrow> ('z aw_scheme, unit) cm" where
  "hand_over x = modify (wire_update (\<lambda>l. l @ [x]))"

text \<open>The spawned blocks, up to the point where they await the response.\<close>

definition publish_task_start :: "ptr \<Rightarrow> bytes \<Rightarrow> bytes \<Rightarrow> ('z aw_scheme, unit) cm" where
  "publish_task_start conn topic bytes =
     bnd (deref conns conn) (\<lambda>c. hand_over (WPublish (cn_client c) topic None bytes))"

definition publish_reply_task_start :: "ptr \<Rightarrow> bytes \<Rightarrow> bytes \<Rightarrow> bytes \<Rightarrow> ('z aw_scheme, unit) cm" where
  "publish_reply_task_start conn topic reply_to bytes =
     bnd (deref conns conn) (\<lambda>c. hand_over (WPublish (cn_client c) topic (Some reply_to) bytes))"

definition subscribe_task_start :: "ptr \<Rightarrow> bytes \<Rightarrow> ('z aw_scheme, unit) cm" where
  "subscribe_task_start conn topic =
     bnd (deref conns conn) (\<lambda>c. hand_over (WSubscribe (cn_client c) topic))"

definition request_task_start :: "ptr \<Rightarrow> bytes \<Rightarrow> dptr \<Rightarrow> u64 \<Rightarrow> ('z aw_scheme, unit) cm" where
  "request_task_start conn topic d n =
     bnd (from_raw_parts d (unat n)) (\<lambda>bytes.
     bnd (deref conns conn) (\<lambda>c. hand_over (WRequest (cn_client c) topic bytes)))"

definition send_request_task_start :: "ptr \<Rightarrow> bytes \<Rightarrow> AsyncNatsRequest \<Rightarrow> ('z aw_scheme, unit) cm" where
  "send_request_task_start conn topic request =
     bnd (deref conns conn) (\<lambda>c. hand_over (WSendRequest (cn_client c) topic request))"

definition connect_task_start :: "ptr \<Rightarrow> ('z aw_scheme, unit) cm" where
  "connect_task_start cfg =
     bnd (deref cparams cfg) (\<lambda>p. hand_over (WConnect (cp_addrs p) (cp_name p)))"

definition receive_task_start :: "ptr \<Rightarrow> ('z aw_scheme, unit) cm" where
  "receive_task_start s = bnd (deref subs s) (\<lambda>_. ret ())"

fun task_start :: "task \<Rightarrow> ('z aw_scheme, unit) cm" where
  "task_start (TPublish conn topic bytes ctx) = publish_task_start conn topic bytes"
| "task_start (TPublishReply conn topic reply_to bytes ctx) = publish_reply_task_start conn topic reply_to bytes"
| "task_start (TSubscribe conn topic ctx) = subscribe_task_start conn topic"
| "task_start (TRequest conn topic d n ctx) = request_task_start conn topic d n"
| "task_start (TSendRequest conn topic request ctx) = send_request_task_start conn topic request"
| "task_start (TConnect rt cfg ctx) = connect_task_start cfg"
| "task_start (TReceive s ctx) = receive_task_start s"

text \<open>What the tasks make of the responses.\<close>

fun request_result :: "response \<Rightarrow> ptr \<Rightarrow> ('z aw_scheme, unit) cm" where
  "request_result (RMessage m) ctx =
     bnd (box_into_raw msgs_update (message_into m)) (\<lambda>p. request_callback p null ctx)"
| "request_result (RRequestError k t) ctx =
     bnd (box_into_raw rerrs_update (request_error_new k t)) (\<lambda>p. request_callback null p ctx)"
| "request_result _ ctx = ret ()"

fun subscribe_result :: "nat \<Rightarrow> response \<Rightarrow> ptr \<Rightarrow> ('z aw_scheme, unit) cm" where
  "subscribe_result rt (RSubscriber s) ctx =
     bnd (AsyncNatsSubscribtion_new rt s) (\<lambda>sub.
     bnd (box_into_raw subs_update sub) (\<lambda>p. subscribe_callback p null ctx))"
| "subscribe_result rt (RFailed t) ctx =
     bnd (string_to_owned_string t) (\<lambda>err. subscribe_callback null err ctx)"
| "subscribe_result rt _ ctx = ret ()"

fun connect_result :: "nat \<Rightarrow> response \<Rightarrow> ptr \<Rightarrow> ('z aw_scheme, unit) cm" where
  "connect_result rt (RClient c) ctx =
     bnd (box_into_raw conns_update \<lparr>cn_rt = rt, cn_client = c\<rparr>) (\<lambda>p. connect_callback p null ctx)"
| "connect_result rt (RConnectError k t) ctx =
     bnd (box_into_raw cerrs_update (connect_error_new k t)) (\<lambda>p. connect_callback null p ctx)"
| "connect_result rt _ ctx = ret ()"

fun receive_result :: "response \<Rightarrow> ptr \<Rightarrow> ('z aw_scheme, unit) cm" where
  "receive_result (RMessage m) ctx =
     bnd (box_into_raw msgs_update (message_into m)) (\<lambda>p. receive_callback p ctx)"
| "receive_result REnd ctx = receive_callback null ctx"
| "receive_result _ ctx = ret ()"

text \<open>
  The blocks from there on. The client is borrowed from the connection box until the response is
  there; the options of a new connection are copied at the start. The result of a publication is
  discarded (\<open>.ok()\<close>).
\<close>

definition publish_task_finish :: "ptr \<Rightarrow> ptr \<Rightarrow> ('z aw_scheme, unit) cm" where
  "publish_task_finish conn ctx = bnd (deref conns conn) (\<lambda>_. publish_callback ctx)"

definition publish_reply_task_finish :: "ptr \<Rightarrow> ptr \<Rightarrow> ('z aw_scheme, unit) cm" where
  "publish_reply_task_finish conn ctx = bnd (deref conns conn) (\<lambda>_. publish_callback ctx)"

definition subscribe_task_finish :: "ptr \<Rightarrow> response \<Rightarrow> ptr \<Rightarrow> ('z aw_scheme, unit) cm" where
  "subscribe_task_finish conn r ctx = bnd (deref conns conn) (\<lambda>c. subscribe_result (cn_rt c) r ctx)"

definition request_task_finish :: "ptr \<Rightarrow> response \<Rightarrow> ptr \<Rightarrow> ('z aw_scheme, unit) cm" where
  "request_task_finish conn r ctx = bnd (deref conns conn) (\<lambda>_. request_result r ctx)"

definition send_request_task_finish :: "ptr \<Rightarrow> response \<Rightarrow> ptr \<Rightarrow> ('z aw_scheme, unit) cm" where
  "send_request_task_finish conn r ctx = bnd (deref conns conn) (\<lambda>_. request_result r ctx)"

definition connect_task_finish :: "nat \<Rightarrow> ptr \<Rightarrow> response \<Rightarrow> ptr \<Rightarrow> ('z aw_scheme, unit) cm" where
  "connect_task_finish rt cfg r ctx = connect_result rt r ctx"

definition receive_task_finish :: "ptr \<Rightarrow> response \<Rightarrow> ptr \<Rightarrow> ('z aw_scheme, unit) cm" where
  "receive_task_finish s r ctx = bnd (deref subs s) (\<lambda>_. receive_result r ctx)"

fun task_finish :: "task \<Rightarrow> response \<Rightarrow> ('z aw_scheme, unit) cm" where
  "task_finish (TPublish conn topic bytes ctx) r = publish_task_finish conn ctx"
| "task_finish (TPublishReply conn topic reply_to bytes ctx) r = publish_reply_task_finish conn ctx"
| "task_finish (TSubscribe conn topic ctx) r = subscribe_task_finish conn r ctx"
| "task_finish (TRequest conn topic d n ctx) r = request_task_finish conn r ctx"
| "task_finish (TSendRequest conn topic request ctx) r = send_request_task_finish conn r ctx"
| "task_finish (TConnect rt cfg ctx) r = connect_task_finish rt cfg r ctx"
| "task_finish (TReceive s ctx) r = receive_task_finish s r ctx"

lemmas task_defs [simp] = publish_task_start_def publish_reply_task_start_def subscribe_task_start_def
  request_task_start_def send_request_task_start_def connect_task_start_def receive_task_start_def
  publish_task_finish_def publish_reply_task_finish_def subscribe_task_finish_def request_task_finish_def
  send_request_task_finish_def connect_task_finish_def receive_task_finish_def

text \<open>Which responses a task can get.\<close>

fun answers :: "task \<Rightarrow> response \<Rightarrow> bool" where
  "answers (TPublish _ _ _ _) r = (case r of ROk \<Rightarrow> True | RFailed _ \<Rightarrow> True | _ \<Rightarrow> False)"
| "answers (TPublishReply _ _ _ _ _) r = (case r of ROk \<Rightarrow> True | RFailed _ \<Rightarrow> True | _ \<Rightarrow> False)"
| "answers (TSubscribe _ _ _) r = (case r of RSubscriber _ \<Rightarrow> True | RFailed t \<Rightarrow> 0 \<notin> set t | _ \<Rightarrow> False)"
| "answers (TRequest _ _ _ _ _) r = (case r of RMessage _ \<Rightarrow> True | RRequestError _ _ \<Rightarrow> True | _ \<Rightarrow> False)"
| "answers (TSendRequest _ _ _ _) r = (case r of RMessage _ \<Rightarrow> True | RRequestError _ _ \<Rightarrow> True | _ \<Rightarrow> False)"
| "answers (TConnect _ _ _) r = (case r of RClient _ \<Rightarrow> True | RConnectError _ _ \<Rightarrow> True | _ \<Rightarrow> False)"
| "answers (TReceive _ _) r = (case r of RMessage _ \<Rightarrow> True | REnd \<Rightarrow> True | _ \<Rightarrow> False)"

subsection \<open>The operations of the C++ side\<close>

text \<open>
  The initiations that \<open>async_initiate\<close> runs with the handler. \<open>subj\<close> and \<open>data\<close> are views.
\<close>

definition Connection_publish :: "nat \<Rightarrow> oid \<Rightarrow> handler \<Rightarrow> string_view \<Rightarrow> string_view \<Rightarrow> ('z aw_scheme, unit) cm" where
  "Connection_publish thread this token subj data =
     (case (subj, data) of (View sd sn, View dd dn) \<Rightarrow>
      bnd (allocate_ctx token) (\<lambda>ctx.
      bnd (obj_get cnobjs this) (\<lambda>conn.
      async_nats_connection_publish_async thread conn \<lparr>sl_data = sd, sl_size = sn\<rparr> dd dn ctx)))"

definition Connection_publish_reply ::
    "nat \<Rightarrow> oid \<Rightarrow> handler \<Rightarrow> string_view \<Rightarrow> string_view \<Rightarrow> string_view \<Rightarrow> ('z aw_scheme, unit) cm" where
  "Connection_publish_reply thread this token subj reply_to data =
     (case (subj, reply_to, data) of (View sd sn, View rd rn, View dd dn) \<Rightarrow>
      bnd (allocate_ctx token) (\<lambda>ctx.
      bnd (obj_get cnobjs this) (\<lambda>conn.
      async_nats_connection_publish_with_reply_async thread conn \<lparr>sl_data = sd, sl_size = sn\<rparr>
        \<lparr>sl_data = rd, sl_size = rn\<rparr> dd dn ctx)))"

definition Connection_subcribe :: "oid \<Rightarrow> handler \<Rightarrow> dptr \<Rightarrow> ('z aw_scheme, unit) cm" where
  "Connection_subcribe this token subj =
     bnd (allocate_ctx token) (\<lambda>ctx.
     bnd (obj_get cnobjs this) (\<lambda>conn. async_nats_connection_subscribe_async conn subj ctx))"

definition Connection_request :: "oid \<Rightarrow> handler \<Rightarrow> dptr \<Rightarrow> string_view \<Rightarrow> ('z aw_scheme, unit) cm" where
  "Connection_request this token subj data =
     (case data of View dd dn \<Rightarrow>
      bnd (allocate_ctx token) (\<lambda>ctx.
      bnd (obj_get cnobjs this) (\<lambda>conn. async_nats_connection_request_async conn subj dd dn ctx)))"

definition Connection_send_request :: "oid \<Rightarrow> handler \<Rightarrow> dptr \<Rightarrow> oid \<Rightarrow> ('z aw_scheme, unit) cm" where
  "Connection_send_request this token subj req =
     bnd (allocate_ctx token) (\<lambda>ctx.
     bnd (obj_get cnobjs this) (\<lambda>conn.
     bnd (RequestBuilder_release req) (\<lambda>r. async_nats_connection_send_request_async conn subj r ctx)))"

definition connect :: "oid \<Rightarrow> oid \<Rightarrow> handler \<Rightarrow> ('z aw_scheme, unit) cm" where
  "connect rt options token =
     bnd (allocate_ctx token) (\<lambda>ctx.
     bnd (obj_get rtobjs rt) (\<lambda>r.
     bnd (obj_get coobjs options) (\<lambda>cfg. async_nats_connection_connect r cfg ctx)))"

definition Subscribtion_receive :: "oid \<Rightarrow> handler \<Rightarrow> ('z aw_scheme, unit) cm" where
  "Subscribtion_receive this token =
     bnd (allocate_ctx token) (\<lambda>ctx.
     bnd (Subscribtion_get_raw this) (\<lambda>s. async_nats_subscribtion_receive_async s ctx))"

text \<open>All of them, as the calls a program makes.\<close>

datatype api_call =
    Publish nat oid string_view string_view
  | PublishReply nat oid string_view string_view string_view
  | Subscribe oid dptr
  | Request oid dptr string_view
  | SendRequest oid dptr oid
  | Connect oid oid
  | Receive oid

fun initiate :: "api_call \<Rightarrow> handler \<Rightarrow> ('z aw_scheme, unit) cm" where
  "initiate (Publish thread this s d) h = Connection_publish thread this h s d"
| "initiate (PublishReply thread this s r d) h = Connection_publish_reply thread this h s r d"
| "initiate (Subscribe this s) h = Connection_subcribe this h s"
| "initiate (Request this s d) h = Connection_request this h s d"
| "initiate (SendRequest this s q) h = Connection_send_request this h s q"
| "initiate (Connect rt opts) h = connect rt opts h"
| "initiate (Receive this) h = Subscribtion_receive this h"

subsection \<open>Executions\<close>

fun ctx_of :: "task \<Rightarrow> ptr" where
  "ctx_of (TPublish _ _ _ c) = c"
| "ctx_of (TPublishReply _ _ _ _ c) = c"
| "ctx_of (TSubscribe _ _ c) = c"
| "ctx_of (TRequest _ _ _ _ c) = c"
| "ctx_of (TSendRequest _ _ _ c) = c"
| "ctx_of (TConnect _ _ c) = c"
| "ctx_of (TReceive _ c) = c"

text \<open>
  The steps of an execution: the program initiates an operation, some pending task starts or
  finishes, or anything else happens that leaves contexts, tasks and calls alone (the operations on
  objects in the other theories, the program's own code). The label of an initiation is its
  handler.
\<close>

inductive astep :: "'z aw_scheme \<Rightarrow> handler option \<Rightarrow> 'z aw_scheme \<Rightarrow> bool" where
  init: "initiate a h w = Inr ((), w') \<Longrightarrow> astep w (Some h) w'"
| start: "k < length (pending w) \<Longrightarrow> pending w ! k = (t, False) \<Longrightarrow> task_start t w = Inr ((), w') \<Longrightarrow>
    astep w None (w'\<lparr>pending := (pending w)[k := (t, True)]\<rparr>)"
| finish: "k < length (pending w) \<Longrightarrow> pending w ! k = (t, True) \<Longrightarrow> answers t r \<Longrightarrow>
    task_finish t r w = Inr ((), w') \<Longrightarrow>
    astep w None (w'\<lparr>pending := take k (pending w) @ drop (Suc k) (pending w)\<rparr>)"
| other: "ctxs w' = ctxs w \<Longrightarrow> pending w' = pending w \<Longrightarrow> calls w' = calls w \<Longrightarrow>
    undestroyed w' = undestroyed w \<Longrightarrow> brk w \<le> brk w' \<Longrightarrow> astep w None w'"

inductive_cases astepE: "astep w l w'"

inductive apath :: "'z aw_scheme \<Rightarrow> handler list \<Rightarrow> 'z aw_scheme \<Rightarrow> bool" where
  refl: "apath w [] w"
| step: "apath w ls w1 \<Longrightarrow> astep w1 l w2 \<Longrightarrow> apath w (ls @ (case l of None \<Rightarrow> [] | Some h \<Rightarrow> [h])) w2"

text \<open>What each kind of step does to the contexts, the tasks and the calls.\<close>

lemmas c_api_defs = async_nats_connection_publish_async_def async_nats_connection_publish_with_reply_async_def
  async_nats_connection_subscribe_async_def async_nats_connection_request_async_def
  async_nats_connection_send_request_async_def async_nats_connection_connect_def
  async_nats_subscribtion_receive_async_def bytes_copy_def spawn_def

lemmas cpp_api_defs = Connection_publish_def Connection_publish_reply_def Connection_subcribe_def
  Connection_request_def Connection_send_request_def connect_def allocate_ctx_def
  RequestBuilder_release_def Subscribtion_receive_def Subscribtion_get_raw_def

lemmas callback_defs = publish_callback_def subscribe_callback_def request_callback_def
  connect_callback_def receive_callback_def call_handler_def deallocate_ctx_def
  AsyncNatsSubscribtion_new_def sd_channel_new_def

lemmas cm_splits = sum.splits option.splits if_splits string_view.splits

lemma initiate_effect:
  assumes "initiate a h w = Inr ((), w')"
  shows "\<exists>t. pending w' = pending w @ [(t, False)] \<and> ctx_of t = brk w \<and> ctxs w' = (ctxs w)(brk w \<mapsto> h)
    \<and> brk w' = Suc (brk w) \<and> calls w' = calls w \<and> undestroyed w' = undestroyed w"
  using assms
  by (cases a) (auto simp: cpp_api_defs c_api_defs slice_lossy_convert_def cstr_lossy_convert_def cm_simps
      split: cm_splits)

lemma task_start_effect:
  assumes "task_start t w = Inr ((), w')"
  shows "\<exists>xs. w' = wire_update (\<lambda>l. l @ xs) w"
proof (cases t)
  case (TRequest conn topic d n ctx)
  then obtain b c where "mem_at w d = Inr b" "unat n \<le> length b" "conns w conn = Some c" "conn \<noteq> null"
    using assms by (auto simp: cm_simps split: cm_splits)
  then show ?thesis
    using assms TRequest
    by (intro exI [of _ "[WRequest (cn_client c) topic (take (unat n) b)]"])
      (simp add: hand_over_def cm_simps)
next
  case (TReceive s ctx)
  then show ?thesis
    using assms by (intro exI [of _ "[]"]) (auto simp: cm_simps split: cm_splits)
qed (use assms in \<open>auto simp: hand_over_def cm_simps split: cm_splits\<close>)

lemma request_result_effect:
  assumes "request_result r ctx w = Inr ((), w')" "\<exists>m. r = RMessage m \<or> (\<exists>k x. r = RRequestError k x)"
  shows "\<exists>h c. ctxs w ctx = Some h \<and> ctxs w' = (ctxs w)(ctx := None) \<and> calls w' = calls w @ [(h, c)]
    \<and> pending w' = pending w \<and> undestroyed w' = Suc (undestroyed w) \<and> brk w' = Suc (brk w)"
  using assms by (cases r) (auto simp: callback_defs cm_simps split: cm_splits)

lemma task_finish_effect:
  assumes "task_finish t r w = Inr ((), w')" "answers t r"
  shows "\<exists>h c. ctxs w (ctx_of t) = Some h \<and> ctxs w' = (ctxs w)(ctx_of t := None)
    \<and> calls w' = calls w @ [(h, c)] \<and> pending w' = pending w
    \<and> undestroyed w' = Suc (undestroyed w) \<and> brk w \<le> brk w'"
  using assms(2,1)
  by (cases t; cases r; simp only: answers.simps response.case simp_thms)
    (auto simp: callback_defs string_to_owned_string_def cm_simps split: cm_splits)

text \<open>
  The invariant: the live contexts are those of the pending tasks, one for each, and every context
  freed so far was freed after a call of its handler.
\<close>

definition async_inv :: "'z aw_scheme \<Rightarrow> bool" where
  "async_inv w \<longleftrightarrow> heap_ok (ctxs w) (brk w) \<and> distinct (map (ctx_of \<circ> fst) (pending w))
     \<and> ctx_of ` fst ` set (pending w) = dom (ctxs w) \<and> undestroyed w = length (calls w)"

definition waiting :: "'z aw_scheme \<Rightarrow> handler multiset" where
  "waiting w = mset (map (\<lambda>x. the (ctxs w (ctx_of (fst x)))) (pending w))"

lemma waiting_upd:
  assumes "p \<notin> ctx_of ` fst ` set xs"
  shows "{#the (if ctx_of (fst x) = p then y else m (ctx_of (fst x))). x \<in># mset xs#}
    = {#the (m (ctx_of (fst x))). x \<in># mset xs#}"
  using assms by (intro image_mset_cong) (auto simp: image_iff)

lemma remove_nth:
  assumes "k < length xs" "distinct (map f xs)"
  shows "distinct (map f (take k xs @ drop (Suc k) xs))" "f (xs ! k) \<notin> f ` set (take k xs @ drop (Suc k) xs)"
    "f ` set xs = insert (f (xs ! k)) (f ` set (take k xs @ drop (Suc k) xs))"
    "{#g x. x \<in># mset xs#} = add_mset (g (xs ! k)) {#g x. x \<in># mset (take k xs @ drop (Suc k) xs)#}"
proof -
  obtain a x b where "xs = a @ x # b" "take k xs = a" "drop (Suc k) xs = b" "xs ! k = x"
    using id_take_nth_drop [OF assms(1)] by blast
  then show "distinct (map f (take k xs @ drop (Suc k) xs))" "f (xs ! k) \<notin> f ` set (take k xs @ drop (Suc k) xs)"
    "f ` set xs = insert (f (xs ! k)) (f ` set (take k xs @ drop (Suc k) xs))"
    "{#g x. x \<in># mset xs#} = add_mset (g (xs ! k)) {#g x. x \<in># mset (take k xs @ drop (Suc k) xs)#}"
    using assms(2) by auto
qed

lemma initiate_inv:
  assumes "initiate a h w = Inr ((), w')" "async_inv w"
  shows "async_inv w' \<and> mset (map fst (calls w')) + waiting w'
    = mset (map fst (calls w)) + waiting w + {#h#}"
proof -
  obtain t where t: "pending w' = pending w @ [(t, False)]" "ctx_of t = brk w"
    "ctxs w' = (ctxs w)(brk w \<mapsto> h)" "brk w' = Suc (brk w)" "calls w' = calls w"
    "undestroyed w' = undestroyed w"
    using initiate_effect [OF assms(1)] by blast
  have fresh: "brk w \<notin> ctx_of ` fst ` set (pending w)"
    using assms(2) heap_ok_fresh [of "ctxs w" "brk w"] by (auto simp: async_inv_def)
  have "async_inv w'"
    using assms(2) t fresh by (auto simp: async_inv_def heap_ok_new image_image)
  moreover have "waiting w' = waiting w + {#h#}"
    using t waiting_upd [OF fresh, where m = "ctxs w" and y = "Some h"] by (simp add: waiting_def)
  ultimately show ?thesis using t(5) by simp
qed

lemma finish_inv:
  assumes "k < length (pending w)" "pending w ! k = (t, True)" "answers t r" "task_finish t r w = Inr ((), v)"
    and "async_inv w"
  shows "let w' = v\<lparr>pending := take k (pending w) @ drop (Suc k) (pending w)\<rparr> in
    async_inv w' \<and> mset (map fst (calls w')) + waiting w' = mset (map fst (calls w)) + waiting w"
proof -
  let ?w = "v\<lparr>pending := take k (pending w) @ drop (Suc k) (pending w)\<rparr>"
  obtain h c where e: "ctxs w (ctx_of t) = Some h" "ctxs v = (ctxs w)(ctx_of t := None)"
    "calls v = calls w @ [(h, c)]" "undestroyed v = Suc (undestroyed w)" "brk w \<le> brk v"
    using task_finish_effect [OF assms(4,3)] by blast
  let ?xs = "take k (pending w) @ drop (Suc k) (pending w)"
  have inv: "distinct (map (ctx_of \<circ> fst) (pending w))" using assms(5) by (simp add: async_inv_def)
  note rest = remove_nth [OF assms(1) inv, unfolded assms(2)]
  have out: "ctx_of t \<notin> ctx_of ` fst ` set ?xs" using rest(2) by (simp add: image_comp)
  have dom: "ctx_of ` fst ` set (pending w) = insert (ctx_of t) (ctx_of ` fst ` set ?xs)"
    using rest(3) by (simp add: image_comp)
  have domv: "ctx_of ` fst ` set ?xs = dom (ctxs w) - {ctx_of t}"
    using dom out assms(5) unfolding async_inv_def by (metis Diff_insert_absorb)
  have "heap_ok ((ctxs w)(ctx_of t := None)) (brk v)"
    using assms(5) e(5) by (auto simp: async_inv_def heap_ok_def)
  then have "async_inv ?w"
    using assms(5) e rest(1) domv by (simp add: async_inv_def dom_fun_upd del: set_append map_append)
  moreover have "waiting w = add_mset h (waiting ?w)"
    using rest(4) [of "\<lambda>x. the (ctxs w (ctx_of (fst x)))"]
      waiting_upd [OF out, where m = "ctxs w" and y = None] e(1,2)
    by (simp add: waiting_def)
  ultimately show ?thesis using e(3) by (simp add: Let_def)
qed

lemma astep_inv:
  assumes "astep w l w'" "async_inv w"
  shows "async_inv w' \<and> mset (map fst (calls w')) + waiting w'
    = mset (map fst (calls w)) + waiting w + (case l of None \<Rightarrow> {#} | Some h \<Rightarrow> {#h#})"
  using assms(1)
proof (cases rule: astep.cases)
  case (init a h)
  with initiate_inv [OF init(2) assms(2)] show ?thesis by simp
next
  case (start k t v)
  obtain x where v: "v = wire_update (\<lambda>l. l @ x) w" using task_start_effect [OF start(5)] by blast
  have eq: "map (f \<circ> fst) ((pending w)[k := (t, True)]) = map (f \<circ> fst) (pending w)" for f :: "task \<Rightarrow> 'q"
    using start(3,4) by (simp add: map_update list_update_same_conv)
  have set: "fst ` set ((pending w)[k := (t, True)]) = fst ` set (pending w)"
    using eq [of id] by (metis id_o list.set_map)
  have "async_inv w'"
    using assms(2) eq [of ctx_of] set by (simp add: async_inv_def start(2) v)
  moreover have "waiting w' = waiting w"
    using eq [of "\<lambda>t. the (ctxs w (ctx_of t))"] by (simp add: waiting_def start(2) v comp_def)
  ultimately show ?thesis using start(1) by (simp add: start(2) v)
next
  case (finish k t r v)
  with finish_inv [OF finish(3-6) assms(2)] show ?thesis by (simp add: Let_def)
next
  case other
  then show ?thesis
    using assms(2) by (auto simp: async_inv_def waiting_def heap_ok_def)
qed

lemma apath_inv:
  assumes "apath w ls w'" "async_inv w"
  shows "async_inv w' \<and> mset (map fst (calls w')) + waiting w'
    = mset (map fst (calls w)) + waiting w + mset ls"
  using assms
proof induction
  case (refl w)
  then show ?case by simp
next
  case (step w ls w1 l w2)
  then show ?case using astep_inv [OF step.hyps(2)] by (auto split: option.splits)
qed

subsection \<open>Tasks that run\<close>

text \<open>
  What a task needs: the connection or subscription box it borrows until it finishes, the buffer of a request and
  the options of a connection until it has started.
\<close>

fun alive :: "'z aw_scheme \<Rightarrow> task \<Rightarrow> bool \<Rightarrow> bool" where
  "alive w (TPublish conn _ _ _) started \<longleftrightarrow> conn \<noteq> null \<and> conns w conn \<noteq> None"
| "alive w (TPublishReply conn _ _ _ _) started \<longleftrightarrow> conn \<noteq> null \<and> conns w conn \<noteq> None"
| "alive w (TSubscribe conn _ _) started \<longleftrightarrow> conn \<noteq> null \<and> conns w conn \<noteq> None"
| "alive w (TRequest conn _ d n _) started \<longleftrightarrow> conn \<noteq> null \<and> conns w conn \<noteq> None
     \<and> (started \<or> (case mem_at w d of Inl _ \<Rightarrow> False | Inr b \<Rightarrow> unat n \<le> length b))"
| "alive w (TSendRequest conn _ _ _) started \<longleftrightarrow> conn \<noteq> null \<and> conns w conn \<noteq> None"
| "alive w (TConnect _ cfg _) started \<longleftrightarrow> started \<or> cfg \<noteq> null \<and> cparams w cfg \<noteq> None"
| "alive w (TReceive s _) started \<longleftrightarrow> s \<noteq> null \<and> subs w s \<noteq> None"

definition borrows_ok :: "'z aw_scheme \<Rightarrow> bool" where
  "borrows_ok w \<longleftrightarrow> (\<forall>(t, st) \<in> set (pending w). alive w t st)"

lemma mem_at_frame:
  "cbuf w' = cbuf w \<Longrightarrow> strs w' = strs w \<Longrightarrow> msgs w' = msgs w \<Longrightarrow> mem_at w' d = mem_at w d"
  by (cases d) auto

lemma alive_mono:
  assumes "alive w t st" "\<And>p. conns w p \<noteq> None \<Longrightarrow> conns w' p \<noteq> None" "cparams w' = cparams w"
    and "cbuf w' = cbuf w" "strs w' = strs w" "msgs w' = msgs w"
    and "\<And>p. subs w p \<noteq> None \<Longrightarrow> subs w' p \<noteq> None"
  shows "alive w' t st"
  using assms mem_at_frame [OF assms(4-6)] by (cases t) auto

lemma alive_started: "alive w t False \<Longrightarrow> alive w t True"
  by (cases t) auto

lemma task_start_runs: "alive w t False \<Longrightarrow> \<exists>w'. task_start t w = Inr ((), w')"
  by (cases t) (auto simp: hand_over_def cm_simps split: sum.splits)

lemma task_finish_runs:
  assumes "alive w t True" "ctxs w (ctx_of t) = Some h" "ctx_of t \<noteq> null" "0 < brk w" "answers t r"
  shows "\<exists>w'. task_finish t r w = Inr ((), w')"
  using assms
  by (cases t; cases r)
    (auto simp: callback_defs string_to_owned_string_def cm_simps split: option.splits)

fun good_answer :: "task \<Rightarrow> response" where
  "good_answer (TPublish _ _ _ _) = ROk"
| "good_answer (TPublishReply _ _ _ _ _) = ROk"
| "good_answer (TSubscribe _ _ _) = RSubscriber 0"
| "good_answer (TRequest _ _ _ _ _) = RRequestError RKind_TimedOut []"
| "good_answer (TSendRequest _ _ _ _) = RRequestError RKind_TimedOut []"
| "good_answer (TConnect _ _ _) = RClient 0"
| "good_answer (TReceive _ _) = REnd"

lemma good_answers: "answers t (good_answer t)"
  by (cases t) simp_all

lemma good_finish_keeps:
  assumes "task_finish t (good_answer t) w = Inr ((), w')" "alive w t' st"
  shows "alive w' t' st"
proof -
  have "(\<forall>p. conns w p \<noteq> None \<longrightarrow> conns w' p \<noteq> None) \<and> cparams w' = cparams w \<and> cbuf w' = cbuf w
      \<and> strs w' = strs w \<and> msgs w' = msgs w \<and> (\<forall>p. subs w p \<noteq> None \<longrightarrow> subs w' p \<noteq> None)"
    using assms(1) by (cases t) (auto simp: callback_defs cm_simps split: cm_splits)
  then show ?thesis by (intro alive_mono [OF assms(2)]) auto
qed

lemma ctx_live:
  assumes "async_inv w" "(t, st) \<in> set (pending w)"
  shows "\<exists>h. ctxs w (ctx_of t) = Some h" "ctx_of t \<noteq> null"
proof -
  have "ctx_of t \<in> dom (ctxs w)"
    using assms unfolding async_inv_def by (metis fst_conv image_eqI)
  then show "\<exists>h. ctxs w (ctx_of t) = Some h" "ctx_of t \<noteq> null"
    using assms(1) by (auto simp: async_inv_def dest: heap_okD)
qed

lemma apath_append:
  assumes "apath w2 ls' w3" "apath w1 ls w2"
  shows "apath w1 (ls @ ls') w3"
  using assms
proof induction
  case (refl w)
  then show ?case by simp
next
  case (step w ls' w' l w'')
  then show ?case using apath.step [of w1 "ls @ ls'" w' l w''] by simp
qed

text \<open>The first pending task can be run to its end.\<close>

lemma start_first:
  assumes "async_inv w" "borrows_ok w" "pending w = (t, False) # ts"
  shows "\<exists>w'. apath w [] w' \<and> borrows_ok w' \<and> pending w' = (t, True) # ts"
proof -
  have al: "alive w t False" using assms(2,3) by (simp add: borrows_ok_def)
  then obtain v where v: "task_start t w = Inr ((), v)" using task_start_runs by blast
  then obtain x where x: "v = wire_update (\<lambda>l. l @ x) w" using task_start_effect by blast
  let ?w = "v\<lparr>pending := (t, True) # ts\<rparr>"
  have "astep w None (v\<lparr>pending := (pending w)[0 := (t, True)]\<rparr>)"
    by (rule astep.start) (use assms(3) v in auto)
  then have "apath w [] ?w"
    using apath.step [OF apath.refl, of w None ?w] assms(3) by simp
  moreover have "alive ?w t' st" if "alive w t' st" for t' st
    by (rule alive_mono [OF that]) (simp_all add: x)
  then have "borrows_ok ?w"
    using assms(2,3) alive_started [OF al] by (auto simp: borrows_ok_def)
  ultimately show ?thesis by (intro exI [of _ ?w]) simp
qed

lemma finish_first:
  assumes "async_inv w" "borrows_ok w" "pending w = (t, True) # ts"
  shows "\<exists>w'. apath w [] w' \<and> borrows_ok w' \<and> pending w' = ts"
proof -
  have al: "alive w t True" using assms(2,3) by (simp add: borrows_ok_def)
  obtain h where h: "ctxs w (ctx_of t) = Some h" "ctx_of t \<noteq> null"
    using ctx_live [OF assms(1), of t True] assms(3) by auto
  have "0 < brk w" using assms(1) by (auto simp: async_inv_def dest: heap_ok_pos)
  then obtain v where v: "task_finish t (good_answer t) w = Inr ((), v)"
    using task_finish_runs [OF al h _ good_answers] by blast
  let ?w = "v\<lparr>pending := ts\<rparr>"
  have "astep w None (v\<lparr>pending := take 0 (pending w) @ drop (Suc 0) (pending w)\<rparr>)"
    by (rule astep.finish [OF _ _ good_answers v]) (use assms(3) in auto)
  then have "apath w [] ?w"
    using apath.step [OF apath.refl, of w None ?w] assms(3) by simp
  moreover have "alive ?w t' st" if "alive w t' st" for t' st
    by (rule alive_mono [OF good_finish_keeps [OF v that]]) simp_all
  then have "borrows_ok ?w"
    using assms(2,3) by (auto simp: borrows_ok_def)
  ultimately show ?thesis by (intro exI [of _ ?w]) simp
qed

lemma all_finish:
  assumes "async_inv w" "borrows_ok w"
  shows "\<exists>w'. apath w [] w' \<and> pending w' = []"
  using assms
proof (induction "length (pending w)" arbitrary: w)
  case 0
  then show ?case using apath.refl by (metis length_0_conv)
next
  case (Suc n)
  then obtain t st ts where p: "pending w = (t, st) # ts"
    by (cases "pending w") auto
  have "\<exists>w1. apath w [] w1 \<and> borrows_ok w1 \<and> pending w1 = (t, True) # ts"
    using start_first [OF Suc.prems, of t ts] Suc.prems(2) p apath.refl by (cases st) auto
  then obtain w1 where w1: "apath w [] w1" "borrows_ok w1" "pending w1 = (t, True) # ts" by blast
  then obtain w2 where w2: "apath w1 [] w2" "borrows_ok w2" "pending w2 = ts"
    using finish_first [OF _ w1(2,3)] apath_inv [OF w1(1) Suc.prems(1)] by blast
  have w02: "apath w [] w2" using apath_append [OF w2(1) w1(1)] by simp
  then obtain w3 where "apath w2 [] w3" "pending w3 = []"
    using Suc.hyps(1) [of w2] Suc.hyps(2) p w2(2,3) apath_inv [OF w02 Suc.prems(1)] by auto
  then show ?case using apath_append [OF _ w02] by fastforce
qed

subsection \<open>Properties\<close>

text \<open>A world with a connection, a runtime, options and buffers, and nothing pending.\<close>

definition ex_aw :: aw where
  "ex_aw = sw.extend (ex_sw\<lparr>brk := 5, subs := Map.empty, tokens := Map.empty\<rparr>) \<lparr>ctxs = Map.empty, undestroyed = 0, BYTES = \<lambda>_. [],
     BYTES_reply = \<lambda>_. [], pending = [], wire = [], calls = []\<rparr>
     \<lparr>cbuf := [3 \<mapsto> bs ''topic'' @ [0], 4 \<mapsto> bs ''data''], cnobjs := [0 \<mapsto> 2]\<rparr>"

lemma ex_aw_simps [simp]:
  "brk ex_aw = 5" "conns ex_aw = [2 \<mapsto> \<lparr>cn_rt = 0, cn_client = 9\<rparr>]" "cnobjs ex_aw = [0 \<mapsto> 2]"
  "cbuf ex_aw = [3 \<mapsto> bs ''topic'' @ [0], 4 \<mapsto> bs ''data'']" "subs ex_aw = Map.empty" "ctxs ex_aw = Map.empty"
  "undestroyed ex_aw = 0" "BYTES ex_aw = (\<lambda>_. [])" "BYTES_reply ex_aw = (\<lambda>_. [])" "pending ex_aw = []"
  "wire ex_aw = []" "calls ex_aw = []" "strs ex_aw = Map.empty" "sbobjs ex_aw = Map.empty"
  "sds ex_aw = sds ex_sw" "droppers ex_aw = []"
  by (simp_all add: ex_aw_def sw.defs ex_sw_def ex_nw_def ex_bw_def ex_ew_def ex_hw_def ex_world_def nw.defs bw.defs ew.defs
      hw.defs mw.defs)

lemma ex_aw_inv: "async_inv ex_aw" "waiting ex_aw = {#}"
  by (simp_all add: async_inv_def heap_ok_empty waiting_def)

text \<open>
  C6: exactly one call. In every execution the handlers that have been called together with those
  still waiting are exactly the handlers of the operations initiated, each as often as it was
  initiated; every pending task has a live context of its own, and no other context is alive. So a
  handler is never called twice for one operation, never called for an operation that was not
  initiated, and never lost while its task is pending.
\<close>

theorem async_exactly_once:
  assumes "apath w ls w'" "async_inv w" "waiting w = {#}" "calls w = []"
  shows "mset (map fst (calls w')) + waiting w' = mset ls \<and> async_inv w'
    \<and> (pending w' = [] \<longrightarrow> mset (map fst (calls w')) = mset ls \<and> ctxs w' = Map.empty)"
proof -
  have inv: "async_inv w'" "mset (map fst (calls w')) + waiting w' = mset ls"
    using apath_inv [OF assms(1,2)] assms(3,4) by simp_all
  have "waiting w' = {#}" "dom (ctxs w') = {}" if "pending w' = []"
    using that inv(1) by (auto simp: waiting_def async_inv_def)
  with inv show ?thesis by auto
qed

theorem async_exactly_once_witness:
  "\<exists>w'. apath ex_aw [7] w' \<and> mset (map fst (calls w')) + waiting w' = {#7#} \<and> pending w' \<noteq> []"
proof -
  obtain w' where w': "initiate (Publish 0 0 (View (DBuf 3) 5) (View (DBuf 4) 4)) 7 ex_aw = Inr ((), w')"
    by (simp add: cpp_api_defs c_api_defs slice_lossy_convert_def cm_simps bs_def)
  have "apath ex_aw [7] w'"
    using apath.step [OF apath.refl astep.init [OF w']] by simp
  moreover have "pending w' \<noteq> []" using initiate_effect [OF w'] by auto
  ultimately show ?thesis using async_exactly_once [of ex_aw "[7]" w'] ex_aw_inv by auto
qed

text \<open>
  A pending task whose borrowed connection box, request buffer or options are still there runs
  without a fault: it starts, and with any response it can get it finishes.
\<close>

theorem async_no_fault:
  assumes "async_inv w" "(t, st) \<in> set (pending w)" "alive w t st"
  shows "if st then \<forall>r. answers t r \<longrightarrow> (\<exists>w'. task_finish t r w = Inr ((), w'))
    else \<exists>w'. task_start t w = Inr ((), w')"
proof -
  obtain h where "ctxs w (ctx_of t) = Some h" "ctx_of t \<noteq> null"
    using ctx_live [OF assms(1,2)] by blast
  moreover have "0 < brk w" using assms(1) by (auto simp: async_inv_def dest: heap_ok_pos)
  ultimately show ?thesis
    using task_start_runs [of w t] task_finish_runs [of w t h] assms(3) by auto
qed

definition ex_pending :: aw where
  "ex_pending = ex_aw\<lparr>brk := 6, ctxs := [5 \<mapsto> 7],
     pending := [(TRequest 2 (bs ''topic'') (DBuf 4) 4 5, False)]\<rparr>"

lemma ex_pending_inv: "async_inv ex_pending" "borrows_ok ex_pending"
  by (auto simp: async_inv_def heap_ok_def borrows_ok_def ex_pending_def bs_def split: if_splits)

theorem async_no_fault_witness:
  "\<exists>w'. task_start (TRequest 2 (bs ''topic'') (DBuf 4) 4 5) ex_pending = Inr ((), w')"
  using async_no_fault [OF ex_pending_inv(1), of "TRequest 2 (bs ''topic'') (DBuf 4) 4 5" False]
    ex_pending_inv(2)
  by (simp add: borrows_ok_def ex_pending_def)

text \<open>
  C15: as long as what the pending tasks borrow is there, there is an execution in which all of them
  finish: every waiting handler is called and every context is freed.
\<close>

theorem async_completes:
  assumes "async_inv w" "borrows_ok w"
  shows "\<exists>w'. apath w [] w' \<and> pending w' = [] \<and> ctxs w' = Map.empty
    \<and> mset (map fst (calls w')) = mset (map fst (calls w)) + waiting w"
proof -
  obtain w' where w': "apath w [] w'" "pending w' = []" using all_finish [OF assms] by blast
  have inv: "async_inv w'" "mset (map fst (calls w')) + waiting w' = mset (map fst (calls w)) + waiting w"
    using apath_inv [OF w'(1) assms(1)] by simp_all
  have "dom (ctxs w') = {}" "waiting w' = {#}"
    using inv(1) w'(2) by (auto simp: async_inv_def waiting_def)
  with w' inv(2) show ?thesis by auto
qed

theorem async_completes_witness:
  "\<exists>w'. apath ex_pending [] w' \<and> pending w' = [] \<and> mset (map fst (calls w')) = {#7#}"
  using async_completes [OF ex_pending_inv] by (auto simp: waiting_def ex_pending_def)

text \<open>
  C31: \<open>publish\<close> copies its arguments at the call. Whatever happens to the caller's buffers
  afterwards, the task hands the client the subject as it was (made well-formed) and exactly the
  bytes of the data, as long as the connection box is there; the thread-local buffer is empty again
  after the call.
\<close>

theorem publish_copies:
  assumes "cnobjs w i = Some c" "c \<noteq> null" "conns w c = Some x" "BYTES w thread = []"
    and "cbuf w p = Some topic" "cbuf w q = Some body" "unat n \<le> length topic" "unat m \<le> length body"
  shows "\<exists>w' t. Connection_publish thread i h (View (DBuf p) n) (View (DBuf q) m) w = Inr ((), w')
    \<and> pending w' = pending w @ [(t, False)] \<and> BYTES w' thread = []
    \<and> (\<forall>v. conns v c = Some x \<longrightarrow> (\<exists>v'. task_start t v = Inr ((), v')
        \<and> wire v' = wire v @ [WPublish (cn_client x) (from_utf8_lossy (take (unat n) topic)) None
            (take (unat m) body)]))"
  using assms
  by (simp add: cpp_api_defs c_api_defs slice_lossy_convert_def hand_over_def cm_simps)

theorem publish_copies_witness:
  "\<exists>w' t. Connection_publish 0 0 7 (View (DBuf 3) 5) (View (DBuf 4) 4) ex_aw = Inr ((), w')
    \<and> pending w' = [(t, False)]
    \<and> (\<exists>v'. task_start t (w'\<lparr>cbuf := Map.empty, conns := conns ex_aw\<rparr>) = Inr ((), v')
      \<and> wire v' = wire w' @ [WPublish 9 (bs ''topic'') None (bs ''data'')])"
proof -
  have "utf8_valid (bs ''topic'')" by (rule utf8_ascii) (simp add: bs_def)
  then have "from_utf8_lossy (take 5 (bs ''topic'')) = bs ''topic''"
    by (simp add: lossy_valid_id bs_def)
  then show ?thesis
    using publish_copies [of ex_aw 0 2 "\<lparr>cn_rt = 0, cn_client = 9\<rparr>" 0 3 "bs ''topic'' @ [0]" 4
        "bs ''data''" 5 4 7]
    by (force simp: bs_def)
qed

text \<open>
  C30: how a request ends. With a response the handler is called with no exception and a message
  that reads as the response, which the \<open>Message\<close> object passed to it holds alone; with an error
  it is called with a \<open>RequestError\<close> of that kind and an empty message. Either way it is called
  once, after which its context is freed.
\<close>

theorem request_outcome:
  assumes "alive w t True" "ctxs w (ctx_of t) = Some h" "ctx_of t \<noteq> null" "0 < brk w"
    and "\<exists>conn topic d n req. t = TRequest conn topic d n (ctx_of t) \<or> t = TSendRequest conn topic req (ctx_of t)"
    and "msg_fits m"
  shows "(\<exists>w' p. task_finish t (RMessage m) w = Inr ((), w') \<and> calls w' = calls w @ [(h, CMessage p)]
      \<and> ctxs w' = (ctxs w)(ctx_of t := None)
      \<and> msg_refs (w'\<lparr>mobjs := [0 \<mapsto> p]\<rparr>) p = 1
      \<and> bnd (Message_data 0) view_bytes (w'\<lparr>mobjs := [0 \<mapsto> p]\<rparr>)
        = Inr (nats_message.payload m, w'\<lparr>mobjs := [0 \<mapsto> p]\<rparr>))
    \<and> (\<exists>w' p. task_finish t (RRequestError k x) w = Inr ((), w') \<and> calls w' = calls w @ [(h, CRequestError p)]
      \<and> ctxs w' = (ctxs w)(ctx_of t := None)
      \<and> RequestError_kind 0 (w'\<lparr>reobjs := [0 \<mapsto> \<lparr>eo_e = p, eo_str = None\<rparr>]\<rparr>)
        = Inr (request_error_kind_of k, w'\<lparr>reobjs := [0 \<mapsto> \<lparr>eo_e = p, eo_str = None\<rparr>]\<rparr>))"
proof (intro conjI)
  show "\<exists>w' p. task_finish t (RMessage m) w = Inr ((), w') \<and> calls w' = calls w @ [(h, CMessage p)]
      \<and> ctxs w' = (ctxs w)(ctx_of t := None)
      \<and> msg_refs (w'\<lparr>mobjs := [0 \<mapsto> p]\<rparr>) p = 1
      \<and> bnd (Message_data 0) view_bytes (w'\<lparr>mobjs := [0 \<mapsto> p]\<rparr>)
        = Inr (nats_message.payload m, w'\<lparr>mobjs := [0 \<mapsto> p]\<rparr>)"
    using assms
    by (cases t) (auto simp: callback_defs cm_simps message_into_def rc_refs_def accessor_defs msg_fits_def)
  show "\<exists>w' p. task_finish t (RRequestError k x) w = Inr ((), w') \<and> calls w' = calls w @ [(h, CRequestError p)]
      \<and> ctxs w' = (ctxs w)(ctx_of t := None)
      \<and> RequestError_kind 0 (w'\<lparr>reobjs := [0 \<mapsto> \<lparr>eo_e = p, eo_str = None\<rparr>]\<rparr>)
        = Inr (request_error_kind_of k, w'\<lparr>reobjs := [0 \<mapsto> \<lparr>eo_e = p, eo_str = None\<rparr>]\<rparr>)"
    using assms(1-5)
    by (cases t) (auto simp: callback_defs cm_simps request_error_new_def RequestError_kind_def
        async_nats_request_error_kind_def)
qed

theorem request_outcome_witness:
  "\<exists>w' p. task_finish (TRequest 2 (bs ''topic'') (DBuf 4) 4 5) (RMessage ex_message) ex_pending = Inr ((), w')
    \<and> calls w' = [(7, CMessage p)]
    \<and> bnd (Message_data 0) view_bytes (w'\<lparr>mobjs := [0 \<mapsto> p]\<rparr>) = Inr (bs ''hello'', w'\<lparr>mobjs := [0 \<mapsto> p]\<rparr>)"
proof -
  let ?t = "TRequest 2 (bs ''topic'') (DBuf 4) 4 5"
  have fits: "msg_fits ex_message" by (simp add: msg_fits_def fits64_def ex_message_def bs_def)
  have w: "alive ex_pending ?t True" "ctxs ex_pending (ctx_of ?t) = Some 7" "0 < brk ex_pending"
    "calls ex_pending = []" "nats_message.payload ex_message = bs ''hello''"
    by (simp_all add: ex_pending_def ex_message_def)
  from request_outcome [OF w(1,2) _ w(3) _ fits, THEN conjunct1] w(4,5) show ?thesis by force
qed

text \<open>
  What the tasks borrow is not kept alive by them. When the only \<open>Connection\<close> object of a
  connection is destroyed while a task of an operation it initiated is pending, the task's next step
  is a use after free; so is the end of a \<open>receive\<close> whose \<open>Subscribtion\<close> is destroyed, and the
  start of a request whose payload buffer has been freed, although
  the call that was given the buffer has returned.
\<close>

theorem async_borrow_hazards:
  assumes "cnobjs w i = Some c" "c \<noteq> null" "conns w c = Some x" "ctxs w ctx = Some h"
    and "cbuf w q = Some b" "sbobjs w k = Some s" "s \<noteq> null" "subs w s = Some sb"
  shows "(\<exists>v. Connection_dtor i w = Inr ((), v)
      \<and> task_start (TPublish c topic bytes ctx) v = Inl (UB UseAfterFree)
      \<and> task_finish (TSubscribe c topic ctx) r v = Inl (UB UseAfterFree))
    \<and> (\<exists>v. Subscribtion_dtor k w = Inr ((), v) \<and> task_finish (TReceive s ctx) r v = Inl (UB UseAfterFree))
    \<and> task_start (TRequest c topic (DBuf q) n ctx) (w\<lparr>cbuf := (cbuf w)(q := None)\<rparr>)
      = Inl (UB UseAfterFree)"
  using assms
  by (simp add: Connection_dtor_def async_nats_connection_delete_def Subscribtion_dtor_def
      async_nats_subscribtion_delete_def cm_simps)

theorem async_borrow_hazards_witness:
  "(\<exists>v. Connection_dtor 0 (ex_pending\<lparr>subs := [4 \<mapsto> ex_sub], sbobjs := [1 \<mapsto> 4]\<rparr>) = Inr ((), v)
    \<and> task_start (TPublish 2 (bs ''topic'') [] 5) v = Inl (UB UseAfterFree))
   \<and> (\<exists>v. Subscribtion_dtor 1 (ex_pending\<lparr>subs := [4 \<mapsto> ex_sub], sbobjs := [1 \<mapsto> 4]\<rparr>) = Inr ((), v)
    \<and> task_finish (TReceive 4 5) REnd v = Inl (UB UseAfterFree))"
proof -
  let ?w = "ex_pending\<lparr>subs := [4 \<mapsto> ex_sub], sbobjs := [1 \<mapsto> 4]\<rparr>"
  have w: "cnobjs ?w 0 = Some 2" "(2 :: ptr) \<noteq> null" "conns ?w 2 = Some \<lparr>cn_rt = 0, cn_client = 9\<rparr>"
    "ctxs ?w 5 = Some 7" "cbuf ?w 4 = Some (bs ''data'')" "sbobjs ?w 1 = Some 4" "(4 :: ptr) \<noteq> null"
    "subs ?w 4 = Some ex_sub"
    by (simp_all add: ex_pending_def)
  show ?thesis using async_borrow_hazards [OF w] by blast
qed

text \<open>
  Two leaks. The number of handlers whose memory has been freed without their destructor is the
  number of calls made, in every execution; and a subscription that fails leaves the text of its
  error behind as a C string that no object owns, while the handler gets an empty
  \<open>Subscribtion\<close>.
\<close>

theorem async_leaks:
  assumes "apath w0 ls w" "async_inv w0" "(TSubscribe c topic ctx, True) \<in> set (pending w)"
    and "c \<noteq> null" "conns w c = Some x" "0 \<notin> set e"
  shows "undestroyed w = length (calls w)
    \<and> (\<exists>h w' p. task_finish (TSubscribe c topic ctx) (RFailed e) w = Inr ((), w')
        \<and> calls w' = calls w @ [(h, CSubscribtion null)]
        \<and> strs w' = (strs w)(p \<mapsto> e @ [0]) \<and> p = brk w \<and> sobjs w' = sobjs w \<and> ceobjs w' = ceobjs w
        \<and> reobjs w' = reobjs w)"
proof -
  have inv: "async_inv w" using apath_inv [OF assms(1,2)] by blast
  have "ctx_of (TSubscribe c topic ctx) \<noteq> null"
    "\<exists>h. ctxs w (ctx_of (TSubscribe c topic ctx)) = Some h"
    using ctx_live [OF inv assms(3)] by blast+
  then show ?thesis
    using inv assms(4-6)
    by (auto simp: async_inv_def string_to_owned_string_def callback_defs cm_simps)
qed

theorem async_leaks_witness:
  "\<exists>h w' p. task_finish (TSubscribe 2 (bs ''topic'') 5) (RFailed (bs ''denied''))
      (ex_pending\<lparr>pending := [(TSubscribe 2 (bs ''topic'') 5, True)]\<rparr>) = Inr ((), w')
    \<and> calls w' = [(h, CSubscribtion null)] \<and> strs w' p = Some (bs ''denied'' @ [0])"
proof -
  let ?w = "ex_pending\<lparr>pending := [(TSubscribe 2 (bs ''topic'') 5, True)]\<rparr>"
  have "async_inv ?w" by (auto simp: async_inv_def heap_ok_def ex_pending_def split: if_splits)
  then have "\<exists>h w' p. task_finish (TSubscribe 2 (bs ''topic'') 5) (RFailed (bs ''denied'')) ?w = Inr ((), w')
        \<and> calls w' = calls ?w @ [(h, CSubscribtion null)]
        \<and> strs w' = (strs ?w)(p \<mapsto> bs ''denied'' @ [0])"
    using async_leaks [OF apath.refl, of ?w 2 "bs ''topic''" 5 "\<lparr>cn_rt = 0, cn_client = 9\<rparr>" "bs ''denied''"]
    by (auto simp: ex_pending_def bs_def)
  then show ?thesis by (force simp: ex_pending_def)
qed

end
