(* ===== verification/Delivery.thy ===== *)
theory Delivery
  imports Async "HOL-Library.Sublist"
begin

text \<open>
  How messages reach the program: \<open>Subscribtion::pop\<close> of rust/src/subscribtion.rs, the task of
  \<open>async_nats_subscribtion_receive_async\<close> that awaits it, and the task that unsubscribes a deleted
  subscription. The subscriber of the async\_nats crate and the cancellation channel of the tokio
  crate are parameters with their documented behaviour as named laws. The theory proves that
  \<open>pop\<close>, a loop over two futures, returns and does what a three-line specification says; that
  messages are delivered in order, none lost or duplicated; that a cancelled subscription drains and
  then ends; and that the task refines the environment-driven task of the theory Async.
\<close>

subsection \<open>The crates\<close>

text \<open>
  \<open>cr_next\<close> polls \<open>Subscriber::next()\<close>, \<open>cr_unsubscribe\<close> is \<open>Subscriber::unsubscribe()\<close> with
  whether it succeeded, \<open>cr_arrive\<close> the arrival of a message from the server, over the states
  \<open>'s\<close> of a subscriber. \<open>cr_ready\<close> says whether \<open>recv()\<close> on a cancellation channel with a given
  history completes at once.
\<close>

record 's crates =
  cr_next :: "'s \<Rightarrow> nats_message option poll \<times> 's"
  cr_unsubscribe :: "'s \<Rightarrow> bool \<times> 's"
  cr_arrive :: "nats_message \<Rightarrow> 's \<Rightarrow> 's"
  cr_ready :: "sd_event list \<Rightarrow> bool"

text \<open>
  The documented behaviour. A subscriber is a stream over a queue of messages that ends when the
  queue is empty and the subscription closed; unsubscribing closes it and keeps what is queued;
  arriving messages are queued until it is closed. The channel has room for one value: a fresh one is
  empty, after a \<open>try_send\<close> (while the receiver exists) it holds one, after a \<open>recv\<close> none.
\<close>

definition subscriber_laws :: "'s crates \<Rightarrow> ('s \<Rightarrow> nats_message list) \<Rightarrow> ('s \<Rightarrow> bool) \<Rightarrow> bool" where
  "subscriber_laws c queue closed \<longleftrightarrow>
     (\<forall>s m ms. queue s = m # ms \<longrightarrow> fst (cr_next c s) = Ready (Some m)
        \<and> queue (snd (cr_next c s)) = ms \<and> closed (snd (cr_next c s)) = closed s)
   \<and> (\<forall>s. queue s = [] \<longrightarrow> fst (cr_next c s) = (if closed s then Ready None else Pending)
        \<and> queue (snd (cr_next c s)) = [] \<and> closed (snd (cr_next c s)) = closed s)
   \<and> (\<forall>s. queue (snd (cr_unsubscribe c s)) = queue s
        \<and> (fst (cr_unsubscribe c s) \<longrightarrow> closed (snd (cr_unsubscribe c s))))
   \<and> (\<forall>m s. queue (cr_arrive c m s) = (if closed s then queue s else queue s @ [m])
        \<and> closed (cr_arrive c m s) = closed s)"

definition channel_laws :: "'s crates \<Rightarrow> bool" where
  "channel_laws c \<longleftrightarrow> \<not> cr_ready c [] \<and> (\<forall>l. SdClose \<notin> set l \<longrightarrow> cr_ready c (l @ [SdSend]))
     \<and> (\<forall>l. cr_ready c l \<longrightarrow> \<not> cr_ready c (l @ [SdRecv]))"

text \<open>The client still accepts commands, so that unsubscribing succeeds.\<close>

definition can_unsubscribe :: "'s crates \<Rightarrow> bool" where
  "can_unsubscribe c \<longleftrightarrow> (\<forall>s. fst (cr_unsubscribe c s))"

subsection \<open>The loop\<close>

text \<open>
  One poll of \<open>pop()\<close>. \<open>select_biased!\<close> polls the subscriber first and the cancellation channel
  only when it is not ready; when neither is, the task is suspended until one of them is. The
  subscription itself keeps a sender of the channel, so that \<open>recv()\<close> never yields the end of the
  channel. \<open>None\<close>: the loop does not end.
\<close>

partial_function (option) pop :: "'s crates \<Rightarrow> 's \<Rightarrow> sd_event list
    \<Rightarrow> (fault + nats_message option poll \<times> 's \<times> sd_event list) option" where
  "pop c s l =
     (case cr_next c s of
        (Ready msg, s1) \<Rightarrow> Some (Inr (Ready msg, s1, l))
      | (Pending, s1) \<Rightarrow>
          if cr_ready c l
          then (case cr_unsubscribe c s1 of (ok, s2) \<Rightarrow>
                  if ok then pop c s2 (l @ [SdRecv])
                  else Some (Inl (Panic ''Unable to unsubscribe from channel'')))
          else Some (Inr (Pending, s1, l)))"

text \<open>
  The specification, over the queued messages, whether the subscription is closed, and whether a
  cancellation is requested.
\<close>

type_synonym sub_state = "nats_message list \<times> bool \<times> bool"

fun spec_poll :: "sub_state \<Rightarrow> nats_message option poll \<times> sub_state" where
  "spec_poll (m # ms, cl, rq) = (Ready (Some m), (ms, cl, rq))"
| "spec_poll ([], True, rq) = (Ready None, ([], True, rq))"
| "spec_poll ([], False, True) = (Ready None, ([], True, False))"
| "spec_poll ([], False, False) = (Pending, ([], False, False))"

definition sub_abs :: "'s crates \<Rightarrow> ('s \<Rightarrow> nats_message list) \<Rightarrow> ('s \<Rightarrow> bool) \<Rightarrow> 's \<Rightarrow> sd_event list \<Rightarrow> sub_state" where
  "sub_abs c queue closed s l = (queue s, closed s, cr_ready c l)"

lemma subscriber_lawsD:
  assumes "subscriber_laws c queue closed"
  shows "queue s = m # ms \<Longrightarrow> fst (cr_next c s) = Ready (Some m) \<and> queue (snd (cr_next c s)) = ms
      \<and> closed (snd (cr_next c s)) = closed s"
    "queue s = [] \<Longrightarrow> fst (cr_next c s) = (if closed s then Ready None else Pending)
      \<and> queue (snd (cr_next c s)) = [] \<and> closed (snd (cr_next c s)) = closed s"
    "queue (snd (cr_unsubscribe c s)) = queue s"
    "fst (cr_unsubscribe c s) \<Longrightarrow> closed (snd (cr_unsubscribe c s))"
    "queue (cr_arrive c m s) = (if closed s then queue s else queue s @ [m])"
    "closed (cr_arrive c m s) = closed s"
  using assms by (simp_all add: subscriber_laws_def)

lemma next_queued:
  assumes "subscriber_laws c queue closed" "queue s = m # ms"
  shows "\<exists>s'. cr_next c s = (Ready (Some m), s') \<and> queue s' = ms \<and> closed s' = closed s"
  using subscriber_lawsD(1) [OF assms] by (cases "cr_next c s") auto

lemma next_empty:
  assumes "subscriber_laws c queue closed" "queue s = []"
  shows "\<exists>s'. cr_next c s = (if closed s then Ready None else Pending, s') \<and> queue s' = [] \<and> closed s' = closed s"
  using subscriber_lawsD(2) [OF assms] by (cases "cr_next c s") auto

lemma unsubscribe_closes:
  assumes "subscriber_laws c queue closed" "fst (cr_unsubscribe c s)"
  shows "\<exists>s'. cr_unsubscribe c s = (True, s') \<and> queue s' = queue s \<and> closed s'"
  using subscriber_lawsD(3) [OF assms(1), of s] subscriber_lawsD(4) [OF assms] assms(2)
  by (cases "cr_unsubscribe c s") auto

text \<open>A closed or non-empty subscriber decides the poll at once.\<close>

lemma pop_ready:
  assumes "subscriber_laws c queue closed" "queue s \<noteq> [] \<or> closed s"
  shows "\<exists>s'. pop c s l = Some (Inr (fst (spec_poll (sub_abs c queue closed s l)), s', l))
    \<and> sub_abs c queue closed s' l = snd (spec_poll (sub_abs c queue closed s l))"
proof (cases "queue s")
  case Nil
  with next_empty [OF assms(1) Nil] assms(2) show ?thesis
    by (subst pop.simps) (auto simp: sub_abs_def)
next
  case (Cons m ms)
  with next_queued [OF assms(1) Cons] show ?thesis
    by (subst pop.simps) (auto simp: sub_abs_def)
qed

lemma pop_spec:
  assumes "subscriber_laws c queue closed" "channel_laws c" "can_unsubscribe c"
  shows "\<exists>s' l'. pop c s l = Some (Inr (fst (spec_poll (sub_abs c queue closed s l)), s', l'))
    \<and> sub_abs c queue closed s' l' = snd (spec_poll (sub_abs c queue closed s l))
    \<and> (l' = l \<or> l' = l @ [SdRecv])"
proof (cases "queue s \<noteq> [] \<or> closed s")
  case True
  with pop_ready [OF assms(1), of s l] show ?thesis by blast
next
  case False
  then obtain s1 where s1: "cr_next c s = (Pending, s1)" "queue s1 = []" "\<not> closed s1"
    using next_empty [OF assms(1), of s] by auto
  show ?thesis
  proof (cases "cr_ready c l")
    case True
    obtain s2 where s2: "cr_unsubscribe c s1 = (True, s2)" "queue s2 = []" "closed s2"
      using unsubscribe_closes [OF assms(1), of s1] assms(3) s1(2) by (auto simp: can_unsubscribe_def)
    have "\<not> cr_ready c (l @ [SdRecv])" using assms(2) True by (simp add: channel_laws_def)
    then obtain s3 where "pop c s2 (l @ [SdRecv]) = Some (Inr (Ready None, s3, l @ [SdRecv]))"
        "queue s3 = []" "closed s3"
      using pop_ready [OF assms(1), of s2 "l @ [SdRecv]"] s2(2,3) by (auto simp: sub_abs_def)
    with s1 s2 True False \<open>\<not> cr_ready c (l @ [SdRecv])\<close> show ?thesis
      by (subst pop.simps) (auto simp: sub_abs_def)
  next
    case False
    with \<open>\<not> (queue s \<noteq> [] \<or> closed s)\<close> s1 show ?thesis
      by (subst pop.simps) (auto simp: sub_abs_def)
  qed
qed

lemma pop_panics:
  assumes "subscriber_laws c queue closed" "queue s = []" "\<not> closed s" "cr_ready c l"
    and "\<And>s. \<not> fst (cr_unsubscribe c s)"
  shows "pop c s l = Some (Inl (Panic ''Unable to unsubscribe from channel''))"
proof -
  obtain s1 where "cr_next c s = (Pending, s1)"
    using next_empty [OF assms(1,2)] assms(3) by auto
  with assms(4) assms(5) [of s1] show ?thesis
    by (subst pop.simps) (auto split: prod.splits)
qed

subsection \<open>Sequences of arrivals, cancellations and polls\<close>

datatype sub_event = Arrive nats_message | CancelReq | Poll

fun sub_run :: "'s crates \<Rightarrow> sub_event list \<Rightarrow> 's \<Rightarrow> sd_event list
    \<Rightarrow> (fault + nats_message option poll list \<times> 's \<times> sd_event list) option" where
  "sub_run c [] s l = Some (Inr ([], s, l))"
| "sub_run c (Arrive m # es) s l = sub_run c es (cr_arrive c m s) l"
| "sub_run c (CancelReq # es) s l = sub_run c es s (l @ [SdSend])"
| "sub_run c (Poll # es) s l =
     (case pop c s l of None \<Rightarrow> None | Some (Inl e) \<Rightarrow> Some (Inl e)
      | Some (Inr (r, s', l')) \<Rightarrow> map_option (map_sum id (map_prod (\<lambda>rs. r # rs) id)) (sub_run c es s' l'))"

fun spec_run :: "sub_event list \<Rightarrow> sub_state \<Rightarrow> nats_message option poll list \<times> sub_state" where
  "spec_run [] t = ([], t)"
| "spec_run (Arrive m # es) (ms, cl, rq) = spec_run es (if cl then ms else ms @ [m], cl, rq)"
| "spec_run (CancelReq # es) (ms, cl, rq) = spec_run es (ms, cl, True)"
| "spec_run (Poll # es) t = (case spec_poll t of (r, t') \<Rightarrow> map_prod (\<lambda>rs. r # rs) id (spec_run es t'))"

lemma sub_run_spec:
  assumes "subscriber_laws c queue closed" "channel_laws c" "can_unsubscribe c" "SdClose \<notin> set l"
  shows "\<exists>s' l'. sub_run c es s l = Some (Inr (fst (spec_run es (sub_abs c queue closed s l)), s', l'))
    \<and> sub_abs c queue closed s' l' = snd (spec_run es (sub_abs c queue closed s l)) \<and> SdClose \<notin> set l'"
  using assms(4)
proof (induction es arbitrary: s l)
  case Nil
  then show ?case by simp
next
  case (Cons e es)
  show ?case
  proof (cases e)
    case (Arrive m)
    have "sub_abs c queue closed (cr_arrive c m s) l
        = (if closed s then queue s else queue s @ [m], closed s, cr_ready c l)"
      using subscriber_lawsD(5,6) [OF assms(1), of m s] by (simp add: sub_abs_def)
    with Cons.IH [OF Cons.prems, of "cr_arrive c m s"] Arrive show ?thesis
      by (simp add: sub_abs_def)
  next
    case CancelReq
    have "cr_ready c (l @ [SdSend])" using assms(2) Cons.prems by (simp add: channel_laws_def)
    with Cons.IH [of "l @ [SdSend]" s] Cons.prems CancelReq show ?thesis by (simp add: sub_abs_def)
  next
    case Poll
    obtain r t' where sp: "spec_poll (sub_abs c queue closed s l) = (r, t')" by (cases "spec_poll (sub_abs c queue closed s l)")
    obtain s1 l1 where p: "pop c s l = Some (Inr (r, s1, l1))" "sub_abs c queue closed s1 l1 = t'"
        "l1 = l \<or> l1 = l @ [SdRecv]"
      using pop_spec [OF assms(1-3), of s l] sp by auto
    then have "SdClose \<notin> set l1" using Cons.prems by auto
    from Cons.IH [OF this, of s1] obtain s' l' where
      "sub_run c es s1 l1 = Some (Inr (fst (spec_run es t'), s', l'))"
      "sub_abs c queue closed s' l' = snd (spec_run es t')" "SdClose \<notin> set l'"
      using p(2) by auto
    then show ?thesis using Poll p(1) sp by simp
  qed
qed

text \<open>What has been received, and what has arrived.\<close>

fun received :: "nats_message option poll list \<Rightarrow> nats_message list" where
  "received [] = []"
| "received (Ready (Some m) # rs) = m # received rs"
| "received (_ # rs) = received rs"

fun arrivals :: "sub_event list \<Rightarrow> nats_message list" where
  "arrivals [] = []"
| "arrivals (Arrive m # es) = m # arrivals es"
| "arrivals (_ # es) = arrivals es"

lemma spec_poll_keeps:
  assumes "spec_poll (ms, cl, rq) = (r, (ms', cl', rq'))"
  shows "received [r] @ ms' = ms" "cl \<Longrightarrow> cl'"
  using assms by (induction "(ms, cl, rq)" rule: spec_poll.induct) auto

lemma received_Cons: "received (r # rs) = received [r] @ received rs"
  by (cases "r # rs" rule: received.cases) auto

lemma spec_run_in_order:
  assumes "spec_run es (ms, cl, rq) = (rs, (ms', cl', rq'))"
  shows "if cl then received rs @ ms' = ms \<and> cl' else prefix (received rs @ ms') (ms @ arrivals es)
      \<and> (\<not> cl' \<longrightarrow> received rs @ ms' = ms @ arrivals es)"
  using assms
proof (induction es "(ms, cl, rq)" arbitrary: ms cl rq rs rule: spec_run.induct)
  case (2 m es ms cl rq)
  then show ?case by (auto split: if_splits)
next
  case (4 es ms cl rq)
  obtain r ms1 cl1 rq1 where sp: "spec_poll (ms, cl, rq) = (r, (ms1, cl1, rq1))"
    by (cases "spec_poll (ms, cl, rq)") auto
  obtain rs1 where rs: "rs = r # rs1" "spec_run es (ms1, cl1, rq1) = (rs1, (ms', cl', rq'))"
    using 4(2) sp by (cases "spec_run es (ms1, cl1, rq1)") auto
  show ?case
    using 4(1) [OF sp [symmetric] rs(2)] spec_poll_keeps [OF sp] received_Cons [of r rs1] rs(1)
    by (auto simp: prefix_def split: if_splits)
qed auto

lemma spec_run_closed:
  "spec_run (replicate (length ms + n) Poll) (ms, True, rq)
    = (map (\<lambda>m. Ready (Some m)) ms @ replicate n (Ready None), ([], True, rq))"
proof (induction ms)
  case Nil
  then show ?case by (induction n) simp_all
qed simp

lemma spec_run_drains:
  "spec_run (replicate (length ms + Suc n) Poll) (ms, cl, True)
    = (map (\<lambda>m. Ready (Some m)) ms @ replicate (Suc n) (Ready None), ([], True, cl))"
proof (induction ms)
  case Nil
  then show ?case using spec_run_closed [of "[]" n] by (cases cl) simp_all
qed simp

subsection \<open>The tasks\<close>

text \<open>\<open>subscribers\<close>: the states of the crate's subscribers, by their identities.\<close>

record 's dw = aw +
  subscribers :: "nat \<Rightarrow> 's"

text \<open>\<open>s.inner.pop()\<close>, polled in the world.\<close>

definition subscribtion_pop :: "'s crates \<Rightarrow> AsyncNatsSubscribtion \<Rightarrow> ('s, 'z) dw_scheme
    \<Rightarrow> (fault + nats_message option poll \<times> ('s, 'z) dw_scheme) option" where
  "subscribtion_pop c b w =
     map_option (map_sum id (\<lambda>(r, s, l).
         (r, w\<lparr>subscribers := (subscribers w)(sb_sub b := s), sds := (sds w)(sb_sd b := l)\<rparr>)))
       (pop c (subscribers w (sb_sub b)) (sds w (sb_sd b)))"

definition pop_response :: "nats_message option \<Rightarrow> response" where
  "pop_response m = (case m of None \<Rightarrow> REnd | Some msg \<Rightarrow> RMessage msg)"

text \<open>
  One poll of the task of \<open>receive\<close>: \<open>False\<close> while it waits, \<open>True\<close> when it has called the
  callback and ended.
\<close>

definition receive_poll :: "'s crates \<Rightarrow> ptr \<Rightarrow> ptr \<Rightarrow> ('s, 'z) dw_scheme
    \<Rightarrow> (fault + bool \<times> ('s, 'z) dw_scheme) option" where
  "receive_poll c s ctx w =
     (case deref subs s w of
        Inl e \<Rightarrow> Some (Inl e)
      | Inr (b, _) \<Rightarrow>
          (case subscribtion_pop c b w of
             None \<Rightarrow> None
           | Some (Inl e) \<Rightarrow> Some (Inl e)
           | Some (Inr (Pending, w1)) \<Rightarrow> Some (Inr (False, w1))
           | Some (Inr (Ready m, w1)) \<Rightarrow>
               Some (sq (receive_result (pop_response m) ctx) (ret True) w1)))"

text \<open>
  The task spawned by a deletion: \<open>unsubscribe().await.ok()\<close>, then the subscription and with it
  the receiver of its channel is dropped.
\<close>

definition run_dropper :: "'s crates \<Rightarrow> nat \<Rightarrow> ('s, 'z) dw_scheme \<Rightarrow> ('s, 'z) dw_scheme" where
  "run_dropper c k w =
     (let b = droppers w ! k; s = snd (cr_unsubscribe c (subscribers w (sb_sub b))) in
      w\<lparr>subscribers := (subscribers w)(sb_sub b := s), sds := (sds w)(sb_sd b := sds w (sb_sd b) @ [SdClose]),
        droppers := take k (droppers w) @ drop (Suc k) (droppers w)\<rparr>)"

lemma subscribtion_pop_frame:
  assumes "subscribtion_pop c b w = Some (Inr (p, w'))"
  shows "\<exists>s l. w' = w\<lparr>subscribers := (subscribers w)(sb_sub b := s), sds := (sds w)(sb_sd b := l)\<rparr>"
proof -
  obtain x where x: "pop c (subscribers w (sb_sub b)) (sds w (sb_sd b)) = Some x"
    using assms by (auto simp: subscribtion_pop_def)
  with assms show ?thesis by (cases x) (auto simp: subscribtion_pop_def)
qed

lemma subscribtion_pop_run:
  assumes "subscriber_laws c queue closed" "channel_laws c" "can_unsubscribe c"
  obtains s l where "subscribtion_pop c b w = Some (Inr (fst (spec_poll (sub_abs c queue closed
        (subscribers w (sb_sub b)) (sds w (sb_sd b)))),
      w\<lparr>subscribers := (subscribers w)(sb_sub b := s), sds := (sds w)(sb_sd b := l)\<rparr>))"
    "sub_abs c queue closed s l = snd (spec_poll (sub_abs c queue closed (subscribers w (sb_sub b))
        (sds w (sb_sd b))))"
proof -
  obtain s l where "pop c (subscribers w (sb_sub b)) (sds w (sb_sd b))
      = Some (Inr (fst (spec_poll (sub_abs c queue closed (subscribers w (sb_sub b)) (sds w (sb_sd b)))), s, l))"
    "sub_abs c queue closed s l
      = snd (spec_poll (sub_abs c queue closed (subscribers w (sb_sub b)) (sds w (sb_sd b))))"
    using pop_spec [OF assms] by blast
  then show thesis by (intro that [of l s]) (simp_all add: subscribtion_pop_def)
qed

text \<open>A poll of a receiving task is a step of the task in the sense of the theory Async.\<close>

lemma receive_poll_executes:
  assumes "k < length (pending w)" "pending w ! k = (TReceive s ctx, True)"
    and "receive_poll c s ctx w = Some (Inr (fin, w'))"
  shows "apath w [] (if fin then w'\<lparr>pending := take k (pending w) @ drop (Suc k) (pending w)\<rparr> else w')"
proof -
  obtain b where b: "subs w s = Some b" "s \<noteq> null"
    using assms(3) by (auto simp: receive_poll_def deref_run split: if_splits option.splits)
  obtain p st l where p: "subscribtion_pop c b w
      = Some (Inr (p, w\<lparr>subscribers := (subscribers w)(sb_sub b := st), sds := (sds w)(sb_sd b := l)\<rparr>))"
    using assms(3) b subscribtion_pop_frame [of c b w]
    by (force simp: receive_poll_def deref_run split: option.splits sum.splits)
  let ?w = "w\<lparr>subscribers := (subscribers w)(sb_sub b := st), sds := (sds w)(sb_sd b := l)\<rparr>"
  have "astep w None ?w" by (rule astep.other) simp_all
  then have "apath w ([] @ (case None of None \<Rightarrow> [] | Some h \<Rightarrow> [h])) ?w"
    by (intro apath.step [OF apath.refl])
  then have w1: "apath w [] ?w" by simp
  show ?thesis
  proof (cases p)
    case Pending
    then have "\<not> fin" "w' = ?w" using assms(3) b p by (auto simp: receive_poll_def deref_run)
    with w1 show ?thesis by simp
  next
    case (Ready m)
    then have fin: "fin" "receive_result (pop_response m) ctx ?w = Inr ((), w')"
      using assms(3) b p by (auto simp: receive_poll_def deref_run sq_run split: sum.splits)
    have "task_finish (TReceive s ctx) (pop_response m) ?w = Inr ((), w')"
      using fin(2) b by (simp add: bnd_run deref_run)
    moreover have "answers (TReceive s ctx) (pop_response m)"
      by (simp add: pop_response_def split: option.splits)
    ultimately have "astep ?w None (w'\<lparr>pending := take k (pending ?w) @ drop (Suc k) (pending ?w)\<rparr>)"
      using assms(1,2) by (intro astep.finish [where t = "TReceive s ctx"]) auto
    then have "apath w ([] @ (case None of None \<Rightarrow> [] | Some h \<Rightarrow> [h]))
        (w'\<lparr>pending := take k (pending ?w) @ drop (Suc k) (pending ?w)\<rparr>)"
      by (intro apath.step [OF w1])
    then show ?thesis using fin(1) by simp
  qed
qed

text \<open>What one poll of a receiving task comes to, by the specification of \<open>pop\<close>.\<close>

lemma receive_outcome:
  assumes "subscriber_laws c queue closed" "channel_laws c" "can_unsubscribe c"
    and "k < length (pending w)" "pending w ! k = (TReceive s ctx, True)"
    and "s \<noteq> null" "subs w s = Some b" "ctx \<noteq> null" "ctxs w ctx = Some h"
  shows "\<exists>fin w'. receive_poll c s ctx w = Some (Inr (fin, w'))
    \<and> apath w [] (if fin then w'\<lparr>pending := take k (pending w) @ drop (Suc k) (pending w)\<rparr> else w')
    \<and> sub_abs c queue closed (subscribers w' (sb_sub b)) (sds w' (sb_sd b))
      = snd (spec_poll (sub_abs c queue closed (subscribers w (sb_sub b)) (sds w (sb_sd b))))
    \<and> (case fst (spec_poll (sub_abs c queue closed (subscribers w (sb_sub b)) (sds w (sb_sd b)))) of
         Pending \<Rightarrow> \<not> fin \<and> calls w' = calls w \<and> ctxs w' = ctxs w
       | Ready None \<Rightarrow> fin \<and> calls w' = calls w @ [(h, CMessage null)] \<and> ctxs w' = (ctxs w)(ctx := None)
       | Ready (Some m) \<Rightarrow> fin \<and> calls w' = calls w @ [(h, CMessage (brk w))]
           \<and> msgs w' = (msgs w)(brk w \<mapsto> message_into m) \<and> ctxs w' = (ctxs w)(ctx := None))"
proof -
  let ?t = "sub_abs c queue closed (subscribers w (sb_sub b)) (sds w (sb_sd b))"
  obtain st l where p: "subscribtion_pop c b w = Some (Inr (fst (spec_poll ?t),
      w\<lparr>subscribers := (subscribers w)(sb_sub b := st), sds := (sds w)(sb_sd b := l)\<rparr>))"
    and a: "sub_abs c queue closed st l = snd (spec_poll ?t)"
    using subscribtion_pop_run [OF assms(1-3)] by metis
  define fin where "fin = (fst (spec_poll ?t) \<noteq> Pending)"
  have "\<exists>w'. receive_poll c s ctx w = Some (Inr (fin, w'))
    \<and> sub_abs c queue closed (subscribers w' (sb_sub b)) (sds w' (sb_sd b)) = snd (spec_poll ?t)
    \<and> (case fst (spec_poll ?t) of
         Pending \<Rightarrow> calls w' = calls w \<and> ctxs w' = ctxs w
       | Ready None \<Rightarrow> calls w' = calls w @ [(h, CMessage null)] \<and> ctxs w' = (ctxs w)(ctx := None)
       | Ready (Some m) \<Rightarrow> calls w' = calls w @ [(h, CMessage (brk w))]
           \<and> msgs w' = (msgs w)(brk w \<mapsto> message_into m) \<and> ctxs w' = (ctxs w)(ctx := None))"
    using assms(6-9) p a
    by (auto simp: fin_def receive_poll_def deref_run pop_response_def callback_defs cm_simps
        split: poll.splits option.splits)
  then obtain w' where w': "receive_poll c s ctx w = Some (Inr (fin, w'))"
    "sub_abs c queue closed (subscribers w' (sb_sub b)) (sds w' (sb_sd b)) = snd (spec_poll ?t)"
    "case fst (spec_poll ?t) of
         Pending \<Rightarrow> calls w' = calls w \<and> ctxs w' = ctxs w
       | Ready None \<Rightarrow> calls w' = calls w @ [(h, CMessage null)] \<and> ctxs w' = (ctxs w)(ctx := None)
       | Ready (Some m) \<Rightarrow> calls w' = calls w @ [(h, CMessage (brk w))]
           \<and> msgs w' = (msgs w)(brk w \<mapsto> message_into m) \<and> ctxs w' = (ctxs w)(ctx := None)"
    by blast
  with receive_poll_executes [OF assms(4,5) w'(1)] show ?thesis
    by (intro exI [of _ fin] exI [of _ w']) (auto simp: fin_def split: poll.splits option.splits)
qed

subsection \<open>Properties\<close>

text \<open>A subscriber that is a list of messages and a flag, and a channel that remembers the last event.\<close>

definition ex_crates :: "(nats_message list \<times> bool) crates" where
  "ex_crates =
     \<lparr>cr_next = (\<lambda>(ms, cl). case ms of m # ms' \<Rightarrow> (Ready (Some m), (ms', cl))
                  | [] \<Rightarrow> (if cl then Ready None else Pending, ([], cl))),
      cr_unsubscribe = (\<lambda>(ms, cl). (True, (ms, True))),
      cr_arrive = (\<lambda>m (ms, cl). (if cl then ms else ms @ [m], cl)),
      cr_ready = (\<lambda>l. l \<noteq> [] \<and> last l = SdSend)\<rparr>"

lemma ex_crates_laws:
  "subscriber_laws ex_crates fst snd" "channel_laws ex_crates" "can_unsubscribe ex_crates"
  by (auto simp: subscriber_laws_def channel_laws_def can_unsubscribe_def ex_crates_def)

text \<open>
  C16: \<open>pop\<close> always comes to an end, and one poll of it does what the specification says: a queued
  message is returned first, whatever else is requested; an empty closed subscription ends; a
  requested cancellation of an empty open subscription unsubscribes and ends it in the same poll;
  otherwise the task waits. When the client no longer accepts the command, the task panics instead.
\<close>

theorem pop_correct:
  assumes "subscriber_laws c queue closed" "channel_laws c"
  shows "(can_unsubscribe c \<longrightarrow> (\<exists>s' l'. pop c s l = Some (Inr (fst (spec_poll (sub_abs c queue closed s l)), s', l'))
      \<and> sub_abs c queue closed s' l' = snd (spec_poll (sub_abs c queue closed s l))))
    \<and> ((\<forall>s. \<not> fst (cr_unsubscribe c s)) \<and> sub_abs c queue closed s l = ([], False, True)
      \<longrightarrow> pop c s l = Some (Inl (Panic ''Unable to unsubscribe from channel'')))"
  using pop_spec [OF assms, of s l] pop_panics [OF assms(1), of s l]
  by (auto simp: sub_abs_def)

theorem pop_correct_witness:
  "\<exists>s' l'. pop ex_crates ([], False) [SdSend, SdSend] = Some (Inr (Ready None, s', l'))
    \<and> sub_abs ex_crates fst snd s' l' = ([], True, False)"
  using pop_correct [OF ex_crates_laws(1,2), of "([], False)" "[SdSend, SdSend]"] ex_crates_laws(3)
  by (auto simp: sub_abs_def ex_crates_def)



text \<open>
  C17: a cancelled subscription comes to its end. After one call of \<open>cancel\<close> the polls that follow
  return every message still queued, in order, then the end, and the end again ever after; none of
  them waits.
\<close>

theorem drain_after_cancel:
  assumes "subscriber_laws c queue closed" "channel_laws c" "can_unsubscribe c" "SdClose \<notin> set l"
  shows "\<exists>s' l'. sub_run c (CancelReq # replicate (length (queue s) + Suc n) Poll) s l
      = Some (Inr (map (\<lambda>m. Ready (Some m)) (queue s) @ replicate (Suc n) (Ready None), s', l'))
    \<and> queue s' = [] \<and> closed s'"
  using sub_run_spec [OF assms, of "CancelReq # replicate (length (queue s) + Suc n) Poll" s]
    spec_run_drains [of "queue s" n "closed s"]
  by (auto simp: sub_abs_def)

theorem drain_after_cancel_witness:
  "\<exists>s' l'. sub_run ex_crates [CancelReq, Poll, Poll, Poll] ([ex_message], False) []
      = Some (Inr ([Ready (Some ex_message), Ready None, Ready None], s', l')) \<and> snd s'"
  using drain_after_cancel [OF ex_crates_laws, of "[]" "([ex_message], False)" 1]
  by (auto simp: eval_nat_numeral)

text \<open>
  C18: a poll of the task of \<open>receive\<close> calls the handler once when it finishes: with a message box
  of its own that holds the first queued message, or with an empty message at the end of the
  subscription; until then it calls nothing and its context stays. Either way the poll is a step of
  the execution model, so that the exactly-one-call theorem covers receiving.
\<close>

theorem receive_delivers:
  assumes "subscriber_laws c queue closed" "channel_laws c" "can_unsubscribe c"
    and "k < length (pending w)" "pending w ! k = (TReceive s ctx, True)"
    and "s \<noteq> null" "subs w s = Some b" "ctx \<noteq> null" "ctxs w ctx = Some h"
  shows "\<exists>fin w'. receive_poll c s ctx w = Some (Inr (fin, w'))
    \<and> apath w [] (if fin then w'\<lparr>pending := take k (pending w) @ drop (Suc k) (pending w)\<rparr> else w')
    \<and> sub_abs c queue closed (subscribers w' (sb_sub b)) (sds w' (sb_sd b))
      = snd (spec_poll (sub_abs c queue closed (subscribers w (sb_sub b)) (sds w (sb_sd b))))
    \<and> (case fst (spec_poll (sub_abs c queue closed (subscribers w (sb_sub b)) (sds w (sb_sd b)))) of
         Pending \<Rightarrow> \<not> fin \<and> calls w' = calls w \<and> ctxs w' = ctxs w
       | Ready None \<Rightarrow> fin \<and> calls w' = calls w @ [(h, CMessage null)] \<and> ctxs w' = (ctxs w)(ctx := None)
       | Ready (Some m) \<Rightarrow> fin \<and> calls w' = calls w @ [(h, CMessage (brk w))]
           \<and> msgs w' = (msgs w)(brk w \<mapsto> message_into m) \<and> ctxs w' = (ctxs w)(ctx := None))"
  by (rule receive_outcome [OF assms])

text \<open>A world with a subscription that has one message queued, and a receiving task.\<close>

definition ex_dw :: "(nats_message list \<times> bool) dw" where
  "ex_dw = aw.extend (ex_aw\<lparr>brk := 8, subs := [5 \<mapsto> ex_sub], ctxs := [7 \<mapsto> 3], pending := [(TReceive 5 7, True)]\<rparr>)
     \<lparr>subscribers = (\<lambda>_. ([ex_message], False))\<rparr>"

lemma ex_dw_simps [simp]:
  "brk ex_dw = 8" "subs ex_dw = [5 \<mapsto> ex_sub]" "ctxs ex_dw = [7 \<mapsto> 3]" "pending ex_dw = [(TReceive 5 7, True)]"
  "subscribers ex_dw = (\<lambda>_. ([ex_message], False))" "sds ex_dw = (\<lambda>_. [])" "calls ex_dw = []" "droppers ex_dw = []"
  by (simp_all add: ex_dw_def aw.defs ex_aw_def sw.defs ex_sw_def nw.defs)

theorem receive_delivers_witness:
  "\<exists>w'. receive_poll ex_crates 5 7 ex_dw = Some (Inr (True, w')) \<and> calls w' = [(3, CMessage 8)]
    \<and> map_option am_msg (msgs w' 8) = Some ex_message"
proof -
  have t: "sub_abs ex_crates fst snd (subscribers ex_dw (sb_sub ex_sub)) (sds ex_dw (sb_sd ex_sub))
      = ([ex_message], False, False)"
    by (simp add: sub_abs_def ex_crates_def)
  have w: "0 < length (pending ex_dw)" "pending ex_dw ! 0 = (TReceive 5 7, True)" "(5 :: ptr) \<noteq> null"
    "subs ex_dw 5 = Some ex_sub" "(7 :: ptr) \<noteq> null" "ctxs ex_dw 7 = Some 3"
    by simp_all
  show ?thesis
    using receive_delivers [OF ex_crates_laws w, unfolded t] by (auto simp: message_into_def)
qed

text \<open>
  The task of a deleted subscription closes its subscriber (when the client accepts the command),
  keeps what is queued, drops the subscription, and leaves every pending task, context and call alone;
  the remaining deleted subscriptions keep theirs. A token that outlives the subscription can still be
  used.
\<close>

theorem dropper_closes:
  assumes "subscriber_laws c queue closed" "can_unsubscribe c" "k < length (droppers w)"
    and "tkobjs w i = Some p" "p \<noteq> null" "tokens w p = Some \<lparr>tk_sd = sb_sd (droppers w ! k)\<rparr>"
  shows "let b = droppers w ! k; w' = run_dropper c k w in
    closed (subscribers w' (sb_sub b)) \<and> queue (subscribers w' (sb_sub b)) = queue (subscribers w (sb_sub b))
    \<and> add_mset b (mset (droppers w')) = mset (droppers w) \<and> apath w [] w'
    \<and> (\<exists>w''. SubscribtionCancellationToken_cancel i w' = Inr ((), w''))"
proof -
  let ?b = "droppers w ! k" and ?w = "run_dropper c k w"
  have "astep w None ?w" by (rule astep.other) (simp_all add: run_dropper_def Let_def)
  then have "apath w ([] @ (case None of None \<Rightarrow> [] | Some h \<Rightarrow> [h])) ?w"
    by (intro apath.step [OF apath.refl])
  then have path: "apath w [] ?w" by simp
  have "token_for ?w (sb_sd ?b) i" "tkobjs ?w i \<noteq> Some null"
    using assms(4-6) by (simp_all add: token_for_def run_dropper_def Let_def)
  then have "\<exists>w''. SubscribtionCancellationToken_cancel i ?w = Inr ((), w'')"
    using cancel_sends by blast
  moreover have "droppers w = take k (droppers w) @ ?b # drop (Suc k) (droppers w)"
    using assms(3) by (simp add: id_take_nth_drop)
  then have "mset (droppers w) = add_mset ?b (mset (take k (droppers w) @ drop (Suc k) (droppers w)))"
    by (metis mset_append mset.simps(2) union_mset_add_mset_right)
  moreover have "closed (subscribers ?w (sb_sub ?b)) \<and> queue (subscribers ?w (sb_sub ?b)) = queue (subscribers w (sb_sub ?b))"
    using subscriber_lawsD(3,4) [OF assms(1), of "subscribers w (sb_sub ?b)"] assms(2)
    by (simp add: run_dropper_def Let_def can_unsubscribe_def)
  ultimately show ?thesis using path by (simp add: Let_def run_dropper_def)
qed

theorem dropper_closes_witness:
  "snd (subscribers (run_dropper ex_crates 0
      (ex_dw\<lparr>droppers := [ex_sub], tokens := [4 \<mapsto> \<lparr>tk_sd = 6\<rparr>], tkobjs := [0 \<mapsto> 4]\<rparr>)) 1)"
  using dropper_closes [OF ex_crates_laws(1,3), of 0
      "ex_dw\<lparr>droppers := [ex_sub], tokens := [4 \<mapsto> \<lparr>tk_sd = 6\<rparr>], tkobjs := [0 \<mapsto> 4]\<rparr>" 0 4]
  by (simp add: Let_def ex_sub_def)

end
