(* ===== verification/Receiver.thy ===== *)
theory Receiver
  imports Delivery
begin

text \<open>
  The non-blocking receiver: include/async\_nats/nonblocking/receiver.hpp and
  rust/src/named\_receiver.rs. A receiver takes a subscription over: a task pops its messages and
  offers each to a bounded channel of the crossbeam crate, dropping it when the channel is full; the
  receiver objects, which are copies of one another, take messages from that channel. The channel is
  a parameter with its documented behaviour as named laws.
\<close>

subsection \<open>The channel of the crossbeam crate\<close>

text \<open>
  \<open>bounded\<close>, \<open>Sender::try_send\<close> (its result is discarded), \<open>Receiver::try_recv\<close>, a poll of the
  blocking \<open>Receiver::recv\<close> (\<open>Pending\<close>: the thread stays blocked), \<open>Receiver::clone\<close> and the drops
  of a receiver and of the only sender.
\<close>

record 'c chan_ops =
  ch_bounded :: "nat \<Rightarrow> 'c"
  ch_try_send :: "nats_message \<Rightarrow> 'c \<Rightarrow> 'c"
  ch_try_recv :: "'c \<Rightarrow> nats_message option \<times> 'c"
  ch_recv :: "'c \<Rightarrow> nats_message option poll \<times> 'c"
  ch_clone_receiver :: "'c \<Rightarrow> 'c"
  ch_drop_receiver :: "'c \<Rightarrow> 'c"
  ch_drop_sender :: "'c \<Rightarrow> 'c"

text \<open>
  What can be seen of a channel: the messages in it, its capacity, whether the sender is there, the
  number of receivers.
\<close>

record chan_view =
  cv_items :: "nats_message list"
  cv_cap :: nat
  cv_tx :: bool
  cv_rx :: nat

text \<open>
  The documented behaviour of a channel of positive capacity. A channel of capacity 0 hands a message
  over only to a thread that is blocked in \<open>recv\<close>; nothing is assumed of it.
\<close>

definition chan_laws :: "'c chan_ops \<Rightarrow> ('c \<Rightarrow> chan_view) \<Rightarrow> bool" where
  "chan_laws k v \<longleftrightarrow>
     (\<forall>n. 0 < n \<longrightarrow> v (ch_bounded k n) = \<lparr>cv_items = [], cv_cap = n, cv_tx = True, cv_rx = 1\<rparr>)
   \<and> (\<forall>m c. 0 < cv_cap (v c) \<longrightarrow> v (ch_try_send k m c) =
        (if 0 < cv_rx (v c) \<and> length (cv_items (v c)) < cv_cap (v c)
         then v c\<lparr>cv_items := cv_items (v c) @ [m]\<rparr> else v c))
   \<and> (\<forall>c. 0 < cv_cap (v c) \<longrightarrow>
        (case cv_items (v c) of
           [] \<Rightarrow> fst (ch_try_recv k c) = None \<and> v (snd (ch_try_recv k c)) = v c
             \<and> fst (ch_recv k c) = (if cv_tx (v c) then Pending else Ready None) \<and> v (snd (ch_recv k c)) = v c
         | m # ms \<Rightarrow> fst (ch_try_recv k c) = Some m \<and> v (snd (ch_try_recv k c)) = v c\<lparr>cv_items := ms\<rparr>
             \<and> fst (ch_recv k c) = Ready (Some m) \<and> v (snd (ch_recv k c)) = v c\<lparr>cv_items := ms\<rparr>))
   \<and> (\<forall>c. 0 < cv_cap (v c) \<longrightarrow> v (ch_clone_receiver k c) = v c\<lparr>cv_rx := Suc (cv_rx (v c))\<rparr>
        \<and> v (ch_drop_sender k c) = v c\<lparr>cv_tx := False\<rparr>
        \<and> cv_rx (v (ch_drop_receiver k c)) = cv_rx (v c) - 1
        \<and> (1 < cv_rx (v c) \<longrightarrow> v (ch_drop_receiver k c) = v c\<lparr>cv_rx := cv_rx (v c) - 1\<rparr>))"

subsection \<open>State\<close>

record AsyncNatsNamedReceiver =
  nr_receiver :: ptr

text \<open>
  \<open>rchans\<close> are the channels, by address; \<open>pumps\<close> the tasks spawned by \<open>AsyncNatsNamedReceiver::new\<close>
  that have not ended, each with the subscription it owns and the channel it sends to.
\<close>

record ('s, 'c) rw = "'s dw" +
  rchans :: "ptr \<Rightarrow> 'c"
  recvs :: "ptr \<rightharpoonup> AsyncNatsNamedReceiver"
  rvobjs :: "oid \<rightharpoonup> ptr"
  pumps :: "(AsyncNatsSubscribtion \<times> ptr) list"

definition chan_modify :: "ptr \<Rightarrow> ('c \<Rightarrow> 'c) \<Rightarrow> (('s, 'c, 'z) rw_scheme, unit) cm" where
  "chan_modify p f = modify (\<lambda>w. w\<lparr>rchans := (rchans w)(p := f (rchans w p))\<rparr>)"

text \<open>An operation of a channel that returns a value.\<close>

definition chan_call :: "ptr \<Rightarrow> ('c \<Rightarrow> 'r \<times> 'c) \<Rightarrow> (('s, 'c, 'z) rw_scheme, 'r) cm" where
  "chan_call p f = (\<lambda>w. Inr (fst (f (rchans w p)), w\<lparr>rchans := (rchans w)(p := snd (f (rchans w p)))\<rparr>))"

lemma chan_modify_run [cm_simps]:
  "chan_modify p f w = Inr ((), w\<lparr>rchans := (rchans w)(p := f (rchans w p))\<rparr>)"
  by (simp add: chan_modify_def)

lemma chan_call_run [cm_simps]:
  "chan_call p f w = Inr (fst (f (rchans w p)), w\<lparr>rchans := (rchans w)(p := snd (f (rchans w p)))\<rparr>)"
  by (simp add: chan_call_def)

subsection \<open>The C API\<close>

definition AsyncNatsNamedReceiver_new :: "'c chan_ops \<Rightarrow> AsyncNatsSubscribtion \<Rightarrow> nat
    \<Rightarrow> (('s, 'c, 'z) rw_scheme, AsyncNatsNamedReceiver) cm" where
  "AsyncNatsNamedReceiver_new k b capacity =
     bnd (\<lambda>w. Inr (brk w, w\<lparr>brk := Suc (brk w), rchans := (rchans w)(brk w := ch_bounded k capacity)\<rparr>)) (\<lambda>rx.
     sq (modify (pumps_update (\<lambda>l. l @ [(b, rx)]))) (ret \<lparr>nr_receiver = rx\<rparr>))"

definition async_nats_named_receiver_new :: "'c chan_ops \<Rightarrow> ptr \<Rightarrow> u64 \<Rightarrow> (('s, 'c, 'z) rw_scheme, ptr) cm" where
  "async_nats_named_receiver_new k s capacity =
     bnd (box_from_raw subs subs_update s) (\<lambda>b.
     bnd (AsyncNatsNamedReceiver_new k b (unat capacity)) (\<lambda>r. box_into_raw recvs_update r))"

definition async_nats_named_receiver_clone :: "'c chan_ops \<Rightarrow> ptr \<Rightarrow> (('s, 'c, 'z) rw_scheme, ptr) cm" where
  "async_nats_named_receiver_clone k r =
     bnd (deref recvs r) (\<lambda>b.
     sq (chan_modify (nr_receiver b) (ch_clone_receiver k)) (box_into_raw recvs_update b))"

definition async_nats_named_receiver_delete :: "'c chan_ops \<Rightarrow> ptr \<Rightarrow> (('s, 'c, 'z) rw_scheme, unit) cm" where
  "async_nats_named_receiver_delete k r =
     bnd (box_from_raw recvs recvs_update r) (\<lambda>b. chan_modify (nr_receiver b) (ch_drop_receiver k))"

definition async_nats_named_receiver_try_recv :: "'c chan_ops \<Rightarrow> ptr \<Rightarrow> (('s, 'c, 'z) rw_scheme, ptr) cm" where
  "async_nats_named_receiver_try_recv k r =
     bnd (deref recvs r) (\<lambda>b.
     bnd (chan_call (nr_receiver b) (ch_try_recv k)) (\<lambda>x.
     case x of None \<Rightarrow> ret null | Some msg \<Rightarrow> box_into_raw msgs_update (message_into msg)))"

text \<open>\<open>Pending\<close>: the call has not returned.\<close>

definition async_nats_named_receiver_recv :: "'c chan_ops \<Rightarrow> ptr \<Rightarrow> (('s, 'c, 'z) rw_scheme, ptr poll) cm" where
  "async_nats_named_receiver_recv k r =
     bnd (deref recvs r) (\<lambda>b.
     bnd (chan_call (nr_receiver b) (ch_recv k)) (\<lambda>x.
     case x of
       Pending \<Rightarrow> ret Pending
     | Ready None \<Rightarrow> ret (Ready null)
     | Ready (Some msg) \<Rightarrow> bnd (box_into_raw msgs_update (message_into msg)) (\<lambda>p. ret (Ready p))))"

subsection \<open>The task\<close>

text \<open>
  One iteration of the loop of task \<open>i\<close>. At the end of the subscription the task returns: it drops
  the subscription with the receiver of its cancellation channel, and the sender of the message
  channel.
\<close>

definition pump_step :: "'s crates \<Rightarrow> 'c chan_ops \<Rightarrow> nat \<Rightarrow> ('s, 'c, 'z) rw_scheme
    \<Rightarrow> (fault + ('s, 'c, 'z) rw_scheme) option" where
  "pump_step c k i w =
     (case pumps w ! i of (b, tx) \<Rightarrow>
        (case subscribtion_pop c b w of
           None \<Rightarrow> None
         | Some (Inl e) \<Rightarrow> Some (Inl e)
         | Some (Inr (Pending, w1)) \<Rightarrow> Some (Inr w1)
         | Some (Inr (Ready None, w1)) \<Rightarrow>
             Some (Inr (w1\<lparr>pumps := take i (pumps w1) @ drop (Suc i) (pumps w1),
                           sds := (sds w1)(sb_sd b := sds w1 (sb_sd b) @ [SdClose]),
                           rchans := (rchans w1)(tx := ch_drop_sender k (rchans w1 tx))\<rparr>))
         | Some (Inr (Ready (Some msg), w1)) \<Rightarrow>
             Some (Inr (w1\<lparr>rchans := (rchans w1)(tx := ch_try_send k msg (rchans w1 tx))\<rparr>))))"

subsection \<open>Receiver\<close>

definition Receiver_default_capacity :: u64 where
  "Receiver_default_capacity = 128"

definition Receiver_ctor :: "'c chan_ops \<Rightarrow> oid \<Rightarrow> oid \<Rightarrow> u64 \<Rightarrow> (('s, 'c, 'z) rw_scheme, unit) cm" where
  "Receiver_ctor k this sub capacity =
     bnd (Subscribtion_release_raw sub) (\<lambda>s.
     bnd (async_nats_named_receiver_new k s capacity) (\<lambda>r. obj_put rvobjs_update this r))"

definition Receiver_init :: "oid \<Rightarrow> ptr \<Rightarrow> (('s, 'c, 'z) rw_scheme, unit) cm" where
  "Receiver_init this r = obj_put rvobjs_update this r"

definition Receiver_copy_ctor :: "'c chan_ops \<Rightarrow> oid \<Rightarrow> oid \<Rightarrow> (('s, 'c, 'z) rw_scheme, unit) cm" where
  "Receiver_copy_ctor k this o' =
     bnd (obj_get rvobjs o') (\<lambda>q.
     bnd (async_nats_named_receiver_clone k q) (\<lambda>r. obj_put rvobjs_update this r))"

definition Receiver_move_ctor :: "oid \<Rightarrow> oid \<Rightarrow> (('s, 'c, 'z) rw_scheme, unit) cm" where
  "Receiver_move_ctor this o' =
     bnd (obj_get rvobjs o') (\<lambda>q. sq (obj_put rvobjs_update this q) (obj_put rvobjs_update o' null))"

definition Receiver_dtor :: "'c chan_ops \<Rightarrow> oid \<Rightarrow> (('s, 'c, 'z) rw_scheme, unit) cm" where
  "Receiver_dtor k this =
     bnd (obj_get rvobjs this) (\<lambda>p.
     sq (whenM (p \<noteq> null) (async_nats_named_receiver_delete k p)) (obj_end rvobjs_update this))"

definition Receiver_copy_assign :: "'c chan_ops \<Rightarrow> oid \<Rightarrow> oid \<Rightarrow> (('s, 'c, 'z) rw_scheme, unit) cm" where
  "Receiver_copy_assign k this o' =
     (if this = o' then ret ()
      else bnd (obj_get rvobjs this) (\<lambda>p.
           sq (whenM (p \<noteq> null) (async_nats_named_receiver_delete k p))
           (bnd (obj_get rvobjs o') (\<lambda>q.
            bnd (async_nats_named_receiver_clone k q) (\<lambda>r. obj_put rvobjs_update this r)))))"

definition Receiver_move_assign :: "'c chan_ops \<Rightarrow> oid \<Rightarrow> oid \<Rightarrow> (('s, 'c, 'z) rw_scheme, unit) cm" where
  "Receiver_move_assign k this o' =
     (if this = o' then ret ()
      else bnd (obj_get rvobjs this) (\<lambda>p.
           sq (whenM (p \<noteq> null) (async_nats_named_receiver_delete k p))
           (bnd (obj_get rvobjs o') (\<lambda>q.
            sq (obj_put rvobjs_update this q) (obj_put rvobjs_update o' null)))))"

text \<open>The result is the \<open>Message\<close> object \<open>res\<close>. \<open>False\<close>: \<open>receive\<close> has not returned.\<close>

definition Receiver_receive :: "'c chan_ops \<Rightarrow> oid \<Rightarrow> oid \<Rightarrow> (('s, 'c, 'z) rw_scheme, bool) cm" where
  "Receiver_receive k this res =
     bnd (obj_get rvobjs this) (\<lambda>r.
     bnd (async_nats_named_receiver_recv k r) (\<lambda>x.
     case x of Pending \<Rightarrow> ret False | Ready p \<Rightarrow> sq (Message_from_raw res p) (ret True)))"

definition Receiver_try_receive :: "'c chan_ops \<Rightarrow> oid \<Rightarrow> oid \<Rightarrow> (('s, 'c, 'z) rw_scheme, unit) cm" where
  "Receiver_try_receive k this res =
     bnd (obj_get rvobjs this) (\<lambda>r.
     bnd (async_nats_named_receiver_try_recv k r) (\<lambda>p. Message_from_raw res p))"

definition Receiver_class :: "'c chan_ops \<Rightarrow> ('s, 'c, 'z) rw_scheme hclass" where
  "Receiver_class k =
     \<lparr>h_adopt = Receiver_init, h_move = Receiver_move_ctor, h_move_assign = Receiver_move_assign k,
      h_dtor = Receiver_dtor k, h_copy = Receiver_copy_ctor k, h_copy_assign = Receiver_copy_assign k\<rparr>"

lemmas Receiver_defs = Receiver_init_def Receiver_copy_ctor_def Receiver_move_ctor_def Receiver_dtor_def
  Receiver_copy_assign_def Receiver_move_assign_def Receiver_class_def async_nats_named_receiver_clone_def
  async_nats_named_receiver_delete_def

text \<open>The class leaves everything but its boxes, objects and channels alone.\<close>

definition receiver_keep :: "('s, 'c, 'z) rw_scheme \<Rightarrow> ('s, 'c, 'z) rw_scheme" where
  "receiver_keep w = w\<lparr>brk := 0, recvs := Map.empty, rvobjs := Map.empty, rchans := undefined\<rparr>"

interpretation rv: value_handle recvs rvobjs rvobjs_update "async_nats_named_receiver_delete k"
  "async_nats_named_receiver_clone k" receiver_keep "Receiver_class k" True for k
  by unfold_locales (simp add: receiver_keep_def Receiver_defs idiom_defs cm_simps; fail)+

subsection \<open>Channels count their receivers\<close>

abbreviation recv_chan :: "('s, 'c, 'z) rw_scheme \<Rightarrow> ptr \<rightharpoonup> ptr" where
  "recv_chan w \<equiv> (\<lambda>p. map_option nr_receiver (recvs w p))"

text \<open>
  A channel that some receiver box refers to counts exactly the boxes that do. (Addresses of boxes
  play the part of objects in \<open>holds\<close>.)
\<close>

definition rx_inv :: "('c \<Rightarrow> chan_view) \<Rightarrow> ('s, 'c, 'z) rw_scheme \<Rightarrow> bool" where
  "rx_inv v w \<longleftrightarrow> heap_ok (recvs w) (brk w) \<and> (\<forall>c. 0 < holds (recv_chan w) c \<longrightarrow>
     0 < cv_cap (v (rchans w c)) \<and> cv_rx (v (rchans w c)) = holds (recv_chan w) c)"

text \<open>A channel that has receivers in \<open>w'\<close> had them in \<open>w\<close> and holds the same messages.\<close>

definition same_items :: "('c \<Rightarrow> chan_view) \<Rightarrow> ('s, 'c, 'z) rw_scheme \<Rightarrow> ('s, 'c, 'z) rw_scheme \<Rightarrow> bool" where
  "same_items v w w' \<longleftrightarrow> (\<forall>c. 0 < holds (recv_chan w') c \<longrightarrow> 0 < holds (recv_chan w) c
     \<and> cv_items (v (rchans w' c)) = cv_items (v (rchans w c)) \<and> cv_tx (v (rchans w' c)) = cv_tx (v (rchans w c)))"

lemma same_items_refl: "same_items v w w"
  by (simp add: same_items_def)

lemma same_items_trans: "same_items v w w1 \<Longrightarrow> same_items v w1 w2 \<Longrightarrow> same_items v w w2"
  unfolding same_items_def by metis

lemma rx_frame:
  assumes "recvs w' = recvs w" "rchans w' = rchans w" "brk w' = brk w"
  shows "rx_inv v w' = rx_inv v w" "same_items v u w' = same_items v u w"
  using assms by (simp_all add: rx_inv_def same_items_def)

lemma recv_dom: "heap_ok (recvs w) b \<Longrightarrow> finite (dom (recv_chan w))"
  using heap_ok_finite [of "recvs w"] by (auto simp: dom_def elim: rev_finite_subset)

lemma receiver_delete_rx:
  assumes "chan_laws k v" "rx_inv v w" "async_nats_named_receiver_delete k p w = Inr ((), w')"
  shows "rx_inv v w' \<and> same_items v w w'"
proof -
  obtain b where b: "recvs w p = Some b"
    and w': "w' = w\<lparr>recvs := (recvs w)(p := None),
      rchans := (rchans w)(nr_receiver b := ch_drop_receiver k (rchans w (nr_receiver b)))\<rparr>"
    using assms(3) by (auto simp: async_nats_named_receiver_delete_def cm_simps split: if_splits option.splits)
  let ?m = "recv_chan w" and ?c = "nr_receiver b"
  have fin: "finite (dom ?m)" using assms(2) recv_dom by (auto simp: rx_inv_def)
  have m: "recv_chan w' = ?m(p := None)" by (auto simp: w')
  have n: "holds (?m(p := None)) c + (if c = ?c then 1 else 0) = holds ?m c" for c
    using holds_update [OF fin, of p None c] b by (auto split: if_splits)
  have c: "0 < holds ?m ?c" using n [of ?c] by simp
  then have v: "0 < cv_cap (v (rchans w ?c))" "cv_rx (v (rchans w ?c)) = holds ?m ?c"
    using assms(2) by (auto simp: rx_inv_def)
  have drop: "v (ch_drop_receiver k (rchans w ?c)) = v (rchans w ?c)\<lparr>cv_rx := cv_rx (v (rchans w ?c)) - 1\<rparr>"
    if "1 < holds ?m ?c"
    using assms(1) v that by (simp add: chan_laws_def)
  have heap: "heap_ok (recvs w') (brk w')"
    using assms(2) by (simp add: w' rx_inv_def heap_ok_free)
  have "0 < cv_cap (v (rchans w' c)) \<and> cv_rx (v (rchans w' c)) = holds (recv_chan w') c \<and> 0 < holds ?m c
      \<and> cv_items (v (rchans w' c)) = cv_items (v (rchans w c)) \<and> cv_tx (v (rchans w' c)) = cv_tx (v (rchans w c))"
    if "0 < holds (recv_chan w') c" for c
  proof (cases "c = ?c")
    case True
    then have "holds ?m ?c = Suc (holds (recv_chan w') ?c)" using n [of ?c] m by simp
    with that True drop v show ?thesis by (simp add: w')
  next
    case False
    then show ?thesis using that n [of c] m assms(2) by (simp add: w' rx_inv_def)
  qed
  with heap show ?thesis by (simp add: rx_inv_def same_items_def)
qed

lemma receiver_clone_rx:
  assumes "chan_laws k v" "rx_inv v w" "async_nats_named_receiver_clone k p w = Inr (q, w')"
  shows "rx_inv v w' \<and> same_items v w w'"
proof -
  obtain b where b: "recvs w p = Some b"
    and w': "w' = w\<lparr>brk := Suc (brk w), recvs := (recvs w)(brk w \<mapsto> b),
      rchans := (rchans w)(nr_receiver b := ch_clone_receiver k (rchans w (nr_receiver b)))\<rparr>"
    using assms(3) by (auto simp: async_nats_named_receiver_clone_def cm_simps split: if_splits option.splits)
  let ?m = "recv_chan w" and ?c = "nr_receiver b"
  have heap: "heap_ok (recvs w) (brk w)" using assms(2) by (simp add: rx_inv_def)
  have fin: "finite (dom ?m)" using recv_dom [OF heap] .
  have m: "recv_chan w' = ?m(brk w \<mapsto> ?c)" by (auto simp: w')
  have n: "holds (?m(brk w \<mapsto> ?c)) c = holds ?m c + (if ?c = c then 1 else 0)" for c
    using holds_new [OF fin, of "brk w" ?c c] heap_ok_fresh [OF heap] by simp
  have pos: "0 < holds ?m ?c" using holds_pos [OF fin, of p ?c] b by simp
  then have v: "0 < cv_cap (v (rchans w ?c))" "cv_rx (v (rchans w ?c)) = holds ?m ?c"
    using assms(2) by (auto simp: rx_inv_def)
  have cl: "v (ch_clone_receiver k (rchans w ?c)) = v (rchans w ?c)\<lparr>cv_rx := Suc (cv_rx (v (rchans w ?c)))\<rparr>"
    using assms(1) v by (simp add: chan_laws_def)
  have "0 < cv_cap (v (rchans w' c)) \<and> cv_rx (v (rchans w' c)) = holds (recv_chan w') c \<and> 0 < holds ?m c
      \<and> cv_items (v (rchans w' c)) = cv_items (v (rchans w c)) \<and> cv_tx (v (rchans w' c)) = cv_tx (v (rchans w c))"
    if "0 < holds (recv_chan w') c" for c
  proof (cases "c = ?c")
    case True
    then show ?thesis using pos v cl n [of ?c] m by (simp add: w')
  next
    case False
    then show ?thesis using that n [of c] m assms(2) by (simp add: w' rx_inv_def)
  qed
  moreover have "heap_ok (recvs w') (brk w')" using heap by (simp add: w' heap_ok_new)
  ultimately show ?thesis by (simp add: rx_inv_def same_items_def)
qed

lemma rx_rvobjs:
  "rx_inv v (rvobjs_update f w) = rx_inv v w" "same_items v u (rvobjs_update f w) = same_items v u w"
  by (rule rx_frame; simp)+

lemma receiver_hstep_rx:
  assumes "chan_laws k v" "rx_inv v w" "hstep (Receiver_class k) x w = Inr ((), w')"
  shows "rx_inv v w' \<and> same_items v w w'"
proof -
  have del: "rx_inv v w1 \<and> same_items v w w1"
    if "whenM (0 < p) (async_nats_named_receiver_delete k p) w = Inr ((), w1)" for p w1
    using that assms(2) same_items_refl receiver_delete_rx [OF assms(1,2)]
    by (auto simp: whenM_run split: if_splits)
  have cl: "rx_inv v w2 \<and> same_items v w w2"
    if "async_nats_named_receiver_clone k p w1 = Inr (q, w2)" "rx_inv v w1" "same_items v w w1" for p q w1 w2
    using receiver_clone_rx [OF assms(1) that(2,1)] same_items_trans [OF that(3)] by blast
  show ?thesis
    using assms(2,3) same_items_refl [of v w]
    by (cases x;
      auto simp: Receiver_class_def Receiver_init_def Receiver_move_ctor_def Receiver_move_assign_def
        Receiver_dtor_def Receiver_copy_ctor_def Receiver_copy_assign_def bnd_run sq_run obj_get_run
        obj_put_run obj_end_run rx_rvobjs split: sum.splits option.splits if_splits; blast dest: del cl)
qed

lemma receiver_hrun_rx:
  "chan_laws k v \<Longrightarrow> rx_inv v w \<Longrightarrow> hrun (Receiver_class k) xs w = Inr ((), w') \<Longrightarrow>
    rx_inv v w' \<and> same_items v w w'"
proof (induction xs arbitrary: w)
  case Nil
  then show ?case by (simp add: same_items_refl)
next
  case (Cons x xs)
  then obtain w1 where w1: "hstep (Receiver_class k) x w = Inr ((), w1)" "hrun (Receiver_class k) xs w1 = Inr ((), w')"
    by (auto simp: sq_run split: sum.splits)
  with Cons.IH [of w1] receiver_hstep_rx [OF Cons.prems(1,2) w1(1)] Cons.prems(1)
  show ?case using same_items_trans by blast
qed

subsection \<open>The pipeline\<close>

text \<open>
  What happens to one receiver's messages: they arrive at the subscription, the task moves them to the
  channel, some thread takes them out.
\<close>

datatype pipe_event = PSub sub_event | PTake

fun pipe_run :: "'s crates \<Rightarrow> 'c chan_ops \<Rightarrow> pipe_event list \<Rightarrow> 's \<Rightarrow> sd_event list \<Rightarrow> 'c
    \<Rightarrow> (fault + nats_message list \<times> 's \<times> sd_event list \<times> 'c) option" where
  "pipe_run c k [] s l ch = Some (Inr ([], s, l, ch))"
| "pipe_run c k (PSub (Arrive m) # es) s l ch = pipe_run c k es (cr_arrive c m s) l ch"
| "pipe_run c k (PSub CancelReq # es) s l ch = pipe_run c k es s (l @ [SdSend]) ch"
| "pipe_run c k (PSub Poll # es) s l ch =
     (case pop c s l of
        None \<Rightarrow> None
      | Some (Inl e) \<Rightarrow> Some (Inl e)
      | Some (Inr (Ready (Some m), s', l')) \<Rightarrow> pipe_run c k es s' l' (ch_try_send k m ch)
      | Some (Inr (_, s', l')) \<Rightarrow> pipe_run c k es s' l' ch)"
| "pipe_run c k (PTake # es) s l ch =
     (case ch_try_recv k ch of
        (None, ch') \<Rightarrow> pipe_run c k es s l ch'
      | (Some m, ch') \<Rightarrow> map_option (map_sum id (map_prod (\<lambda>ms. m # ms) id)) (pipe_run c k es s l ch'))"

fun sub_events :: "pipe_event list \<Rightarrow> sub_event list" where
  "sub_events [] = []"
| "sub_events (PSub e # es) = e # sub_events es"
| "sub_events (PTake # es) = sub_events es"

lemma chan_lawsD:
  assumes "chan_laws k v" "0 < cv_cap (v ch)"
  shows "v (ch_try_send k m ch) = (if 0 < cv_rx (v ch) \<and> length (cv_items (v ch)) < cv_cap (v ch)
         then v ch\<lparr>cv_items := cv_items (v ch) @ [m]\<rparr> else v ch)"
    and "cv_items (v ch) = [] \<Longrightarrow> \<exists>ch'. ch_try_recv k ch = (None, ch') \<and> v ch' = v ch"
    and "cv_items (v ch) = m # ms \<Longrightarrow> \<exists>ch'. ch_try_recv k ch = (Some m, ch') \<and> v ch' = v ch\<lparr>cv_items := ms\<rparr>"
    and "cv_items (v ch) = [] \<Longrightarrow>
      \<exists>ch'. ch_recv k ch = (if cv_tx (v ch) then Pending else Ready None, ch') \<and> v ch' = v ch"
    and "cv_items (v ch) = m # ms \<Longrightarrow> \<exists>ch'. ch_recv k ch = (Ready (Some m), ch') \<and> v ch' = v ch\<lparr>cv_items := ms\<rparr>"
proof -
  note D = assms(1) [unfolded chan_laws_def]
  show "v (ch_try_send k m ch) = (if 0 < cv_rx (v ch) \<and> length (cv_items (v ch)) < cv_cap (v ch)
         then v ch\<lparr>cv_items := cv_items (v ch) @ [m]\<rparr> else v ch)"
    using D [THEN conjunct2, THEN conjunct1] assms(2) by blast
  note R = D [THEN conjunct2, THEN conjunct2, THEN conjunct1, rule_format, OF assms(2)]
  show "cv_items (v ch) = [] \<Longrightarrow> \<exists>ch'. ch_try_recv k ch = (None, ch') \<and> v ch' = v ch"
    "cv_items (v ch) = m # ms \<Longrightarrow> \<exists>ch'. ch_try_recv k ch = (Some m, ch') \<and> v ch' = v ch\<lparr>cv_items := ms\<rparr>"
    using R by (cases "ch_try_recv k ch"; simp)+
  show "cv_items (v ch) = [] \<Longrightarrow>
      \<exists>ch'. ch_recv k ch = (if cv_tx (v ch) then Pending else Ready None, ch') \<and> v ch' = v ch"
    "cv_items (v ch) = m # ms \<Longrightarrow> \<exists>ch'. ch_recv k ch = (Ready (Some m), ch') \<and> v ch' = v ch\<lparr>cv_items := ms\<rparr>"
    using R by (cases "ch_recv k ch"; simp)+
qed

lemma pop_message:
  assumes "subscriber_laws c queue closed" "channel_laws c" "can_unsubscribe c"
  shows "\<exists>r s' l'. pop c s l = Some (Inr (r, s', l')) \<and> (closed s \<longrightarrow> closed s')
    \<and> received [r] @ queue s' = queue s \<and> (l' = l \<or> l' = l @ [SdRecv])"
proof -
  obtain s' l' where p: "pop c s l = Some (Inr (fst (spec_poll (sub_abs c queue closed s l)), s', l'))"
    "sub_abs c queue closed s' l' = snd (spec_poll (sub_abs c queue closed s l))" "l' = l \<or> l' = l @ [SdRecv]"
    using pop_spec [OF assms] by blast
  have "spec_poll (queue s, closed s, cr_ready c l)
      = (fst (spec_poll (sub_abs c queue closed s l)), (queue s', closed s', cr_ready c l'))"
    using p(2) by (simp add: sub_abs_def prod_eq_iff)
  from spec_poll_keeps [OF this] p(1,3) show ?thesis by blast
qed

lemma subseq_skip: "subseq xs (ys @ zs) \<Longrightarrow> subseq xs (ys @ m # zs)"
  by (rule subseq_order.trans [of _ "ys @ zs"]) (auto intro: list_emb_append_mono)

text \<open>
  What one event does: the messages it takes, then those to come after it, are in order among those
  that were to come (\<open>rest\<close> is what arrives later).
\<close>

definition pipe_step_ok where
  "pipe_step_ok queue c k v e es s l ch t s' l' ch' \<longleftrightarrow>
     pipe_run c k (e # es) s l ch
       = map_option (map_sum id (map_prod (\<lambda>ts. t @ ts) id)) (pipe_run c k es s' l' ch')
     \<and> SdClose \<notin> set l' \<and> cv_cap (v ch') = cv_cap (v ch) \<and> length (cv_items (v ch')) \<le> cv_cap (v ch)
     \<and> (\<forall>rest. subseq (t @ cv_items (v ch') @ queue s' @ rest)
          (cv_items (v ch) @ queue s @ arrivals (sub_events [e]) @ rest))"

lemma pipe_id [simp]: "map_option (map_sum id (map_prod (\<lambda>ts. ts) id)) x = x"
  by (simp add: map_prod.id map_sum.id option.map_id flip: id_def)

lemma pipe_take:
  assumes "chan_laws k v" "SdClose \<notin> set l" "0 < cv_cap (v ch)" "length (cv_items (v ch)) \<le> cv_cap (v ch)"
  shows "\<exists>t ch'. pipe_step_ok queue c k v PTake es s l ch t s l ch'"
proof -
  obtain t ch1 where t: "ch_try_recv k ch = (t, ch1)" "cv_cap (v ch1) = cv_cap (v ch)"
      "(case t of None \<Rightarrow> [] | Some m \<Rightarrow> [m]) @ cv_items (v ch1) = cv_items (v ch)"
    using chan_lawsD(2,3) [OF assms(1,3)] by (cases "cv_items (v ch)") force+
  have "pipe_run c k (PTake # es) s l ch = map_option (map_sum id (map_prod
      (\<lambda>ts. (case t of None \<Rightarrow> [] | Some m \<Rightarrow> [m]) @ ts) id)) (pipe_run c k es s l ch1)"
    using t(1) by (cases t) simp_all
  moreover have "length (cv_items (v ch1)) \<le> cv_cap (v ch)"
    using assms(4) by (simp flip: t(3))
  ultimately show ?thesis
    using t(2) assms(2)
    by (intro exI [of _ "case t of None \<Rightarrow> [] | Some m \<Rightarrow> [m]"] exI [of _ ch1])
      (simp add: pipe_step_ok_def flip: t(3))
qed

lemma pipe_poll:
  assumes "subscriber_laws c queue closed" "channel_laws c" "can_unsubscribe c" "chan_laws k v"
    and "SdClose \<notin> set l" "0 < cv_cap (v ch)" "length (cv_items (v ch)) \<le> cv_cap (v ch)"
  shows "\<exists>s' l' ch'. pipe_step_ok queue c k v (PSub Poll) es s l ch [] s' l' ch'"
proof -
  obtain r s1 l1 where p: "pop c s l = Some (Inr (r, s1, l1))" "received [r] @ queue s1 = queue s"
      "l1 = l \<or> l1 = l @ [SdRecv]"
    using pop_message [OF assms(1-3)] by blast
  let ?ch = "case r of Ready (Some m) \<Rightarrow> ch_try_send k m ch | _ \<Rightarrow> ch"
  have run: "pipe_run c k (PSub Poll # es) s l ch = pipe_run c k es s1 l1 ?ch"
    using p(1) by (simp split: poll.splits option.splits)
  have "subseq (cv_items (v ?ch) @ queue s1 @ rest) (cv_items (v ch) @ queue s @ rest)" for rest
    using p(2) chan_lawsD(1) [OF assms(4,6)]
    by (auto split: poll.splits option.splits simp flip: p(2) intro!: list_emb_append_mono)
  moreover have "cv_cap (v ?ch) = cv_cap (v ch)" "length (cv_items (v ?ch)) \<le> cv_cap (v ch)"
    using assms(7) chan_lawsD(1) [OF assms(4,6)] by (auto split: poll.splits option.splits)
  ultimately show ?thesis
    using run p(3) assms(5)
    by (intro exI [of _ s1] exI [of _ l1] exI [of _ ?ch]) (auto simp: pipe_step_ok_def)
qed

lemma pipe_step:
  assumes "subscriber_laws c queue closed" "channel_laws c" "can_unsubscribe c" "chan_laws k v"
    and "SdClose \<notin> set l" "0 < cv_cap (v ch)" "length (cv_items (v ch)) \<le> cv_cap (v ch)"
  shows "\<exists>t s' l' ch'. pipe_step_ok queue c k v e es s l ch t s' l' ch'"
proof -
  have arrive: "pipe_step_ok queue c k v (PSub (Arrive m)) es s l ch [] (cr_arrive c m s) l ch" for m
    using assms(5-7) subscriber_lawsD(5) [OF assms(1), of m s]
    by (auto simp: pipe_step_ok_def intro!: list_emb_append_mono subseq_skip [of _ "[]", simplified])
  have cancel: "pipe_step_ok queue c k v (PSub CancelReq) es s l ch [] s (l @ [SdSend]) ch"
    using assms(5-7) by (simp add: pipe_step_ok_def)
  consider m where "e = PSub (Arrive m)" | "e = PSub CancelReq" | "e = PSub Poll" | "e = PTake"
    by (metis pipe_event.exhaust sub_event.exhaust)
  then show ?thesis
  proof cases
    case 1
    then show ?thesis using arrive by blast
  next
    case 2
    then show ?thesis using cancel by blast
  next
    case 3
    then show ?thesis using pipe_poll [OF assms, of es s] by blast
  next
    case 4
    then show ?thesis using pipe_take [OF assms(4-7), of queue c es s] by blast
  qed
qed

lemma sub_events_Cons: "arrivals (sub_events (e # es)) = arrivals (sub_events [e]) @ arrivals (sub_events es)"
  by (cases "e # es" rule: sub_events.cases; simp) (metis append_Cons append_Nil arrivals.simps sub_event.exhaust)

lemma pipe_in_order:
  assumes "subscriber_laws c queue closed" "channel_laws c" "can_unsubscribe c" "chan_laws k v"
    and "SdClose \<notin> set l" "0 < cv_cap (v ch)" "length (cv_items (v ch)) \<le> cv_cap (v ch)"
  shows "\<exists>ts s' l' ch'. pipe_run c k es s l ch = Some (Inr (ts, s', l', ch'))
    \<and> length (cv_items (v ch')) \<le> cv_cap (v ch)
    \<and> subseq (ts @ cv_items (v ch') @ queue s') (cv_items (v ch) @ queue s @ arrivals (sub_events es))"
  using assms(5-7)
proof (induction es arbitrary: s l ch)
  case Nil
  then show ?case by simp
next
  case (Cons e es)
  obtain t s1 l1 ch1 where e: "pipe_run c k (e # es) s l ch
      = map_option (map_sum id (map_prod (\<lambda>ts. t @ ts) id)) (pipe_run c k es s1 l1 ch1)"
    and l1: "SdClose \<notin> set l1" and c1: "cv_cap (v ch1) = cv_cap (v ch)" "length (cv_items (v ch1)) \<le> cv_cap (v ch)"
    and sub: "\<And>rest. subseq (t @ cv_items (v ch1) @ queue s1 @ rest)
         (cv_items (v ch) @ queue s @ arrivals (sub_events [e]) @ rest)"
    using pipe_step [OF assms(1-4) Cons.prems] unfolding pipe_step_ok_def by blast
  obtain ts s' l' ch' where r: "pipe_run c k es s1 l1 ch1 = Some (Inr (ts, s', l', ch'))"
    "length (cv_items (v ch')) \<le> cv_cap (v ch1)"
    "subseq (ts @ cv_items (v ch') @ queue s') (cv_items (v ch1) @ queue s1 @ arrivals (sub_events es))"
    using Cons.IH [OF l1, of ch1 s1] Cons.prems(2) c1 by auto
  have "subseq ((t @ ts) @ cv_items (v ch') @ queue s')
      (cv_items (v ch) @ queue s @ arrivals (sub_events (e # es)))"
    using subseq_order.trans [OF list_emb_append_mono [OF subseq_order.order_refl r(3), of t]
        sub [of "arrivals (sub_events es)"]]
    by (simp add: sub_events_Cons [of e es])
  with e r c1 show ?case by (intro exI [of _ "t @ ts"] exI [of _ s'] exI [of _ l'] exI [of _ ch']) simp
qed

subsection \<open>Properties\<close>

text \<open>A channel that is what can be seen of it, and a world with a receiver of capacity 2.\<close>

definition ex_chan :: "chan_view chan_ops" where
  "ex_chan =
     \<lparr>ch_bounded = (\<lambda>n. \<lparr>cv_items = [], cv_cap = n, cv_tx = True, cv_rx = 1\<rparr>),
      ch_try_send = (\<lambda>m c. if 0 < cv_rx c \<and> length (cv_items c) < cv_cap c
        then c\<lparr>cv_items := cv_items c @ [m]\<rparr> else c),
      ch_try_recv = (\<lambda>c. case cv_items c of [] \<Rightarrow> (None, c) | m # ms \<Rightarrow> (Some m, c\<lparr>cv_items := ms\<rparr>)),
      ch_recv = (\<lambda>c. case cv_items c of [] \<Rightarrow> (if cv_tx c then Pending else Ready None, c)
        | m # ms \<Rightarrow> (Ready (Some m), c\<lparr>cv_items := ms\<rparr>)),
      ch_clone_receiver = (\<lambda>c. c\<lparr>cv_rx := Suc (cv_rx c)\<rparr>),
      ch_drop_receiver = (\<lambda>c. c\<lparr>cv_rx := cv_rx c - 1\<rparr>),
      ch_drop_sender = (\<lambda>c. c\<lparr>cv_tx := False\<rparr>)\<rparr>"

lemma ex_chan_laws: "chan_laws ex_chan id"
  by (auto simp: chan_laws_def ex_chan_def split: list.splits)

definition ex_rw :: "(nats_message list \<times> bool, chan_view) rw" where
  "ex_rw = dw.extend (ex_dw\<lparr>brk := 12, subs := Map.empty\<rparr>)
     \<lparr>rchans = (\<lambda>_. \<lparr>cv_items = [], cv_cap = 2, cv_tx = True, cv_rx = 1\<rparr>), recvs = [10 \<mapsto> \<lparr>nr_receiver = 9\<rparr>],
      rvobjs = Map.empty, pumps = [(ex_sub, 9)]\<rparr>"

lemma ex_rw_simps [simp]:
  "brk ex_rw = 12" "recvs ex_rw = [10 \<mapsto> \<lparr>nr_receiver = 9\<rparr>]" "rvobjs ex_rw = Map.empty" "pumps ex_rw = [(ex_sub, 9)]"
  "rchans ex_rw = (\<lambda>_. \<lparr>cv_items = [], cv_cap = 2, cv_tx = True, cv_rx = 1\<rparr>)"
  "subscribers ex_rw = (\<lambda>_. ([ex_message], False))" "sds ex_rw = (\<lambda>_. [])" "subs ex_rw = Map.empty"
  by (simp_all add: ex_rw_def dw.defs ex_dw_def aw.defs ex_aw_def sw.defs ex_sw_def nw.defs)

text \<open>
  C24: programs over \<open>Receiver\<close> objects refine the machine of receiver values: a copy is a receiver of
  the same channel, copying a moved-from receiver dereferences null, no box is left when no object
  is. The channel always counts the receivers there are, and as long as one is there, copying, moving
  and destroying the others changes neither the messages queued nor the connection to the task.
\<close>

theorem receiver_refines:
  assumes "vrel recvs rvobjs receiver_keep F t w" "chan_laws k v" "rx_inv v w"
    and "vrun True (\<lambda>_ :: unit. Inr None) (\<lambda>_ :: unit. Inr) t (map VOp xs) = Some res"
  shows "case res of Inl e \<Rightarrow> hrun (Receiver_class k) xs w = Inl e
    | Inr t' \<Rightarrow> \<exists>w'. hrun (Receiver_class k) xs w = Inr ((), w') \<and> vrel recvs rvobjs receiver_keep F t' w'
        \<and> rx_inv v w' \<and> same_items v w w' \<and> (t' = (Map.empty, Map.empty) \<longrightarrow> recvs w' = Map.empty)"
proof (cases res)
  case (Inl e)
  with rv.vops_refine [OF assms(1,4)] show ?thesis by simp
next
  case (Inr t')
  then obtain w' where w': "hrun (Receiver_class k) xs w = Inr ((), w')" "vrel recvs rvobjs receiver_keep F t' w'"
    using rv.vops_refine [OF assms(1,4), of k] by auto
  with receiver_hrun_rx [OF assms(2,3) w'(1)] Inr owns_no_leak show ?thesis
    by (auto simp: vrel_def)
qed

theorem receiver_refines_witness:
  "(\<exists>w'. hrun (Receiver_class ex_chan) [HAdopt 0 10, HCopy 1 0, HDestroy 0] ex_rw = Inr ((), w') \<and> rx_inv id w')
   \<and> hrun (Receiver_class ex_chan) [HAdopt 0 10, HMove 1 0, HCopy 2 0] ex_rw = Inl (UB NullDeref)"
proof -
  let ?t = "(Map.empty, [10 \<mapsto> \<lparr>nr_receiver = 9\<rparr>]) :: AsyncNatsNamedReceiver vstate"
  have rel: "vrel recvs rvobjs receiver_keep (receiver_keep ex_rw) ?t ex_rw"
    by (auto simp: vrel_def own_wf_def heap_ok_def owns_def split: if_splits)
  have "{i. recv_chan ex_rw i = Some c} = (if c = 9 then {10} else {})" for c by auto
  then have inv: "rx_inv id ex_rw"
    by (auto simp: rx_inv_def heap_ok_def holds_def split: if_splits)
  from receiver_refines [OF rel ex_chan_laws inv, of "[HAdopt 0 10, HCopy 1 0, HDestroy 0]"
      "Inr ([1 \<mapsto> Some \<lparr>nr_receiver = 9\<rparr>], Map.empty)"]
    receiver_refines [OF rel ex_chan_laws inv, of "[HAdopt 0 10, HMove 1 0, HCopy 2 0]" "Inl (UB NullDeref)"]
  show ?thesis by (auto simp: fun_eq_iff)
qed



text \<open>
  One iteration of the task. A message popped from the subscription is queued when the channel has
  room and dropped when it is full; at the end of the subscription the task ends and the channel is
  disconnected, with the messages in it still there; otherwise nothing changes.
\<close>

theorem pump_forwards:
  assumes "subscriber_laws c queue closed" "channel_laws c" "can_unsubscribe c" "chan_laws k v"
    and "pumps w ! i = (b, tx)" "0 < cv_cap (v (rchans w tx))" "0 < cv_rx (v (rchans w tx))"
  shows "\<exists>w'. pump_step c k i w = Some (Inr w')
    \<and> (case fst (spec_poll (sub_abs c queue closed (subscribers w (sb_sub b)) (sds w (sb_sd b)))) of
         Pending \<Rightarrow> rchans w' = rchans w \<and> pumps w' = pumps w
       | Ready None \<Rightarrow> v (rchans w' tx) = v (rchans w tx)\<lparr>cv_tx := False\<rparr>
           \<and> pumps w' = take i (pumps w) @ drop (Suc i) (pumps w)
       | Ready (Some m) \<Rightarrow> pumps w' = pumps w \<and> cv_items (v (rchans w' tx)) =
           (if length (cv_items (v (rchans w tx))) < cv_cap (v (rchans w tx))
            then cv_items (v (rchans w tx)) @ [m] else cv_items (v (rchans w tx))))"
proof -
  let ?t = "sub_abs c queue closed (subscribers w (sb_sub b)) (sds w (sb_sd b))"
  obtain s l where p: "subscribtion_pop c b w = Some (Inr (fst (spec_poll ?t),
      w\<lparr>subscribers := (subscribers w)(sb_sub b := s), sds := (sds w)(sb_sd b := l)\<rparr>))"
    using subscribtion_pop_run [OF assms(1-3)] by metis
  have "v (ch_drop_sender k (rchans w tx)) = v (rchans w tx)\<lparr>cv_tx := False\<rparr>"
    using assms(4,6) by (simp add: chan_laws_def)
  then show ?thesis
    using p assms(5,7) chan_lawsD(1) [OF assms(4,6)]
    by (simp add: pump_step_def split: poll.splits option.splits)
qed

theorem pump_forwards_witness:
  "\<exists>w'. pump_step ex_crates ex_chan 0 ex_rw = Some (Inr w') \<and> cv_items (rchans w' 9) = [ex_message]"
proof -
  have t: "sub_abs ex_crates fst snd (subscribers ex_rw (sb_sub ex_sub)) (sds ex_rw (sb_sd ex_sub))
      = ([ex_message], False, False)"
    by (simp add: sub_abs_def ex_crates_def)
  show ?thesis
    using pump_forwards [OF ex_crates_laws ex_chan_laws, of ex_rw 0 ex_sub 9, unfolded t] by auto
qed

text \<open>
  \<open>try_receive\<close> returns the oldest queued message, as a \<open>Message\<close> object with a box of its own,
  or an empty \<open>Message\<close> when none is queued. \<open>receive\<close> does the same when a message is queued; when
  none is it blocks as long as the task is there, and returns an empty \<open>Message\<close> once it has ended.
\<close>

theorem receiver_takes:
  assumes "chan_laws k v" "rvobjs w i = Some r" "r \<noteq> null" "recvs w r = Some b"
    and "0 < cv_cap (v (rchans w (nr_receiver b)))"
  shows "case cv_items (v (rchans w (nr_receiver b))) of
      [] \<Rightarrow> (\<exists>w'. Receiver_try_receive k i j w = Inr ((), w') \<and> mobjs w' = (mobjs w)(j \<mapsto> null) \<and> msgs w' = msgs w)
        \<and> (\<exists>w'. Receiver_receive k i j w = Inr (\<not> cv_tx (v (rchans w (nr_receiver b))), w')
            \<and> (\<not> cv_tx (v (rchans w (nr_receiver b))) \<longrightarrow> mobjs w' = (mobjs w)(j \<mapsto> null)))
    | m # ms \<Rightarrow>
        (\<exists>w'. Receiver_try_receive k i j w = Inr ((), w') \<and> mobjs w' = (mobjs w)(j \<mapsto> brk w)
          \<and> msgs w' = (msgs w)(brk w \<mapsto> message_into m) \<and> cv_items (v (rchans w' (nr_receiver b))) = ms)
        \<and> (\<exists>w'. Receiver_receive k i j w = Inr (True, w') \<and> mobjs w' = (mobjs w)(j \<mapsto> brk w)
          \<and> msgs w' = (msgs w)(brk w \<mapsto> message_into m) \<and> cv_items (v (rchans w' (nr_receiver b))) = ms)"
proof (cases "cv_items (v (rchans w (nr_receiver b)))")
  case Nil
  with chan_lawsD(2,4) [OF assms(1,5) Nil] assms(2-4) show ?thesis
    by (auto simp: Receiver_try_receive_def Receiver_receive_def async_nats_named_receiver_try_recv_def
        async_nats_named_receiver_recv_def Message_from_raw_def cm_simps)
next
  case (Cons m ms)
  with chan_lawsD(3,5) [OF assms(1,5) Cons] assms(2-4) show ?thesis
    by (auto simp: Receiver_try_receive_def Receiver_receive_def async_nats_named_receiver_try_recv_def
        async_nats_named_receiver_recv_def Message_from_raw_def cm_simps)
qed

theorem receiver_takes_witness:
  "\<exists>w'. Receiver_try_receive ex_chan 0 0 (ex_rw\<lparr>rvobjs := [0 \<mapsto> 10],
      rchans := (\<lambda>_. \<lparr>cv_items = [ex_message], cv_cap = 2, cv_tx = True, cv_rx = 1\<rparr>)\<rparr>) = Inr ((), w')
    \<and> map_option am_msg (msgs w' 12) = Some ex_message"
  using receiver_takes [OF ex_chan_laws, of "ex_rw\<lparr>rvobjs := [0 \<mapsto> 10],
      rchans := (\<lambda>_. \<lparr>cv_items = [ex_message], cv_cap = 2, cv_tx = True, cv_rx = 1\<rparr>)\<rparr>" 0 10 "\<lparr>nr_receiver = 9\<rparr>" 0]
  by (auto simp: message_into_def)

text \<open>
  Constructing a \<open>Receiver\<close> empties the \<open>Subscribtion\<close> it is given and hands the subscription
  itself to the task, with a new channel of the requested capacity whose only receiver the new object
  has; from an empty \<open>Subscribtion\<close>, such as that of a failed subscription, it is undefined
  behaviour.
\<close>

theorem receiver_takes_over:
  assumes "chan_laws k v" "0 < unat capacity" "sbobjs w j = Some s" "s \<noteq> null \<longrightarrow> subs w s = Some b" "0 < brk w"
  shows "if s = null then Receiver_ctor k i j capacity w = Inl (UB NullDeref)
    else \<exists>w' r ch. Receiver_ctor k i j capacity w = Inr ((), w') \<and> sbobjs w' = (sbobjs w)(j \<mapsto> null)
      \<and> subs w' = (subs w)(s := None) \<and> rvobjs w' = (rvobjs w)(i \<mapsto> r) \<and> recvs w' = (recvs w)(r \<mapsto> \<lparr>nr_receiver = ch\<rparr>)
      \<and> pumps w' = pumps w @ [(b, ch)] \<and> droppers w' = droppers w
      \<and> v (rchans w' ch) = \<lparr>cv_items = [], cv_cap = unat capacity, cv_tx = True, cv_rx = 1\<rparr>"
proof -
  have "v (ch_bounded k (unat capacity)) = \<lparr>cv_items = [], cv_cap = unat capacity, cv_tx = True, cv_rx = 1\<rparr>"
    using assms(1,2) by (simp add: chan_laws_def)
  then show ?thesis
    using assms(3-5)
    by (auto simp: Receiver_ctor_def Subscribtion_release_raw_def async_nats_named_receiver_new_def
        AsyncNatsNamedReceiver_new_def cm_simps)
qed

theorem receiver_takes_over_witness:
  "Receiver_ctor ex_chan 0 1 Receiver_default_capacity (ex_rw\<lparr>sbobjs := [1 \<mapsto> null]\<rparr>) = Inl (UB NullDeref)
   \<and> (\<exists>w'. Receiver_ctor ex_chan 0 1 Receiver_default_capacity (ex_rw\<lparr>subs := [3 \<mapsto> ex_sub], sbobjs := [1 \<mapsto> 3]\<rparr>) = Inr ((), w')
      \<and> sbobjs w' 1 = Some null)"
  using receiver_takes_over [OF ex_chan_laws, of 128 "ex_rw\<lparr>sbobjs := [1 \<mapsto> null]\<rparr>" 1 null ex_sub 0]
    receiver_takes_over [OF ex_chan_laws, of 128 "ex_rw\<lparr>subs := [3 \<mapsto> ex_sub], sbobjs := [1 \<mapsto> 3]\<rparr>" 1 3 ex_sub 0]
  by (auto simp: Receiver_default_capacity_def)

end
