(* ===== verification/Sender.thy ===== *)
theory Sender
  imports Receiver "HOL-Library.Sublist"
begin

text \<open>
  The non-blocking sender: include/async\_nats/nonblocking/sender.hpp and rust/src/named\_sender.rs.
  Sender objects share an inner state with a semaphore and an unbounded queue; \<open>try_send\<close> queues a
  message when it gets a permit, \<open>send\<close> queues it in any case; a task takes messages from the queue
  and publishes them, and a message's permit is given back when it has been published. The semaphore
  and the queue of the tokio crate are parameters with their documented behaviour as named laws.
\<close>

subsection \<open>State\<close>

record sender_message =
  sm_topic :: "bytes option"
  sm_message :: bytes
  sm_permit :: bool

text \<open>
  The parts of the tokio crate: \<open>Semaphore::new\<close> (\<open>None\<close>: it panics, for more permits than it
  supports), \<open>try_acquire_owned\<close>, the drop of a permit; \<open>unbounded_channel\<close>, \<open>UnboundedSender::send\<close>
  with whether it succeeded, a poll of \<open>recv()\<close>, and the drop of the receiver with the messages
  dropped with it.
\<close>

record ('m, 'q) tokio_ops =
  sem_new :: "nat \<Rightarrow> 'm option"
  sem_try_acquire :: "'m \<Rightarrow> bool \<times> 'm"
  sem_release :: "'m \<Rightarrow> 'm"
  uq_new :: 'q
  uq_send :: "sender_message \<Rightarrow> 'q \<Rightarrow> bool \<times> 'q"
  uq_recv :: "'q \<Rightarrow> sender_message option poll \<times> 'q"
  uq_drop_receiver :: "'q \<Rightarrow> sender_message list \<times> 'q"

text \<open>
  The documented behaviour, over the permits \<open>avail\<close>able, the messages in a queue and whether its
  receiver is there; the laws of a queue are those of one whose sender is there.
\<close>

definition semaphore_laws :: "('m, 'q) tokio_ops \<Rightarrow> ('m \<Rightarrow> nat) \<Rightarrow> bool" where
  "semaphore_laws t avail \<longleftrightarrow>
     (\<forall>n m. sem_new t n = Some m \<longrightarrow> avail m = n)
   \<and> (\<forall>m. fst (sem_try_acquire t m) = (0 < avail m) \<and> avail (snd (sem_try_acquire t m)) = avail m - 1)
   \<and> (\<forall>m. avail (sem_release t m) = Suc (avail m))"

definition queue_laws :: "('m, 'q) tokio_ops \<Rightarrow> ('q \<Rightarrow> sender_message list) \<Rightarrow> ('q \<Rightarrow> bool) \<Rightarrow> bool" where
  "queue_laws t items rx \<longleftrightarrow>
     items (uq_new t) = [] \<and> rx (uq_new t)
   \<and> (\<forall>x q. fst (uq_send t x q) = rx q \<and> rx (snd (uq_send t x q)) = rx q
        \<and> items (snd (uq_send t x q)) = (if rx q then items q @ [x] else items q))
   \<and> (\<forall>q. rx q \<longrightarrow> fst (uq_recv t q) = (case items q of [] \<Rightarrow> Pending | x # _ \<Rightarrow> Ready (Some x))
        \<and> items (snd (uq_recv t q)) = tl (items q) \<and> rx (snd (uq_recv t q)))
   \<and> (\<forall>q. fst (uq_drop_receiver t q) = items q \<and> items (snd (uq_drop_receiver t q)) = []
        \<and> \<not> rx (snd (uq_drop_receiver t q)))"

text \<open>
  \<open>ni_arc\<close> is the strong count of the \<open>Arc\<close> around the inner state; the state is dropped when the
  count falls to 0.
\<close>

record ('m, 'q) NamedSenderInner =
  ni_topic :: bytes
  ni_conn :: AsyncNatsConnection
  ni_sender :: 'q
  ni_sem :: 'm
  ni_arc :: nat

record AsyncNatsNamedSender =
  ns_inner :: ptr

text \<open>The task: waiting for a message, publishing one, or ended.\<close>

datatype sender_task = SIdle | SBusy sender_message | SDead

text \<open>
  The world of the whole library: a program uses senders beside all the classes of the theories
  before.
\<close>

record ('s, 'c, 'm, 'q) xw = "('s, 'c) rw" +
  inners :: "ptr \<Rightarrow> ('m, 'q) NamedSenderInner"
  senders :: "ptr \<rightharpoonup> AsyncNatsNamedSender"
  snobjs :: "oid \<rightharpoonup> ptr"
  sender_tasks :: "(ptr \<times> sender_task) list"
  BYTES_try_send :: "nat \<Rightarrow> bytes"
  BYTES_send :: "nat \<Rightarrow> bytes"

subsection \<open>The inner state\<close>

text \<open>Dropping a message gives its permit back.\<close>

definition drop_message :: "('m, 'q) tokio_ops \<Rightarrow> sender_message \<Rightarrow> 'm \<Rightarrow> 'm" where
  "drop_message t x m = (if sm_permit x then sem_release t m else m)"

text \<open>\<open>sender.send(message).ok()\<close>: a message that is refused is dropped.\<close>

definition inner_enqueue :: "('m, 'q) tokio_ops \<Rightarrow> sender_message \<Rightarrow> ('m, 'q) NamedSenderInner
    \<Rightarrow> ('m, 'q) NamedSenderInner" where
  "inner_enqueue t x n =
     (case uq_send t x (ni_sender n) of (ok, q) \<Rightarrow>
        n\<lparr>ni_sender := q, ni_sem := if ok then ni_sem n else drop_message t x (ni_sem n)\<rparr>)"

definition inner_acquire :: "('m, 'q) tokio_ops \<Rightarrow> ('m, 'q) NamedSenderInner
    \<Rightarrow> bool \<times> ('m, 'q) NamedSenderInner" where
  "inner_acquire t n = (case sem_try_acquire t (ni_sem n) of (ok, m) \<Rightarrow> (ok, n\<lparr>ni_sem := m\<rparr>))"

text \<open>
  The loop of the task up to the publication: what is to be published, with the queue's default
  topic when the message has none. \<open>None\<close>: nothing yet, or the loop has ended.
\<close>

fun task_recv :: "('m, 'q) tokio_ops \<Rightarrow> ('m, 'q) NamedSenderInner \<times> sender_task
    \<Rightarrow> (bytes \<times> bytes) option \<times> ('m, 'q) NamedSenderInner \<times> sender_task" where
  "task_recv t (n, SIdle) =
     (case uq_recv t (ni_sender n) of
        (Pending, q) \<Rightarrow> (None, n\<lparr>ni_sender := q\<rparr>, SIdle)
      | (Ready None, q) \<Rightarrow> (None, n\<lparr>ni_sender := q\<rparr>, SDead)
      | (Ready (Some x), q) \<Rightarrow>
          (Some (case sm_topic x of None \<Rightarrow> ni_topic n | Some tp \<Rightarrow> tp, sm_message x), n\<lparr>ni_sender := q\<rparr>, SBusy x))"
| "task_recv t (n, st) = (None, n, st)"

text \<open>
  The end of the publication: the message, with its permit, is dropped. When the client reports an
  error the \<open>expect\<close> panics and the task ends: the receiver is dropped with all queued messages.
\<close>

fun task_done :: "('m, 'q) tokio_ops \<Rightarrow> bool \<Rightarrow> ('m, 'q) NamedSenderInner \<times> sender_task
    \<Rightarrow> ('m, 'q) NamedSenderInner \<times> sender_task" where
  "task_done t ok (n, SBusy x) =
     (if ok then (n\<lparr>ni_sem := drop_message t x (ni_sem n)\<rparr>, SIdle)
      else (case uq_drop_receiver t (ni_sender n) of (xs, q) \<Rightarrow>
              (n\<lparr>ni_sender := q, ni_sem := fold (drop_message t) xs (drop_message t x (ni_sem n))\<rparr>, SDead)))"
| "task_done t ok (n, st) = (n, st)"

subsection \<open>The C API\<close>

definition inner_store :: "ptr \<Rightarrow> ('m, 'q) NamedSenderInner \<Rightarrow> (('s, 'c, 'm, 'q, 'z) xw_scheme, unit) cm" where
  "inner_store p n = modify (\<lambda>w. w\<lparr>inners := (inners w)(p := n)\<rparr>)"

lemma inner_store_run [cm_simps]: "inner_store p n w = Inr ((), w\<lparr>inners := (inners w)(p := n)\<rparr>)"
  by (simp add: inner_store_def)

definition arc_clone :: "ptr \<Rightarrow> (('s, 'c, 'm, 'q, 'z) xw_scheme, unit) cm" where
  "arc_clone p = bnd (gets (\<lambda>w. inners w p)) (\<lambda>n. inner_store p (n\<lparr>ni_arc := Suc (ni_arc n)\<rparr>))"

definition arc_drop :: "ptr \<Rightarrow> (('s, 'c, 'm, 'q, 'z) xw_scheme, unit) cm" where
  "arc_drop p = bnd (gets (\<lambda>w. inners w p)) (\<lambda>n. inner_store p (n\<lparr>ni_arc := ni_arc n - 1\<rparr>))"

text \<open>One reference is the result's, the other the task's.\<close>

definition with_capacity :: "('m, 'q) tokio_ops \<Rightarrow> bytes \<Rightarrow> AsyncNatsConnection \<Rightarrow> nat
    \<Rightarrow> (('s, 'c, 'm, 'q, 'z) xw_scheme, AsyncNatsNamedSender) cm" where
  "with_capacity t topic conn capacity =
     bnd (expect (sem_new t capacity) ''a semaphore may not have more than MAX_PERMITS permits'') (\<lambda>sem.
     bnd (\<lambda>w. Inr (brk w, w\<lparr>brk := Suc (brk w), inners := (inners w)(brk w :=
       \<lparr>ni_topic = topic, ni_conn = conn, ni_sender = uq_new t, ni_sem = sem, ni_arc = 2\<rparr>)\<rparr>)) (\<lambda>inner.
     sq (modify (sender_tasks_update (\<lambda>l. l @ [(inner, SIdle)]))) (ret \<lparr>ns_inner = inner\<rparr>)))"

definition async_nats_named_sender_new :: "('m, 'q) tokio_ops \<Rightarrow> dptr \<Rightarrow> ptr \<Rightarrow> u64
    \<Rightarrow> (('s, 'c, 'm, 'q, 'z) xw_scheme, ptr) cm" where
  "async_nats_named_sender_new t topic conn capacity =
     bnd (deref conns conn) (\<lambda>c.
     bnd (cstr_lossy_convert topic) (\<lambda>tp.
     bnd (with_capacity t tp c (unat capacity)) (\<lambda>s. box_into_raw senders_update s)))"

definition async_nats_named_sender_clone :: "ptr \<Rightarrow> (('s, 'c, 'm, 'q, 'z) xw_scheme, ptr) cm" where
  "async_nats_named_sender_clone sender =
     bnd (deref senders sender) (\<lambda>s. sq (arc_clone (ns_inner s)) (box_into_raw senders_update s))"

definition async_nats_named_sender_delete :: "ptr \<Rightarrow> (('s, 'c, 'm, 'q, 'z) xw_scheme, unit) cm" where
  "async_nats_named_sender_delete sender =
     bnd (box_from_raw senders senders_update sender) (\<lambda>s. arc_drop (ns_inner s))"

text \<open>The optional topic of a message.\<close>

definition message_topic :: "dptr \<Rightarrow> ('z cw_scheme, bytes option) cm" where
  "message_topic topic =
     (if topic \<noteq> DNull then bnd (cstr_lossy_convert topic) (\<lambda>tp. ret (Some tp)) else ret None)"

definition async_nats_named_sender_try_send :: "('m, 'q) tokio_ops \<Rightarrow> nat \<Rightarrow> ptr \<Rightarrow> dptr \<Rightarrow> dptr \<Rightarrow> u64
    \<Rightarrow> (('s, 'c, 'm, 'q, 'z) xw_scheme, bool) cm" where
  "async_nats_named_sender_try_send t thread sender topic d len =
     bnd (deref senders sender) (\<lambda>s.
     bnd (gets (\<lambda>w. inners w (ns_inner s))) (\<lambda>n.
     case inner_acquire t n of (permit, n1) \<Rightarrow>
     sq (inner_store (ns_inner s) n1)
     (if \<not> permit then ret False
      else bnd (from_raw_parts d (unat len)) (\<lambda>data_slice.
           bnd (bytes_copy BYTES_try_send BYTES_try_send_update thread data_slice) (\<lambda>bytes.
           bnd (message_topic topic) (\<lambda>tp.
           sq (inner_store (ns_inner s)
                (inner_enqueue t \<lparr>sm_topic = tp, sm_message = bytes, sm_permit = True\<rparr> n1))
              (ret True)))))))"

definition async_nats_named_sender_send :: "('m, 'q) tokio_ops \<Rightarrow> nat \<Rightarrow> ptr \<Rightarrow> dptr \<Rightarrow> dptr \<Rightarrow> u64
    \<Rightarrow> (('s, 'c, 'm, 'q, 'z) xw_scheme, unit) cm" where
  "async_nats_named_sender_send t thread sender topic d len =
     bnd (deref senders sender) (\<lambda>s.
     bnd (gets (\<lambda>w. inners w (ns_inner s))) (\<lambda>n.
     case inner_acquire t n of (permit, n1) \<Rightarrow>
     sq (inner_store (ns_inner s) n1)
     (bnd (from_raw_parts d (unat len)) (\<lambda>data_slice.
      bnd (bytes_copy BYTES_send BYTES_send_update thread data_slice) (\<lambda>bytes.
      bnd (message_topic topic) (\<lambda>tp.
      inner_store (ns_inner s)
        (inner_enqueue t \<lparr>sm_topic = tp, sm_message = bytes, sm_permit = permit\<rparr> n1)))))))"

subsection \<open>The task in the world\<close>

definition sender_task_recv :: "('m, 'q) tokio_ops \<Rightarrow> nat \<Rightarrow> (('s, 'c, 'm, 'q, 'z) xw_scheme, unit) cm" where
  "sender_task_recv t i =
     bnd (gets (\<lambda>w. sender_tasks w ! i)) (\<lambda>(p, st).
     bnd (gets (\<lambda>w. inners w p)) (\<lambda>n.
     case task_recv t (n, st) of (out, n1, st1) \<Rightarrow>
     sq (inner_store p n1)
     (sq (modify (sender_tasks_update (\<lambda>l. l[i := (p, st1)])))
     (sq (case out of None \<Rightarrow> ret ()
          | Some (tp, body) \<Rightarrow> hand_over (WPublish (cn_client (ni_conn n)) tp None body))
         (whenM (st = SIdle \<and> st1 = SDead) (arc_drop p))))))"

definition sender_task_done :: "('m, 'q) tokio_ops \<Rightarrow> nat \<Rightarrow> bool \<Rightarrow> (('s, 'c, 'm, 'q, 'z) xw_scheme, unit) cm" where
  "sender_task_done t i ok =
     bnd (gets (\<lambda>w. sender_tasks w ! i)) (\<lambda>(p, st).
     bnd (gets (\<lambda>w. inners w p)) (\<lambda>n.
     case task_done t ok (n, st) of (n1, st1) \<Rightarrow>
     sq (inner_store p n1)
     (sq (modify (sender_tasks_update (\<lambda>l. l[i := (p, st1)])))
         (whenM (st \<noteq> SDead \<and> st1 = SDead) (arc_drop p)))))"

subsection \<open>Sender\<close>

definition Sender_default_capacity :: u64 where
  "Sender_default_capacity = 128"

text \<open>
  The four constructors: from a C string or a \<open>std::string\<close> (whose \<open>c_str()\<close> is the pointer), with
  a capacity or with the default one.
\<close>

definition Sender_ctor :: "('m, 'q) tokio_ops \<Rightarrow> oid \<Rightarrow> dptr \<Rightarrow> oid \<Rightarrow> u64 \<Rightarrow> (('s, 'c, 'm, 'q, 'z) xw_scheme, unit) cm" where
  "Sender_ctor t this topic conn capacity =
     bnd (obj_get cnobjs conn) (\<lambda>c.
     bnd (async_nats_named_sender_new t topic c capacity) (\<lambda>s. obj_put snobjs_update this s))"

definition Sender_ctor_default :: "('m, 'q) tokio_ops \<Rightarrow> oid \<Rightarrow> dptr \<Rightarrow> oid \<Rightarrow> (('s, 'c, 'm, 'q, 'z) xw_scheme, unit) cm" where
  "Sender_ctor_default t this topic conn = Sender_ctor t this topic conn Sender_default_capacity"

definition Sender_init :: "oid \<Rightarrow> ptr \<Rightarrow> (('s, 'c, 'm, 'q, 'z) xw_scheme, unit) cm" where
  "Sender_init this s = obj_put snobjs_update this s"

definition Sender_copy_ctor :: "oid \<Rightarrow> oid \<Rightarrow> (('s, 'c, 'm, 'q, 'z) xw_scheme, unit) cm" where
  "Sender_copy_ctor this o' =
     bnd (obj_get snobjs o') (\<lambda>q.
     bnd (async_nats_named_sender_clone q) (\<lambda>s. obj_put snobjs_update this s))"

definition Sender_move_ctor :: "oid \<Rightarrow> oid \<Rightarrow> (('s, 'c, 'm, 'q, 'z) xw_scheme, unit) cm" where
  "Sender_move_ctor this o' =
     bnd (obj_get snobjs o') (\<lambda>q. sq (obj_put snobjs_update this q) (obj_put snobjs_update o' null))"

definition Sender_dtor :: "oid \<Rightarrow> (('s, 'c, 'm, 'q, 'z) xw_scheme, unit) cm" where
  "Sender_dtor this =
     bnd (obj_get snobjs this) (\<lambda>p.
     sq (whenM (p \<noteq> null) (async_nats_named_sender_delete p)) (obj_end snobjs_update this))"

definition Sender_copy_assign :: "oid \<Rightarrow> oid \<Rightarrow> (('s, 'c, 'm, 'q, 'z) xw_scheme, unit) cm" where
  "Sender_copy_assign this o' =
     (if this = o' then ret ()
      else bnd (obj_get snobjs this) (\<lambda>p.
           sq (whenM (p \<noteq> null) (async_nats_named_sender_delete p))
           (bnd (obj_get snobjs o') (\<lambda>q.
            bnd (async_nats_named_sender_clone q) (\<lambda>s. obj_put snobjs_update this s)))))"

definition Sender_move_assign :: "oid \<Rightarrow> oid \<Rightarrow> (('s, 'c, 'm, 'q, 'z) xw_scheme, unit) cm" where
  "Sender_move_assign this o' =
     (if this = o' then ret ()
      else bnd (obj_get snobjs this) (\<lambda>p.
           sq (whenM (p \<noteq> null) (async_nats_named_sender_delete p))
           (bnd (obj_get snobjs o') (\<lambda>q.
            sq (obj_put snobjs_update this q) (obj_put snobjs_update o' null)))))"

definition Sender_get_raw :: "oid \<Rightarrow> (('s, 'c, 'm, 'q, 'z) xw_scheme, ptr) cm" where
  "Sender_get_raw this = obj_get snobjs this"

text \<open>\<open>topic\<close> is null in the overloads without a topic; \<open>data\<close> is a buffer.\<close>

definition Sender_try_send :: "('m, 'q) tokio_ops \<Rightarrow> nat \<Rightarrow> oid \<Rightarrow> dptr \<Rightarrow> string_view \<Rightarrow> (('s, 'c, 'm, 'q, 'z) xw_scheme, bool) cm" where
  "Sender_try_send t thread this topic data =
     (case data of View d len \<Rightarrow>
      bnd (obj_get snobjs this) (\<lambda>s. async_nats_named_sender_try_send t thread s topic d len))"

definition Sender_send :: "('m, 'q) tokio_ops \<Rightarrow> nat \<Rightarrow> oid \<Rightarrow> dptr \<Rightarrow> string_view \<Rightarrow> (('s, 'c, 'm, 'q, 'z) xw_scheme, unit) cm" where
  "Sender_send t thread this topic data =
     (case data of View d len \<Rightarrow>
      bnd (obj_get snobjs this) (\<lambda>s. async_nats_named_sender_send t thread s topic d len))"

definition Sender_class :: "('s, 'c, 'm, 'q, 'z) xw_scheme hclass" where
  "Sender_class =
     \<lparr>h_adopt = Sender_init, h_move = Sender_move_ctor, h_move_assign = Sender_move_assign,
      h_dtor = Sender_dtor, h_copy = Sender_copy_ctor, h_copy_assign = Sender_copy_assign\<rparr>"

lemmas Sender_defs = Sender_init_def Sender_copy_ctor_def Sender_move_ctor_def Sender_dtor_def
  Sender_copy_assign_def Sender_move_assign_def Sender_class_def async_nats_named_sender_clone_def
  async_nats_named_sender_delete_def arc_clone_def arc_drop_def

text \<open>The class leaves everything but its boxes, objects and the counts of the inner states alone.\<close>

definition sender_keep :: "('s, 'c, 'm, 'q, 'z) xw_scheme \<Rightarrow> ('s, 'c, 'm, 'q, 'z) xw_scheme" where
  "sender_keep w = w\<lparr>brk := 0, senders := Map.empty, snobjs := Map.empty,
     inners := (\<lambda>p. inners w p\<lparr>ni_arc := 0\<rparr>)\<rparr>"

lemma keep_arc [simp]:
  "(\<lambda>p. ((inners w)(c := inners w c\<lparr>ni_arc := k\<rparr>)) p\<lparr>ni_arc := 0\<rparr>) = (\<lambda>p. inners w p\<lparr>ni_arc := 0\<rparr>)"
  by (simp add: fun_eq_iff)

interpretation sn: value_handle senders snobjs snobjs_update async_nats_named_sender_delete
  async_nats_named_sender_clone sender_keep Sender_class True
  by unfold_locales (simp add: sender_keep_def Sender_defs idiom_defs cm_simps del: fun_upd_apply; fail)+

subsection \<open>The inner state counts its owners\<close>

abbreviation sender_inner :: "('s, 'c, 'm, 'q, 'z) xw_scheme \<Rightarrow> ptr \<rightharpoonup> ptr" where
  "sender_inner w \<equiv> (\<lambda>p. map_option ns_inner (senders w p))"

text \<open>The tasks that hold a reference to the inner state at \<open>c\<close>.\<close>

definition tasks_of :: "('s, 'c, 'm, 'q, 'z) xw_scheme \<Rightarrow> ptr \<Rightarrow> nat" where
  "tasks_of w c = length (filter (\<lambda>(p, st). p = c \<and> st \<noteq> SDead) (sender_tasks w))"

definition arc_inv :: "('s, 'c, 'm, 'q, 'z) xw_scheme \<Rightarrow> bool" where
  "arc_inv w \<longleftrightarrow> heap_ok (senders w) (brk w) \<and> (\<forall>c. 0 < holds (sender_inner w) c + tasks_of w c \<longrightarrow>
     ni_arc (inners w c) = holds (sender_inner w) c + tasks_of w c)"

lemma sender_dom: "heap_ok (senders w) b \<Longrightarrow> finite (dom (sender_inner w))"
  using heap_ok_finite [of "senders w"] by (auto simp: dom_def elim: rev_finite_subset)

lemma arc_frame:
  assumes "senders w' = senders w" "inners w' = inners w" "brk w' = brk w" "sender_tasks w' = sender_tasks w"
  shows "arc_inv w' = arc_inv w"
  using assms by (simp add: arc_inv_def tasks_of_def)

lemma arc_delete:
  assumes "arc_inv w" "async_nats_named_sender_delete p w = Inr ((), w')"
  shows "arc_inv w'"
proof -
  obtain b where b: "senders w p = Some b" and w': "w' = w\<lparr>senders := (senders w)(p := None),
      inners := (inners w)(ns_inner b := inners w (ns_inner b)\<lparr>ni_arc := ni_arc (inners w (ns_inner b)) - 1\<rparr>)\<rparr>"
    using assms(2)
    by (auto simp: async_nats_named_sender_delete_def arc_drop_def cm_simps split: if_splits option.splits)
  let ?m = "sender_inner w"
  have heap: "heap_ok (senders w) (brk w)" using assms(1) by (simp add: arc_inv_def)
  have m: "sender_inner w' = ?m(p := None)" by (auto simp: w')
  have n: "holds (?m(p := None)) c + (if c = ns_inner b then 1 else 0) = holds ?m c" for c
    using holds_update [OF sender_dom [OF heap], of p None c] b by (auto split: if_splits)
  have "ni_arc (inners w' c) = holds (sender_inner w') c + tasks_of w' c"
    if "0 < holds (sender_inner w') c + tasks_of w' c" for c
    using that n [of c] m assms(1) by (auto simp: w' arc_inv_def tasks_of_def split: if_splits)
  then show ?thesis using heap by (simp add: arc_inv_def w' heap_ok_free)
qed

lemma arc_clone_inv:
  assumes "arc_inv w" "async_nats_named_sender_clone p w = Inr (q, w')"
  shows "arc_inv w'"
proof -
  obtain b where b: "senders w p = Some b" and w': "w' = w\<lparr>brk := Suc (brk w), senders := (senders w)(brk w \<mapsto> b),
      inners := (inners w)(ns_inner b := inners w (ns_inner b)\<lparr>ni_arc := Suc (ni_arc (inners w (ns_inner b)))\<rparr>)\<rparr>"
    using assms(2)
    by (auto simp: async_nats_named_sender_clone_def arc_clone_def cm_simps split: if_splits option.splits)
  let ?m = "sender_inner w"
  have heap: "heap_ok (senders w) (brk w)" using assms(1) by (simp add: arc_inv_def)
  have m: "sender_inner w' = ?m(brk w \<mapsto> ns_inner b)" by (auto simp: w')
  have n: "holds (?m(brk w \<mapsto> ns_inner b)) c = holds ?m c + (if ns_inner b = c then 1 else 0)" for c
    using holds_new [OF sender_dom [OF heap], of "brk w" "ns_inner b" c] heap_ok_fresh [OF heap] by simp
  have pos: "0 < holds ?m (ns_inner b)" using holds_pos [OF sender_dom [OF heap], of p] b by simp
  have "ni_arc (inners w' c) = holds (sender_inner w') c + tasks_of w' c"
    if "0 < holds (sender_inner w') c + tasks_of w' c" for c
    using that n [of c] m pos assms(1) by (auto simp: w' arc_inv_def tasks_of_def split: if_splits)
  then show ?thesis using heap by (simp add: arc_inv_def w' heap_ok_new)
qed

lemma arc_hstep:
  assumes "arc_inv w" "hstep Sender_class x w = Inr ((), w')"
  shows "arc_inv w'"
proof -
  have del: "arc_inv w1" if "whenM (0 < p) (async_nats_named_sender_delete p) w = Inr ((), w1)" for p w1
    using that assms(1) arc_delete [OF assms(1)] by (auto simp: whenM_run split: if_splits)
  have frame: "arc_inv (snobjs_update f v) = arc_inv v" for f and v :: "('a, 'b, 'c, 'd, 'e) xw_scheme"
    by (rule arc_frame) simp_all
  show ?thesis
    using assms
    by (cases x;
      auto simp: Sender_class_def Sender_init_def Sender_move_ctor_def Sender_move_assign_def Sender_dtor_def
        Sender_copy_ctor_def Sender_copy_assign_def bnd_run sq_run obj_get_run obj_put_run obj_end_run frame
        split: sum.splits option.splits if_splits; blast dest: del arc_clone_inv)
qed

lemma arc_hrun: "arc_inv w \<Longrightarrow> hrun Sender_class xs w = Inr ((), w') \<Longrightarrow> arc_inv w'"
proof (induction xs arbitrary: w)
  case (Cons x xs)
  then obtain w1 where "hstep Sender_class x w = Inr ((), w1)" "hrun Sender_class xs w1 = Inr ((), w')"
    by (auto simp: sq_run split: sum.splits)
  with Cons arc_hstep show ?case by blast
qed simp

subsection \<open>Permits\<close>

lemma semaphore_lawsD:
  assumes "semaphore_laws t avail"
  shows "sem_new t k = Some m \<Longrightarrow> avail m = k" "fst (sem_try_acquire t m) = (0 < avail m)"
    "avail (snd (sem_try_acquire t m)) = avail m - 1" "avail (sem_release t m) = Suc (avail m)"
  using assms by (simp_all add: semaphore_laws_def)

lemma queue_lawsD:
  assumes "queue_laws t items rx"
  shows "items (uq_new t) = []" "rx (uq_new t)" "fst (uq_send t x q) = rx q" "rx (snd (uq_send t x q)) = rx q"
    "items (snd (uq_send t x q)) = (if rx q then items q @ [x] else items q)"
    "rx q \<Longrightarrow> fst (uq_recv t q) = (case items q of [] \<Rightarrow> Pending | x # _ \<Rightarrow> Ready (Some x))"
    "rx q \<Longrightarrow> items (snd (uq_recv t q)) = tl (items q)" "rx q \<Longrightarrow> rx (snd (uq_recv t q))"
    "fst (uq_drop_receiver t q) = items q" "items (snd (uq_drop_receiver t q)) = []"
    "\<not> rx (snd (uq_drop_receiver t q))"
  using assms by (simp_all add: queue_laws_def)

definition permits :: "sender_message list \<Rightarrow> nat" where
  "permits xs = length (filter sm_permit xs)"

definition in_flight :: "sender_task \<Rightarrow> sender_message list" where
  "in_flight st = (case st of SBusy x \<Rightarrow> [x] | _ \<Rightarrow> [])"

text \<open>
  Every permit is available, or with a queued message, or with the message being published; the
  receiver is there as long as the task is.
\<close>

definition permit_inv :: "('m \<Rightarrow> nat) \<Rightarrow> ('q \<Rightarrow> sender_message list) \<Rightarrow> ('q \<Rightarrow> bool) \<Rightarrow> nat
    \<Rightarrow> ('m, 'q) NamedSenderInner \<times> sender_task \<Rightarrow> bool" where
  "permit_inv avail items rx cap = (\<lambda>(n, st).
     avail (ni_sem n) + permits (in_flight st @ items (ni_sender n)) = cap
     \<and> rx (ni_sender n) = (st \<noteq> SDead) \<and> (st = SDead \<longrightarrow> items (ni_sender n) = []))"

lemma permits_simps [simp]:
  "permits [] = 0" "permits (x # xs) = (if sm_permit x then 1 else 0) + permits xs"
  "permits (xs @ ys) = permits xs + permits ys"
  by (simp_all add: permits_def)

lemma drop_message_avail:
  "semaphore_laws t avail \<Longrightarrow> avail (drop_message t x m) = avail m + (if sm_permit x then 1 else 0)"
  by (simp add: drop_message_def semaphore_lawsD)

lemma drop_messages_avail:
  "semaphore_laws t avail \<Longrightarrow> avail (fold (drop_message t) xs m) = avail m + permits xs"
  by (induction xs arbitrary: m) (simp_all add: drop_message_avail)

subsection \<open>Sequences of calls and steps of the task\<close>

text \<open>
  One call of \<open>try_send\<close> or \<open>send\<close> or one step of the task: the result of \<open>try_send\<close>, what is
  published, and the new state.
\<close>

datatype send_event = ETrySend "bytes option" bytes | ESend "bytes option" bytes | ERecv | EDone bool

fun send_step :: "('m, 'q) tokio_ops \<Rightarrow> send_event \<Rightarrow> ('m, 'q) NamedSenderInner \<times> sender_task
    \<Rightarrow> bool option \<times> (bytes \<times> bytes) option \<times> ('m, 'q) NamedSenderInner \<times> sender_task" where
  "send_step t (ETrySend tp b) (n, st) =
     (case inner_acquire t n of (permit, n1) \<Rightarrow>
        (Some permit, None,
         if permit then inner_enqueue t \<lparr>sm_topic = tp, sm_message = b, sm_permit = True\<rparr> n1 else n1, st))"
| "send_step t (ESend tp b) (n, st) =
     (case inner_acquire t n of (permit, n1) \<Rightarrow>
        (None, None, inner_enqueue t \<lparr>sm_topic = tp, sm_message = b, sm_permit = permit\<rparr> n1, st))"
| "send_step t ERecv (n, st) = (None, task_recv t (n, st))"
| "send_step t (EDone ok) (n, st) = (None, None, task_done t ok (n, st))"

lemma enqueue_inv:
  assumes "semaphore_laws t avail" "queue_laws t items rx"
    and "avail (ni_sem n) + permits (in_flight st @ items (ni_sender n)) + permits [x] = cap"
    and "rx (ni_sender n) = (st \<noteq> SDead)" "st = SDead \<longrightarrow> items (ni_sender n) = []"
  shows "permit_inv avail items rx cap (inner_enqueue t x n, st)"
proof -
  note Q = queue_lawsD(3-5) [OF assms(2), of x "ni_sender n"]
  obtain ok q where q: "uq_send t x (ni_sender n) = (ok, q)" by (cases "uq_send t x (ni_sender n)")
  show ?thesis
    using Q assms(3-5) drop_message_avail [OF assms(1), of x "ni_sem n"]
    by (auto simp: q inner_enqueue_def permit_inv_def split: if_splits)
qed

lemma send_step_inv:
  assumes "semaphore_laws t avail" "queue_laws t items rx" "permit_inv avail items rx cap (n, st)"
    and "send_step t e (n, st) = (r, out, n', st')"
  shows "permit_inv avail items rx cap (n', st')"
proof -
  note S = semaphore_lawsD(2,3) [OF assms(1), of "ni_sem n"]
  obtain ok m where a: "sem_try_acquire t (ni_sem n) = (ok, m)" by (cases "sem_try_acquire t (ni_sem n)")
  have acq: "ok = (0 < avail (ni_sem n))" "avail m = avail (ni_sem n) - 1" using S a by auto
  have inv: "avail (ni_sem n) + permits (in_flight st @ items (ni_sender n)) = cap"
    "rx (ni_sender n) = (st \<noteq> SDead)" "st = SDead \<longrightarrow> items (ni_sender n) = []"
    using assms(3) by (auto simp: permit_inv_def)
  have enq: "permit_inv avail items rx cap (inner_enqueue t \<lparr>sm_topic = tp, sm_message = b, sm_permit = ok\<rparr>
      (n\<lparr>ni_sem := m\<rparr>), st)" for tp b
    using acq inv by (intro enqueue_inv [OF assms(1,2)]) auto
  show ?thesis
  proof (cases e)
    case (ETrySend tp b)
    then show ?thesis
      using assms(4) a acq inv enq [of tp b]
      by (auto simp: inner_acquire_def permit_inv_def split: if_splits)
  next
    case (ESend tp b)
    then show ?thesis using assms(4) a enq [of tp b] by (auto simp: inner_acquire_def)
  next
    case ERecv
    obtain p q where q: "uq_recv t (ni_sender n) = (p, q)" by (cases "uq_recv t (ni_sender n)")
    show ?thesis
    proof (cases "st = SIdle")
      case True
      with queue_lawsD(6-8) [OF assms(2), of "ni_sender n"] inv ERecv assms(4) q show ?thesis
        by (cases "items (ni_sender n)") (auto simp: permit_inv_def in_flight_def)
    next
      case False
      with ERecv assms(3,4) show ?thesis by (cases st) auto
    qed
  next
    case (EDone ok')
    obtain xs q where q: "uq_drop_receiver t (ni_sender n) = (xs, q)" by (cases "uq_drop_receiver t (ni_sender n)")
    show ?thesis
      using queue_lawsD(9-11) [OF assms(2), of "ni_sender n"] EDone assms(3,4) q
      by (cases st) (auto simp: permit_inv_def in_flight_def drop_message_avail [OF assms(1)]
          drop_messages_avail [OF assms(1)] split: if_splits)
  qed
qed

text \<open>What is accepted: every message sent, and those \<open>try_send\<close> reports as queued.\<close>

definition resolve :: "bytes \<Rightarrow> sender_message \<Rightarrow> bytes \<times> bytes" where
  "resolve dflt x = (case sm_topic x of None \<Rightarrow> dflt | Some tp \<Rightarrow> tp, sm_message x)"

fun accepted :: "bytes \<Rightarrow> send_event \<Rightarrow> bool option \<Rightarrow> (bytes \<times> bytes) list" where
  "accepted dflt (ETrySend tp b) r = (if r = Some True then [(case tp of None \<Rightarrow> dflt | Some x \<Rightarrow> x, b)] else [])"
| "accepted dflt (ESend tp b) r = [(case tp of None \<Rightarrow> dflt | Some x \<Rightarrow> x, b)]"
| "accepted dflt _ r = []"

text \<open>A sequence of events: everything published and everything accepted, in order.\<close>

fun send_run :: "('m, 'q) tokio_ops \<Rightarrow> send_event list \<Rightarrow> ('m, 'q) NamedSenderInner \<times> sender_task
    \<Rightarrow> (bytes \<times> bytes) list \<times> (bytes \<times> bytes) list \<times> ('m, 'q) NamedSenderInner \<times> sender_task" where
  "send_run t [] s = ([], [], s)"
| "send_run t (e # es) s =
     (case send_step t e s of (r, out, s1) \<Rightarrow>
      case send_run t es s1 of (pub, acc, s2) \<Rightarrow>
        ((case out of None \<Rightarrow> [] | Some x \<Rightarrow> [x]) @ pub, accepted (ni_topic (fst s)) e r @ acc, s2))"

lemma send_step_order:
  assumes "queue_laws t items rx" "rx (ni_sender n) = (st \<noteq> SDead)"
    and "send_step t e (n, st) = (r, out, n', st')"
  shows "ni_topic n' = ni_topic n"
    "st = SDead \<Longrightarrow> st' = SDead \<and> out = None"
    "st' = SDead \<Longrightarrow> out = None"
    "st' \<noteq> SDead \<Longrightarrow> (case out of None \<Rightarrow> [] | Some x \<Rightarrow> [x]) @ map (resolve (ni_topic n)) (items (ni_sender n'))
      = map (resolve (ni_topic n)) (items (ni_sender n)) @ accepted (ni_topic n) e r"
proof -
  note Q = queue_lawsD(3-5) [OF assms(1), of _ "ni_sender n"] queue_lawsD(6-8) [OF assms(1), of "ni_sender n"]
  have enq: "ni_topic (inner_enqueue t x (n\<lparr>ni_sem := m\<rparr>)) = ni_topic n"
    "items (ni_sender (inner_enqueue t x (n\<lparr>ni_sem := m\<rparr>)))
      = (if rx (ni_sender n) then items (ni_sender n) @ [x] else items (ni_sender n))" for x m
    using Q(3) [of x] by (auto simp: inner_enqueue_def split: prod.splits)
  obtain p q where q: "uq_recv t (ni_sender n) = (p, q)" by (cases "uq_recv t (ni_sender n)")
  have "ni_topic n' = ni_topic n \<and> (st = SDead \<longrightarrow> st' = SDead \<and> out = None) \<and> (st' = SDead \<longrightarrow> out = None)
    \<and> (st' \<noteq> SDead \<longrightarrow> (case out of None \<Rightarrow> [] | Some x \<Rightarrow> [x]) @ map (resolve (ni_topic n)) (items (ni_sender n'))
      = map (resolve (ni_topic n)) (items (ni_sender n)) @ accepted (ni_topic n) e r)"
  proof (cases e)
    case (ETrySend tp b)
    then show ?thesis using assms(2,3) enq
      by (auto simp: inner_acquire_def resolve_def split: prod.splits if_splits)
  next
    case (ESend tp b)
    then show ?thesis using assms(2,3) enq
      by (auto simp: inner_acquire_def resolve_def split: prod.splits)
  next
    case ERecv
    show ?thesis
    proof (cases st)
      case SIdle
      with ERecv Q(4-6) assms(2,3) q show ?thesis
        by (cases "items (ni_sender n)") (auto simp: resolve_def)
    qed (use ERecv assms(3) in auto)
  next
    case (EDone ok)
    then show ?thesis using assms(3) by (cases st) (auto split: prod.splits if_splits)
  qed
  then show "ni_topic n' = ni_topic n" "st = SDead \<Longrightarrow> st' = SDead \<and> out = None" "st' = SDead \<Longrightarrow> out = None"
    "st' \<noteq> SDead \<Longrightarrow> (case out of None \<Rightarrow> [] | Some x \<Rightarrow> [x]) @ map (resolve (ni_topic n)) (items (ni_sender n'))
      = map (resolve (ni_topic n)) (items (ni_sender n)) @ accepted (ni_topic n) e r"
    by blast+
qed

lemma send_run_correct:
  assumes "semaphore_laws t avail" "queue_laws t items rx" "permit_inv avail items rx cap (n, st)"
    and "send_run t es (n, st) = (pub, acc, n', st')"
  shows "permit_inv avail items rx cap (n', st') \<and> (st = SDead \<longrightarrow> pub = [] \<and> st' = SDead)
    \<and> prefix pub (map (resolve (ni_topic n)) (items (ni_sender n)) @ acc)
    \<and> (st' \<noteq> SDead \<longrightarrow> pub @ map (resolve (ni_topic n)) (items (ni_sender n'))
        = map (resolve (ni_topic n)) (items (ni_sender n)) @ acc)"
  using assms(3,4)
proof (induction es arbitrary: n st pub acc)
  case Nil
  then show ?case by simp
next
  case (Cons e es)
  obtain r out n1 st1 where e: "send_step t e (n, st) = (r, out, n1, st1)"
    by (cases "send_step t e (n, st)") auto
  obtain pub1 acc1 where run: "send_run t es (n1, st1) = (pub1, acc1, n', st')"
    and eq: "pub = (case out of None \<Rightarrow> [] | Some x \<Rightarrow> [x]) @ pub1" "acc = accepted (ni_topic n) e r @ acc1"
    using Cons.prems(2) e by (auto split: prod.splits)
  have inv1: "permit_inv avail items rx cap (n1, st1)"
    using send_step_inv [OF assms(1,2) Cons.prems(1) e] .
  have rx: "rx (ni_sender n) = (st \<noteq> SDead)" using Cons.prems(1) by (simp add: permit_inv_def)
  note step = send_step_order [OF assms(2) rx e]
  note IH = Cons.IH [OF inv1 run]
  show ?case
  proof (cases "st1 = SDead")
    case True
    then have "st' = SDead" "pub = []" "permit_inv avail items rx cap (n', st')"
      using IH step(3) eq(1) by auto
    then show ?thesis by simp
  next
    case False
    let ?res = "map (resolve (ni_topic n))"
    have items: "(case out of None \<Rightarrow> [] | Some x \<Rightarrow> [x]) @ ?res (items (ni_sender n1)) @ acc1
        = ?res (items (ni_sender n)) @ acc"
      unfolding eq(2) using step(4) [OF False] by (metis append.assoc)
    have "prefix pub ((case out of None \<Rightarrow> [] | Some x \<Rightarrow> [x]) @ ?res (items (ni_sender n1)) @ acc1)"
      using IH step(1) eq(1) by simp
    then show ?thesis using IH step(1,2) eq(1) items False by auto
  qed
qed

lemma idle_task_waits:
  assumes "queue_laws t items rx" "permit_inv avail items rx cap (n, SIdle)"
  shows "snd (snd (task_recv t (n, SIdle))) \<noteq> SDead"
proof -
  have "rx (ni_sender n)" using assms(2) by (simp add: permit_inv_def)
  with queue_lawsD(6) [OF assms(1), of "ni_sender n"] show ?thesis
    by (cases "uq_recv t (ni_sender n)"; cases "items (ni_sender n)") auto
qed

lemma only_panic_ends:
  assumes "semaphore_laws t avail" "queue_laws t items rx" "permit_inv avail items rx cap (n, st)"
    and "send_run t es (n, st) = (pub, acc, n', st')" "EDone False \<notin> set es" "st \<noteq> SDead"
  shows "st' \<noteq> SDead"
  using assms(3-6)
proof (induction es arbitrary: n st pub acc)
  case (Cons e es)
  obtain r out n1 st1 where e: "send_step t e (n, st) = (r, out, n1, st1)"
    by (cases "send_step t e (n, st)") auto
  have "st1 \<noteq> SDead"
  proof (cases e)
    case ERecv
    then show ?thesis
      using e Cons.prems(1,4) idle_task_waits [OF assms(2), of avail cap n] by (cases st) auto
  next
    case (EDone ok)
    then show ?thesis using e Cons.prems(3,4) by (cases st; cases ok) auto
  qed (use e Cons.prems(4) in \<open>auto split: prod.splits\<close>)
  moreover obtain pub1 acc1 where "send_run t es (n1, st1) = (pub1, acc1, n', st')"
    using Cons.prems(2) e by (auto split: prod.splits)
  ultimately show ?case
    using Cons.IH [OF send_step_inv [OF assms(1,2) Cons.prems(1) e]] Cons.prems(3) by auto
qed simp

subsection \<open>Properties\<close>

text \<open>A semaphore that is a number, a queue that is a list with a flag, and a world with a sender.\<close>

definition ex_tokio :: "(nat, sender_message list \<times> bool) tokio_ops" where
  "ex_tokio =
     \<lparr>sem_new = (\<lambda>n. if n < 2 ^ 61 then Some n else None), sem_try_acquire = (\<lambda>m. (0 < m, m - 1)),
      sem_release = Suc, uq_new = ([], True), uq_send = (\<lambda>x (xs, rx). (rx, (if rx then xs @ [x] else xs, rx))),
      uq_recv = (\<lambda>(xs, rx). (case xs of [] \<Rightarrow> Pending | x # _ \<Rightarrow> Ready (Some x), (tl xs, rx))),
      uq_drop_receiver = (\<lambda>(xs, rx). (xs, ([], False)))\<rparr>"

lemma ex_tokio_laws: "semaphore_laws ex_tokio id" "queue_laws ex_tokio fst snd"
  by (auto simp: semaphore_laws_def queue_laws_def ex_tokio_def split: if_splits list.splits)

definition ex_inner :: "(nat, sender_message list \<times> bool) NamedSenderInner" where
  "ex_inner = \<lparr>ni_topic = bs ''topic'', ni_conn = \<lparr>cn_rt = 0, cn_client = 9\<rparr>, ni_sender = ([], True), ni_sem = 1,
     ni_arc = 2\<rparr>"

lemma ex_inner_inv: "permit_inv id fst snd 1 (ex_inner, SIdle)"
  by (simp add: permit_inv_def ex_inner_def in_flight_def)

definition ex_xw :: "(nats_message list \<times> bool, chan_view, nat, sender_message list \<times> bool) xw" where
  "ex_xw = rw.extend ex_rw \<lparr>inners = (\<lambda>_. ex_inner), senders = [7 \<mapsto> \<lparr>ns_inner = 6\<rparr>], snobjs = Map.empty,
     sender_tasks = [(6, SIdle)], BYTES_try_send = (\<lambda>_. []), BYTES_send = (\<lambda>_. [])\<rparr>"

lemma ex_xw_simps [simp]:
  "brk ex_xw = 12" "inners ex_xw = (\<lambda>_. ex_inner)" "senders ex_xw = [7 \<mapsto> \<lparr>ns_inner = 6\<rparr>]" "snobjs ex_xw = Map.empty"
  "sender_tasks ex_xw = [(6, SIdle)]" "BYTES_try_send ex_xw = (\<lambda>_. [])" "BYTES_send ex_xw = (\<lambda>_. [])"
  "cbuf ex_xw = [3 \<mapsto> bs ''topic'' @ [0], 4 \<mapsto> bs ''data'']" "wire ex_xw = []" "cnobjs ex_xw = [0 \<mapsto> 2]"
  "conns ex_xw = [2 \<mapsto> \<lparr>cn_rt = 0, cn_client = 9\<rparr>]"
  by (simp_all add: ex_xw_def rw.defs ex_rw_def dw.defs ex_dw_def aw.defs ex_aw_def sw.defs ex_sw_def nw.defs
      ex_nw_def bw.defs)

text \<open>
  C12: through every sequence of calls and steps of the task the permits add up: those available, those
  of queued messages and that of the message being published make the capacity. So at most capacity
  many messages queued by \<open>try_send\<close> are waiting, and \<open>try_send\<close> reports success exactly when fewer
  permits than the capacity are taken.
\<close>

theorem sender_permits:
  assumes "semaphore_laws t avail" "queue_laws t items rx" "permit_inv avail items rx cap (n, st)"
    and "send_run t es (n, st) = (pub, acc, n', st')"
  shows "permit_inv avail items rx cap (n', st') \<and> permits (in_flight st' @ items (ni_sender n')) \<le> cap
    \<and> fst (send_step t (ETrySend tp b) (n', st')) = Some (permits (in_flight st' @ items (ni_sender n')) < cap)"
proof -
  have inv: "permit_inv avail items rx cap (n', st')" using send_run_correct [OF assms] by blast
  then show ?thesis
    using semaphore_lawsD(2) [OF assms(1), of "ni_sem n'"]
    by (auto simp: permit_inv_def inner_acquire_def split: prod.splits)
qed

theorem sender_permits_witness:
  "fst (send_step ex_tokio (ETrySend None [1])
      (snd (snd (send_run ex_tokio [ETrySend None [0], ERecv] (ex_inner, SIdle))))) = Some False"
proof -
  obtain pub acc n' st' where r: "send_run ex_tokio [ETrySend None [0], ERecv] (ex_inner, SIdle) = (pub, acc, n', st')"
    by (metis prod_cases4)
  then have "permits (in_flight st' @ fst (ni_sender n')) = 1"
    by (auto simp: ex_tokio_def ex_inner_def inner_acquire_def inner_enqueue_def in_flight_def)
  with sender_permits [OF ex_tokio_laws ex_inner_inv r, of None "[1]"]
  have "fst (send_step ex_tokio (ETrySend None [1]) (n', st')) = Some False"
    by (simp del: send_step.simps permits_simps)
  then show ?thesis unfolding r by (simp del: send_step.simps)
qed

text \<open>
  C20: messages are published in the order in which they were accepted, each once, with the topic given
  to the call or else the sender's own. While the task is there nothing is lost: what has been
  published followed by what is queued is exactly what was queued or accepted; and in any case what
  has been published is an initial segment of that.
\<close>

theorem sender_fifo:
  assumes "semaphore_laws t avail" "queue_laws t items rx" "permit_inv avail items rx cap (n, st)"
    and "send_run t es (n, st) = (pub, acc, n', st')"
  shows "prefix pub (map (resolve (ni_topic n)) (items (ni_sender n)) @ acc)
    \<and> (st' \<noteq> SDead \<longrightarrow> pub @ map (resolve (ni_topic n)) (items (ni_sender n'))
        = map (resolve (ni_topic n)) (items (ni_sender n)) @ acc)"
  using send_run_correct [OF assms] by blast

theorem sender_fifo_witness:
  "\<exists>pub acc n' st'. send_run ex_tokio [ETrySend None [0], ESend (Some [7]) [1], ERecv, EDone True, ERecv]
      (ex_inner, SIdle) = (pub, acc, n', st')
    \<and> prefix pub acc \<and> acc = [(bs ''topic'', [0]), ([7], [1])]"
proof -
  obtain pub acc n' st' where r: "send_run ex_tokio [ETrySend None [0], ESend (Some [7]) [1], ERecv, EDone True, ERecv]
      (ex_inner, SIdle) = (pub, acc, n', st')"
    by (metis prod_cases4)
  then have "acc = [(bs ''topic'', [0]), ([7], [1])]"
    by (auto simp: ex_tokio_def ex_inner_def inner_acquire_def inner_enqueue_def drop_message_def)
  with sender_fifo [OF ex_tokio_laws ex_inner_inv r] r show ?thesis by (simp add: ex_inner_def)
qed

text \<open>
  C37: after a publication has failed the task is gone, and the sender does not tell: every later
  \<open>try_send\<close> still reports success (for a positive capacity), although nothing is queued and nothing
  will ever be published.
\<close>

theorem dead_sender_accepts:
  assumes "semaphore_laws t avail" "queue_laws t items rx" "permit_inv avail items rx cap (n, SBusy x)" "0 < cap"
    and "task_done t False (n, SBusy x) = (n1, st1)" "send_run t es (n1, st1) = (pub, acc, n2, st2)"
  shows "st1 = SDead \<and> pub = [] \<and> st2 = SDead \<and> items (ni_sender n2) = []
    \<and> fst (send_step t (ETrySend tp b) (n2, st2)) = Some True"
proof -
  have "send_step t (EDone False) (n, SBusy x) = (None, None, n1, st1)" using assms(5) by simp
  then have inv1: "permit_inv avail items rx cap (n1, st1)"
    using send_step_inv [OF assms(1-3)] by blast
  have st1: "st1 = SDead" using assms(5) by (auto split: prod.splits)
  have inv2: "permit_inv avail items rx cap (n2, st2)" "pub = []" "st2 = SDead"
    using send_run_correct [OF assms(1,2) inv1 assms(6)] st1 by auto
  then have "items (ni_sender n2) = []" "avail (ni_sem n2) = cap"
    by (auto simp: permit_inv_def in_flight_def)
  with st1 inv2(2,3) assms(4) semaphore_lawsD(2) [OF assms(1), of "ni_sem n2"] show ?thesis
    by (auto simp: inner_acquire_def split: prod.splits)
qed

theorem dead_sender_accepts_witness:
  "\<exists>n1. task_done ex_tokio False (ex_inner, SBusy \<lparr>sm_topic = None, sm_message = [], sm_permit = False\<rparr>) = (n1, SDead)
    \<and> fst (send_step ex_tokio (ETrySend None [1]) (n1, SDead)) = Some True"
proof -
  let ?x = "\<lparr>sm_topic = None, sm_message = [], sm_permit = False\<rparr> :: sender_message"
  have inv: "permit_inv id fst snd 1 (ex_inner, SBusy ?x)"
    by (simp add: permit_inv_def ex_inner_def in_flight_def)
  obtain n1 st1 where d: "task_done ex_tokio False (ex_inner, SBusy ?x) = (n1, st1)"
    by (cases "task_done ex_tokio False (ex_inner, SBusy ?x)")
  from dead_sender_accepts [OF ex_tokio_laws inv _ d, of "[]"] d show ?thesis by auto
qed

text \<open>
  C25: programs over \<open>Sender\<close> objects refine the machine of sender values: a copy shares the inner
  state, copying a moved-from sender dereferences null, no box is left when no object is. The count
  of owners of the inner state is exact, so that it is kept as long as a sender or the task needs it.
  But the task owns a reference too: when the last sender is destroyed the inner state, with its
  connection and its queue, is still there.
\<close>

theorem sender_refines:
  assumes "vrel senders snobjs sender_keep F t w" "arc_inv w"
    and "vrun True (\<lambda>_ :: unit. Inr None) (\<lambda>_ :: unit. Inr) t (map VOp xs) = Some res"
  shows "case res of Inl e \<Rightarrow> hrun Sender_class xs w = Inl e
    | Inr t' \<Rightarrow> \<exists>w'. hrun Sender_class xs w = Inr ((), w') \<and> vrel senders snobjs sender_keep F t' w' \<and> arc_inv w'
        \<and> (t' = (Map.empty, Map.empty) \<longrightarrow> senders w' = Map.empty
            \<and> (\<forall>c. 0 < tasks_of w c \<longrightarrow> ni_arc (inners w' c) = tasks_of w c))"
proof (cases res)
  case (Inl e)
  with sn.vops_refine [OF assms(1,3)] show ?thesis by simp
next
  case (Inr t')
  then obtain w' where w': "hrun Sender_class xs w = Inr ((), w')" "vrel senders snobjs sender_keep F t' w'"
    using sn.vops_refine [OF assms(1,3)] by auto
  have arc: "arc_inv w'" using arc_hrun [OF assms(2) w'(1)] .
  have "sender_tasks w' = sender_tasks w"
  proof -
    have "sender_keep w' = sender_keep w" using w'(2) assms(1) by (simp add: vrel_def)
    then have "sender_tasks (sender_keep w') = sender_tasks (sender_keep w)" by simp
    then show ?thesis by (simp add: sender_keep_def)
  qed
  then have tasks: "tasks_of w' = tasks_of w" by (simp add: tasks_of_def fun_eq_iff)
  have "senders w' = Map.empty" if "t' = (Map.empty, Map.empty)"
    using that w'(2) owns_no_leak by (auto simp: vrel_def)
  with Inr w' arc tasks show ?thesis by (auto simp: arc_inv_def)
qed

theorem sender_refines_witness:
  "(\<exists>w'. hrun Sender_class [HAdopt 0 7, HCopy 1 0, HDestroy 0, HDestroy 1] ex_xw = Inr ((), w')
      \<and> senders w' = Map.empty \<and> ni_arc (inners w' 6) = 1)
   \<and> hrun Sender_class [HAdopt 0 7, HMove 1 0, HCopy 2 0] ex_xw = Inl (UB NullDeref)"
proof -
  let ?t = "(Map.empty, [7 \<mapsto> \<lparr>ns_inner = 6\<rparr>]) :: AsyncNatsNamedSender vstate"
  have rel: "vrel senders snobjs sender_keep (sender_keep ex_xw) ?t ex_xw"
    by (auto simp: vrel_def own_wf_def heap_ok_def owns_def split: if_splits)
  have "{i. sender_inner ex_xw i = Some c} = (if c = 6 then {7} else {})" for c by auto
  then have inv: "arc_inv ex_xw"
    by (auto simp: arc_inv_def heap_ok_def holds_def tasks_of_def ex_inner_def split: if_splits)
  have "0 < tasks_of ex_xw 6 \<and> tasks_of ex_xw 6 = 1" by (simp add: tasks_of_def)
  with sender_refines [OF rel inv, of "[HAdopt 0 7, HCopy 1 0, HDestroy 0, HDestroy 1]" "Inr (Map.empty, Map.empty)"]
    sender_refines [OF rel inv, of "[HAdopt 0 7, HMove 1 0, HCopy 2 0]" "Inl (UB NullDeref)"]
  show ?thesis by (auto simp: fun_eq_iff)
qed

text \<open>
  C32: the calls do what the steps above say. \<open>try_send\<close> and \<open>send\<close> copy the data and the topic at the
  call, queue the copy and leave the thread-local buffer empty; \<open>try_send\<close> returns whether it got a
  permit, and does not look at the data when it did not. The task hands what it takes from the queue
  to the client of the connection the sender was made with.
\<close>

theorem sender_calls:
  assumes "snobjs w i = Some s" "s \<noteq> null" "senders w s = Some \<lparr>ns_inner = p\<rparr>" "BYTES_try_send w thread = []"
    "BYTES_send w thread = []" "cbuf w q = Some body" "unat len \<le> length body"
    and "topic = DNull \<and> tp = None \<or> (\<exists>a b. topic = DBuf a \<and> cbuf w a = Some b \<and> 0 \<in> set b
      \<and> tp = Some (from_utf8_lossy (takeWhile (\<lambda>c. c \<noteq> 0) b)))"
    and "sender_tasks w ! k = (p, st)"
  shows "(\<exists>w'. Sender_try_send t thread i topic (View (DBuf q) len) w
        = Inr (fst (send_step t (ETrySend tp (take (unat len) body)) (inners w p, st)) = Some True, w')
      \<and> inners w' = (inners w)(p := fst (snd (snd (send_step t (ETrySend tp (take (unat len) body)) (inners w p, st)))))
      \<and> BYTES_try_send w' thread = [])
    \<and> (\<exists>w'. Sender_send t thread i topic (View (DBuf q) len) w = Inr ((), w')
      \<and> inners w' = (inners w)(p := fst (snd (snd (send_step t (ESend tp (take (unat len) body)) (inners w p, st)))))
      \<and> BYTES_send w' thread = [])
    \<and> (\<forall>x m n'. send_step t ERecv (inners w p, st) = (None, Some (x, m), n', SBusy y) \<longrightarrow>
        (\<exists>w'. sender_task_recv t k w = Inr ((), w') \<and> inners w' = (inners w)(p := n')
          \<and> wire w' = wire w @ [WPublish (cn_client (ni_conn (inners w p))) x None m]))"
proof (intro conjI)
  obtain ok n1 where a: "inner_acquire t (inners w p) = (ok, n1)" by (cases "inner_acquire t (inners w p)")
  have tp: "message_topic topic v = Inr (tp, v)" if "cbuf v = cbuf w" for v :: "('a, 'b, 'c, 'd, 'e) xw_scheme"
    using assms(8) that by (auto simp: message_topic_def cstr_lossy_convert_def cm_simps)
  show "\<exists>w'. Sender_try_send t thread i topic (View (DBuf q) len) w
        = Inr (fst (send_step t (ETrySend tp (take (unat len) body)) (inners w p, st)) = Some True, w')
      \<and> inners w' = (inners w)(p := fst (snd (snd (send_step t (ETrySend tp (take (unat len) body)) (inners w p, st)))))
      \<and> BYTES_try_send w' thread = []"
    using assms(1-4,6,7) a
    by (cases ok) (auto simp: Sender_try_send_def async_nats_named_sender_try_send_def bytes_copy_def cm_simps tp)
  show "\<exists>w'. Sender_send t thread i topic (View (DBuf q) len) w = Inr ((), w')
      \<and> inners w' = (inners w)(p := fst (snd (snd (send_step t (ESend tp (take (unat len) body)) (inners w p, st)))))
      \<and> BYTES_send w' thread = []"
    using assms(1-3,5-7) a
    by (auto simp: Sender_send_def async_nats_named_sender_send_def bytes_copy_def cm_simps tp)
  show "\<forall>x m n'. send_step t ERecv (inners w p, st) = (None, Some (x, m), n', SBusy y) \<longrightarrow>
        (\<exists>w'. sender_task_recv t k w = Inr ((), w') \<and> inners w' = (inners w)(p := n')
          \<and> wire w' = wire w @ [WPublish (cn_client (ni_conn (inners w p))) x None m])"
    using assms(9) by (auto simp: sender_task_recv_def hand_over_def cm_simps)
qed

theorem sender_calls_witness:
  "\<exists>w'. Sender_try_send ex_tokio 0 0 DNull (View (DBuf 4) 4) (ex_xw\<lparr>snobjs := [0 \<mapsto> 7]\<rparr>) = Inr (True, w')
    \<and> fst (ni_sender (inners w' 6)) = [\<lparr>sm_topic = None, sm_message = bs ''data'', sm_permit = True\<rparr>]"
proof -
  let ?w = "ex_xw\<lparr>snobjs := [0 \<mapsto> 7]\<rparr>"
  have step: "send_step ex_tokio (ETrySend None (bs ''data'')) (ex_inner, SIdle)
      = (Some True, None, ex_inner\<lparr>ni_sem := 0,
          ni_sender := ([\<lparr>sm_topic = None, sm_message = bs ''data'', sm_permit = True\<rparr>], True)\<rparr>, SIdle)"
    by (simp add: ex_tokio_def ex_inner_def inner_acquire_def inner_enqueue_def)
  have w: "snobjs ?w 0 = Some 7" "(7 :: ptr) \<noteq> null" "senders ?w 7 = Some \<lparr>ns_inner = 6\<rparr>" "BYTES_try_send ?w 0 = []"
    "BYTES_send ?w 0 = []" "cbuf ?w 4 = Some (bs ''data'')" "unat (4 :: u64) \<le> length (bs ''data'')"
    "sender_tasks ?w ! 0 = (6, SIdle)" "inners ?w 6 = ex_inner" "take (unat (4 :: u64)) (bs ''data'') = bs ''data''"
    by (simp_all add: bs_def)
  show ?thesis
    using sender_calls [OF w(1-7) _ w(8), of DNull None ex_tokio, THEN conjunct1] unfolding w(9,10) step by auto
qed

text \<open>
  A new sender starts with all its permits, an empty queue, and two owners of its inner state, the
  object's box and the task, whatever becomes of the \<open>Connection\<close> object it was made from; a capacity
  that the semaphore does not support is a panic, and a null connection undefined behaviour.
\<close>

theorem sender_constructed:
  assumes "semaphore_laws t avail" "queue_laws t items rx" "cnobjs w j = Some c" "c \<noteq> null \<longrightarrow> conns w c = Some cn"
    and "cbuf w q = Some b" "0 \<in> set b"
  shows "if c = null then Sender_ctor t i (DBuf q) j capacity w = Inl (UB NullDeref)
    else case sem_new t (unat capacity) of
      None \<Rightarrow> \<exists>msg. Sender_ctor t i (DBuf q) j capacity w = Inl (Panic msg)
    | Some m \<Rightarrow> \<exists>w' s p. Sender_ctor t i (DBuf q) j capacity w = Inr ((), w')
        \<and> snobjs w' = (snobjs w)(i \<mapsto> s) \<and> senders w' = (senders w)(s \<mapsto> \<lparr>ns_inner = p\<rparr>)
        \<and> sender_tasks w' = sender_tasks w @ [(p, SIdle)] \<and> ni_arc (inners w' p) = 2
        \<and> ni_topic (inners w' p) = from_utf8_lossy (takeWhile (\<lambda>c. c \<noteq> 0) b) \<and> ni_conn (inners w' p) = cn
        \<and> permit_inv avail items rx (unat capacity) (inners w' p, SIdle)"
  using assms(3-6) semaphore_lawsD(1) [OF assms(1), of "unat capacity"] queue_lawsD(1,2) [OF assms(2)]
  by (auto simp: Sender_ctor_def async_nats_named_sender_new_def with_capacity_def cstr_lossy_convert_def
      permit_inv_def in_flight_def cm_simps split: option.splits)

theorem sender_constructed_witness:
  "(\<exists>w'. Sender_ctor_default ex_tokio 0 (DBuf 3) 0 ex_xw = Inr ((), w'))
   \<and> (\<exists>msg. Sender_ctor ex_tokio 0 (DBuf 3) 0 (2 ^ 62) ex_xw = Inl (Panic msg))"
  using sender_constructed [OF ex_tokio_laws, of ex_xw 0 2 "\<lparr>cn_rt = 0, cn_client = 9\<rparr>" 3 "bs ''topic'' @ [0]" 0 128]
    sender_constructed [OF ex_tokio_laws, of ex_xw 0 2 "\<lparr>cn_rt = 0, cn_client = 9\<rparr>" 3 "bs ''topic'' @ [0]" 0 "2 ^ 62"]
  by (auto simp: Sender_ctor_default_def Sender_default_capacity_def ex_tokio_def)



end
