(* ===== verification/Typing.thy ===== *)
theory Typing
  imports Sender
begin

text \<open>
  The C API casts raw pointers to the type of box it expects, and nothing at run time records which
  kind of box an address holds. This theory gives addresses their types: the kinds of boxes the Rust
  side allocates, what it means for a heap to be well typed (an address holds boxes of one kind only,
  all of them between null and the break), and for one heap to extend another (an address that has
  been given out keeps its type or is dead, and stays dead). A computation is well typed when it keeps
  the heap typed and extends it, wherever it returns. The property is closed under the constructs of
  the model, so that the operations of the library are shown to have it one after the other, with the
  rules of the collection \<open>typed_intros\<close>.
\<close>

subsection \<open>Kinds of boxes\<close>

datatype kind =
    KStr | KMessage | KIterator | KConnectError | KRequestError | KRequest | KRuntimeConfig | KRuntime
  | KParams | KConnection | KSubscribtion | KToken | KContext | KReceiver | KSender

fun boxes :: "('s, 'c, 'm, 'q, 'z) xw_scheme \<Rightarrow> kind \<Rightarrow> ptr set" where
  "boxes w KStr = dom (strs w)"
| "boxes w KMessage = dom (msgs w)"
| "boxes w KIterator = dom (iters w)"
| "boxes w KConnectError = dom (cerrs w)"
| "boxes w KRequestError = dom (rerrs w)"
| "boxes w KRequest = dom (reqs w)"
| "boxes w KRuntimeConfig = dom (rtcfgs w)"
| "boxes w KRuntime = dom (rts w)"
| "boxes w KParams = dom (cparams w)"
| "boxes w KConnection = dom (conns w)"
| "boxes w KSubscribtion = dom (subs w)"
| "boxes w KToken = dom (tokens w)"
| "boxes w KContext = dom (ctxs w)"
| "boxes w KReceiver = dom (recvs w)"
| "boxes w KSender = dom (senders w)"

text \<open>What the updates of the fields of the world do to the boxes.\<close>

lemma boxes_heap [simp]:
  "boxes (strs_update fstrs w) = (boxes w)(KStr := dom (fstrs (strs w)))"
  "boxes (msgs_update fmsgs w) = (boxes w)(KMessage := dom (fmsgs (msgs w)))"
  "boxes (iters_update fiters w) = (boxes w)(KIterator := dom (fiters (iters w)))"
  "boxes (cerrs_update fcerrs w) = (boxes w)(KConnectError := dom (fcerrs (cerrs w)))"
  "boxes (rerrs_update frerrs w) = (boxes w)(KRequestError := dom (frerrs (rerrs w)))"
  "boxes (reqs_update freqs w) = (boxes w)(KRequest := dom (freqs (reqs w)))"
  "boxes (rtcfgs_update frtcfgs w) = (boxes w)(KRuntimeConfig := dom (frtcfgs (rtcfgs w)))"
  "boxes (rts_update frts w) = (boxes w)(KRuntime := dom (frts (rts w)))"
  "boxes (cparams_update fcparams w) = (boxes w)(KParams := dom (fcparams (cparams w)))"
  "boxes (conns_update fconns w) = (boxes w)(KConnection := dom (fconns (conns w)))"
  "boxes (subs_update fsubs w) = (boxes w)(KSubscribtion := dom (fsubs (subs w)))"
  "boxes (tokens_update ftokens w) = (boxes w)(KToken := dom (ftokens (tokens w)))"
  "boxes (ctxs_update fctxs w) = (boxes w)(KContext := dom (fctxs (ctxs w)))"
  "boxes (recvs_update frecvs w) = (boxes w)(KReceiver := dom (frecvs (recvs w)))"
  "boxes (senders_update fsenders w) = (boxes w)(KSender := dom (fsenders (senders w)))"
  by (intro ext; rename_tac k; case_tac k; simp)+

lemma boxes_other [simp]:
  "boxes (brk_update gbrk w) = boxes w"
  "boxes (cbuf_update gcbuf w) = boxes w"
  "boxes (layout_errs_update glayout_errs w) = boxes w"
  "boxes (sobjs_update gsobjs w) = boxes w"
  "boxes (mobjs_update gmobjs w) = boxes w"
  "boxes (hvobjs_update ghvobjs w) = boxes w"
  "boxes (hiobjs_update ghiobjs w) = boxes w"
  "boxes (vvobjs_update gvvobjs w) = boxes w"
  "boxes (ceobjs_update gceobjs w) = boxes w"
  "boxes (reobjs_update greobjs w) = boxes w"
  "boxes (rqobjs_update grqobjs w) = boxes w"
  "boxes (rcobjs_update grcobjs w) = boxes w"
  "boxes (rtobjs_update grtobjs w) = boxes w"
  "boxes (coobjs_update gcoobjs w) = boxes w"
  "boxes (cnobjs_update gcnobjs w) = boxes w"
  "boxes (sbobjs_update gsbobjs w) = boxes w"
  "boxes (tkobjs_update gtkobjs w) = boxes w"
  "boxes (sds_update gsds w) = boxes w"
  "boxes (droppers_update gdroppers w) = boxes w"
  "boxes (undestroyed_update gundestroyed w) = boxes w"
  "boxes (BYTES_update gBYTES w) = boxes w"
  "boxes (BYTES_reply_update gBYTES_reply w) = boxes w"
  "boxes (pending_update gpending w) = boxes w"
  "boxes (wire_update gwire w) = boxes w"
  "boxes (calls_update gcalls w) = boxes w"
  "boxes (subscribers_update gsubscribers w) = boxes w"
  "boxes (rchans_update grchans w) = boxes w"
  "boxes (rvobjs_update grvobjs w) = boxes w"
  "boxes (pumps_update gpumps w) = boxes w"
  "boxes (inners_update ginners w) = boxes w"
  "boxes (snobjs_update gsnobjs w) = boxes w"
  "boxes (sender_tasks_update gsender_tasks w) = boxes w"
  "boxes (BYTES_try_send_update gBYTES_try_send w) = boxes w"
  "boxes (BYTES_send_update gBYTES_send w) = boxes w"
  by (intro ext; rename_tac k; case_tac k; simp)+

definition heap_typed :: "('s, 'c, 'm, 'q, 'z) xw_scheme \<Rightarrow> bool" where
  "heap_typed w \<longleftrightarrow> 0 < brk w \<and> (\<forall>k. boxes w k \<subseteq> {0<..<brk w})
     \<and> (\<forall>k k'. k \<noteq> k' \<longrightarrow> boxes w k \<inter> boxes w k' = {})"

definition heap_ext :: "('s, 'c, 'm, 'q, 'z) xw_scheme \<Rightarrow> ('s, 'c, 'm, 'q, 'z) xw_scheme \<Rightarrow> bool" where
  "heap_ext w w' \<longleftrightarrow> brk w \<le> brk w' \<and> (\<forall>k. boxes w' k \<inter> {..<brk w} \<subseteq> boxes w k)"

lemma heap_ext_refl [simp]: "heap_ext w w"
  by (simp add: heap_ext_def)

lemma heap_ext_trans [trans]: "heap_ext w w1 \<Longrightarrow> heap_ext w1 w2 \<Longrightarrow> heap_ext w w2"
  unfolding heap_ext_def by (fastforce dest: order_less_le_trans)

lemma heap_same:
  assumes "heap_typed w" "brk w \<le> brk w'" "\<And>k. boxes w' k = boxes w k"
  shows "heap_typed w' \<and> heap_ext w w'"
  using assms by (fastforce simp: heap_typed_def heap_ext_def)

text \<open>A typed heap has every component well formed.\<close>

lemma heap_typed_ok:
  assumes "heap_typed w" "boxes w k = dom h"
  shows "heap_ok h (brk w)"
  using assms unfolding heap_typed_def heap_ok_def
  by (metis domIff greaterThanLessThan_iff subsetD)

subsection \<open>Well-typed computations\<close>

definition typed_op :: "(('s, 'c, 'm, 'q, 'z) xw_scheme, 'a) cm \<Rightarrow> bool" where
  "typed_op m \<longleftrightarrow> (\<forall>w a w'. heap_typed w \<longrightarrow> m w = Inr (a, w') \<longrightarrow> heap_typed w' \<and> heap_ext w w')"

text \<open>The same where \<open>p\<close> is known to be alive in the component \<open>h\<close>, after a dereference.\<close>

definition typed_at :: "(('s, 'c, 'm, 'q, 'z) xw_scheme \<Rightarrow> ptr \<rightharpoonup> 'b) \<Rightarrow> ptr
    \<Rightarrow> (('s, 'c, 'm, 'q, 'z) xw_scheme, 'a) cm \<Rightarrow> bool" where
  "typed_at h p m \<longleftrightarrow> (\<forall>w a w'. heap_typed w \<longrightarrow> h w p \<noteq> None \<longrightarrow> m w = Inr (a, w') \<longrightarrow>
     heap_typed w' \<and> heap_ext w w')"

text \<open>A computation that only reads.\<close>

definition reads :: "('w, 'a) cm \<Rightarrow> bool" where
  "reads m \<longleftrightarrow> (\<forall>w a w'. m w = Inr (a, w') \<longrightarrow> w' = w)"

named_theorems typed_intros \<open>well-typed computations\<close>

lemma typed_opD: "typed_op m \<Longrightarrow> heap_typed w \<Longrightarrow> m w = Inr (a, w') \<Longrightarrow> heap_typed w' \<and> heap_ext w w'"
  by (simp add: typed_op_def)

lemma typed_reads: "reads m \<Longrightarrow> typed_op m"
  unfolding typed_op_def reads_def using heap_ext_refl by metis

lemma typed_ret [typed_intros]: "typed_op (ret a)"
  by (simp add: typed_op_def)

lemma typed_fail [typed_intros]: "typed_op (fail e)"
  by (simp add: typed_op_def)

lemma typed_gets [typed_intros]: "typed_op (gets f)"
  by (simp add: typed_op_def)

lemma typed_bnd [typed_intros]:
  assumes "typed_op m" "\<And>a. typed_op (f a)"
  shows "typed_op (bnd m f)"
  unfolding typed_op_def bnd_split_Inr using assms [unfolded typed_op_def] heap_ext_trans by metis

lemma typed_sq [typed_intros]: "typed_op m \<Longrightarrow> typed_op n \<Longrightarrow> typed_op (sq m n)"
  unfolding sq_def by (rule typed_bnd)

lemma typed_whenM [typed_intros]: "typed_op m \<Longrightarrow> typed_op (whenM c m)"
  by (simp add: whenM_def typed_ret)

lemma typed_if [typed_intros]: "typed_op m \<Longrightarrow> typed_op n \<Longrightarrow> typed_op (if c then m else n)"
  by simp

lemma typed_option [typed_intros]:
  "typed_op m \<Longrightarrow> (\<And>a. typed_op (f a)) \<Longrightarrow> typed_op (case x of None \<Rightarrow> m | Some a \<Rightarrow> f a)"
  by (cases x) simp_all

lemma typed_prod [typed_intros]: "(\<And>a b. typed_op (f a b)) \<Longrightarrow> typed_op (case x of (a, b) \<Rightarrow> f a b)"
  by (cases x) simp

lemma typed_sum [typed_intros]:
  "(\<And>a. typed_op (f a)) \<Longrightarrow> (\<And>b. typed_op (g b)) \<Longrightarrow> typed_op (case x of Inl a \<Rightarrow> f a | Inr b \<Rightarrow> g b)"
  by (cases x) simp_all

lemma typed_poll [typed_intros]:
  "typed_op m \<Longrightarrow> (\<And>a. typed_op (f a)) \<Longrightarrow> typed_op (case x of Pending \<Rightarrow> m | Ready a \<Rightarrow> f a)"
  by (cases x) simp_all

lemma typed_view [typed_intros]: "(\<And>d n. typed_op (f d n)) \<Longrightarrow> typed_op (case x of View d n \<Rightarrow> f d n)"
  by (cases x) simp

lemma typed_modify: "(\<And>w. brk w \<le> brk (f w)) \<Longrightarrow> (\<And>w k. boxes (f w) k = boxes w k) \<Longrightarrow> typed_op (modify f)"
  unfolding typed_op_def modify_run using heap_same by blast

lemma reads_basic [simp]:
  "reads (ret a)" "reads (gets f)" "reads (fail e)" "reads (deref h p)" "reads (obj_get c i)" "reads (expect x s)"
  "reads (assertM b s)"
  by (auto simp: reads_def cm_simps split: if_splits option.splits)

lemma reads_bnd: "reads m \<Longrightarrow> (\<And>a. reads (f a)) \<Longrightarrow> reads (bnd m f)"
  unfolding reads_def bnd_split_Inr by blast

lemma typed_basic [typed_intros]:
  "typed_op (deref h p)" "typed_op (obj_get c i)" "typed_op (expect x s)" "typed_op (assertM b s)"
  by (rule typed_reads, simp)+

lemma typed_at_op: "typed_op m \<Longrightarrow> typed_at h p m"
  by (simp add: typed_op_def typed_at_def)

lemma typed_at_bnd: "reads m \<Longrightarrow> (\<And>a. typed_at h p (f a)) \<Longrightarrow> typed_at h p (bnd m f)"
  unfolding typed_at_def reads_def bnd_split_Inr by blast

lemma typed_at_if: "typed_at h p m \<Longrightarrow> typed_at h p n \<Longrightarrow> typed_at h p (if c then m else n)"
  by simp

lemma typed_deref_at: "(\<And>b. typed_at h p (f b)) \<Longrightarrow> typed_op (bnd (deref h p) f)"
  unfolding typed_op_def typed_at_def bnd_split_Inr by (force simp: deref_run split: if_splits option.splits)

subsection \<open>Typed heaps\<close>

text \<open>
  The contract of a heap component: it holds the boxes of one kind, and its update function changes
  no other kind. It gives the rules of the three primitives.
\<close>

locale typed_heap =
  fixes h :: "('s, 'c, 'm, 'q, 'z) xw_scheme \<Rightarrow> ptr \<rightharpoonup> 'b"
    and upd :: "((ptr \<rightharpoonup> 'b) \<Rightarrow> (ptr \<rightharpoonup> 'b)) \<Rightarrow> ('s, 'c, 'm, 'q, 'z) xw_scheme \<Rightarrow> ('s, 'c, 'm, 'q, 'z) xw_scheme"
    and k :: kind
  assumes boxes_kind: "boxes w k = dom (h w)"
    and h_upd: "h (upd f w) = f (h w)"
    and brk_upd: "brk (upd f w) = brk w"
    and boxes_upd: "boxes (upd (\<lambda>m. m(p := x)) w) = (boxes w)(k := dom ((h w)(p := x)))"
    and h_brk: "h (brk_update g w) = h w"
begin

lemma typed_into_raw [typed_intros]: "typed_op (box_into_raw upd b)"
proof -
  have "heap_typed w' \<and> heap_ext w w'"
    if w: "heap_typed w" and w': "w' = upd (\<lambda>h. h(brk w \<mapsto> b)) (w\<lparr>brk := Suc (brk w)\<rparr>)" for w w'
  proof -
    have box: "boxes w' k' = (if k' = k then insert (brk w) (boxes w k) else boxes w k')" for k'
      by (simp add: w' boxes_kind h_brk boxes_upd del: boxes.simps)
    have brk: "brk w' = Suc (brk w)" by (simp add: w' brk_upd)
    have "brk w \<notin> boxes w k'" for k' using w by (force simp: heap_typed_def)
    with w show ?thesis
      by (fastforce simp: heap_typed_def heap_ext_def box brk less_Suc_eq split: if_splits)
  qed
  then show ?thesis by (auto simp: typed_op_def box_into_raw_run)
qed

lemma typed_from_raw [typed_intros]: "typed_op (box_from_raw h upd p)"
proof -
  have "heap_typed w' \<and> heap_ext w w'" if w: "heap_typed w" and w': "w' = upd (\<lambda>m. m(p := None)) w" for w w'
  proof -
    have "boxes w' k' = (if k' = k then boxes w k - {p} else boxes w k')" for k'
      by (simp add: w' boxes_kind boxes_upd del: boxes.simps)
    with w show ?thesis by (fastforce simp: heap_typed_def heap_ext_def w' brk_upd split: if_splits)
  qed
  then show ?thesis by (auto simp: typed_op_def box_from_raw_run split: if_splits option.splits)
qed

lemma store_same:
  assumes "heap_typed w" "h w p \<noteq> None" "store upd p b w = Inr (a, w')"
  shows "heap_typed w' \<and> heap_ext w w' \<and> h w' p \<noteq> None"
proof -
  have w': "w' = upd (\<lambda>m. m(p \<mapsto> b)) w" using assms(3) by (simp add: store_run)
  have "boxes w' k' = boxes w k'" for k'
    using assms(2) by (cases "k' = k") (auto simp: w' boxes_kind boxes_upd simp del: boxes.simps)
  with heap_same [OF assms(1), of w'] show ?thesis by (simp add: w' brk_upd h_upd)
qed

lemma typed_store [typed_intros]: "typed_at h p (store upd p b)"
  unfolding typed_at_def using store_same by blast

lemma typed_store_sq [typed_intros]: "typed_op n \<Longrightarrow> typed_at h p (sq (store upd p b) n)"
proof -
  have "heap_typed w' \<and> heap_ext w w'"
    if n: "typed_op n" and w: "heap_typed w" "h w p \<noteq> None" "sq (store upd p b) n w = Inr (a, w')" for a w w'
  proof -
    obtain w1 where w1: "store upd p b w = Inr ((), w1)" "n w1 = Inr (a, w')"
      using w(3) by (auto simp: sq_run store_run)
    with store_same [OF w(1,2) w1(1)] typed_opD [OF n _ w1(2)] heap_ext_trans show ?thesis by blast
  qed
  then show "typed_op n \<Longrightarrow> typed_at h p (sq (store upd p b) n)" by (auto simp: typed_at_def)
qed

end

interpretation str_typed: typed_heap strs strs_update KStr
  by unfold_locales simp_all

interpretation msg_typed: typed_heap msgs msgs_update KMessage
  by unfold_locales simp_all

interpretation iter_typed: typed_heap iters iters_update KIterator
  by unfold_locales simp_all

interpretation cerr_typed: typed_heap cerrs cerrs_update KConnectError
  by unfold_locales simp_all

interpretation rerr_typed: typed_heap rerrs rerrs_update KRequestError
  by unfold_locales simp_all

interpretation req_typed: typed_heap reqs reqs_update KRequest
  by unfold_locales simp_all

interpretation rtcfg_typed: typed_heap rtcfgs rtcfgs_update KRuntimeConfig
  by unfold_locales simp_all

interpretation rt_typed: typed_heap rts rts_update KRuntime
  by unfold_locales simp_all

interpretation cparam_typed: typed_heap cparams cparams_update KParams
  by unfold_locales simp_all

interpretation conn_typed: typed_heap conns conns_update KConnection
  by unfold_locales simp_all

interpretation sub_typed: typed_heap subs subs_update KSubscribtion
  by unfold_locales simp_all

interpretation token_typed: typed_heap tokens tokens_update KToken
  by unfold_locales simp_all

interpretation ctx_typed: typed_heap ctxs ctxs_update KContext
  by unfold_locales simp_all

interpretation recv_typed: typed_heap recvs recvs_update KReceiver
  by unfold_locales simp_all

interpretation sender_typed: typed_heap senders senders_update KSender
  by unfold_locales simp_all

subsection \<open>The operations of the library\<close>

text \<open>C++ objects are not boxes of the Rust side.\<close>

lemma typed_obj:
  assumes "\<And>f w. brk (upd f w) = brk w" "\<And>f w. boxes (upd f w) = boxes w"
  shows "typed_op (obj_put upd i m)" "typed_op (obj_end upd i)"
  unfolding obj_put_def obj_end_def by (rule typed_modify; simp add: assms)+

lemma typed_objects [typed_intros]:
  "typed_op (obj_put sobjs_update i msobjs)" "typed_op (obj_end sobjs_update i)"
  "typed_op (obj_put mobjs_update i mmobjs)" "typed_op (obj_end mobjs_update i)"
  "typed_op (obj_put hvobjs_update i mhvobjs)" "typed_op (obj_end hvobjs_update i)"
  "typed_op (obj_put hiobjs_update i mhiobjs)" "typed_op (obj_end hiobjs_update i)"
  "typed_op (obj_put vvobjs_update i mvvobjs)" "typed_op (obj_end vvobjs_update i)"
  "typed_op (obj_put ceobjs_update i mceobjs)" "typed_op (obj_end ceobjs_update i)"
  "typed_op (obj_put reobjs_update i mreobjs)" "typed_op (obj_end reobjs_update i)"
  "typed_op (obj_put rqobjs_update i mrqobjs)" "typed_op (obj_end rqobjs_update i)"
  "typed_op (obj_put rcobjs_update i mrcobjs)" "typed_op (obj_end rcobjs_update i)"
  "typed_op (obj_put rtobjs_update i mrtobjs)" "typed_op (obj_end rtobjs_update i)"
  "typed_op (obj_put coobjs_update i mcoobjs)" "typed_op (obj_end coobjs_update i)"
  "typed_op (obj_put cnobjs_update i mcnobjs)" "typed_op (obj_end cnobjs_update i)"
  "typed_op (obj_put sbobjs_update i msbobjs)" "typed_op (obj_end sbobjs_update i)"
  "typed_op (obj_put tkobjs_update i mtkobjs)" "typed_op (obj_end tkobjs_update i)"
  "typed_op (obj_put rvobjs_update i mrvobjs)" "typed_op (obj_end rvobjs_update i)"
  "typed_op (obj_put snobjs_update i msnobjs)" "typed_op (obj_end snobjs_update i)"
  by (rule typed_obj; simp)+

lemma typed_deleted [typed_intros]: "typed_op (deleted i j)"
  unfolding deleted_def by (intro typed_intros)

lemma reads_api:
  "reads (from_raw_parts d n)" "reads (cstr_bytes d)" "reads (cstr_lossy_convert d)" "reads (slice_lossy_convert s)"
  by (auto simp: reads_def cstr_lossy_convert_def slice_lossy_convert_def cm_simps split: sum.splits if_splits)

lemmas typed_reading [typed_intros] = reads_api [THEN typed_reads]

lemma typed_strings [typed_intros]:
  "typed_op (string_to_owned_string t)" "typed_op (async_nats_owned_string_delete s)" "typed_op (as_str sl)"
  unfolding string_to_owned_string_def async_nats_owned_string_delete_def as_str_def as_slice_def
  by (intro typed_intros typed_modify; simp)+

lemma typed_messages [typed_intros]:
  "typed_op (async_nats_message_delete p)" "typed_op (async_nats_message_clone p)"
  unfolding async_nats_message_delete_def async_nats_message_clone_def
  by (intro typed_deref_at typed_intros)+

lemma typed_errors [typed_intros]:
  "typed_op (async_nats_connection_error_delete p)" "typed_op (async_nats_connection_error_clone p)"
  "typed_op (async_nats_connection_error_describtion p)"
  "typed_op (async_nats_request_error_delete p)" "typed_op (async_nats_request_error_clone p)"
  "typed_op (async_nats_request_error_describtion p)"
  unfolding async_nats_connection_error_delete_def async_nats_connection_error_clone_def
    async_nats_connection_error_describtion_def async_nats_request_error_delete_def
    async_nats_request_error_clone_def async_nats_request_error_describtion_def
  by (intro typed_deref_at typed_at_op typed_intros)+

lemma reads_headers: "reads (borrowed_headers p)"
  unfolding borrowed_headers_def by (intro reads_bnd reads_basic)

lemma typed_from_ptr:
  assumes "\<And>b. typed_at iters p (f b)"
  shows "typed_op (bnd (header_iterator_from_ptr p) f)"
proof (cases "p = null")
  case True
  then show ?thesis by (simp add: header_iterator_from_ptr_def typed_op_def bnd_run)
next
  case False
  then show ?thesis by (simp add: header_iterator_from_ptr_def typed_deref_at assms)
qed

lemma typed_iterators [typed_intros]:
  "typed_op (async_nats_message_header_iterator p)" "typed_op (async_nats_message_header_iterator_copy p)"
  "typed_op (async_nats_message_header_iterator_free p)" "typed_op (async_nats_message_header_iterator_next p)"
  unfolding async_nats_message_header_iterator_def async_nats_message_header_iterator_copy_def
    async_nats_message_header_iterator_free_def async_nats_message_header_iterator_next_def
  by (intro typed_from_ptr typed_at_bnd typed_at_if reads_headers reads_basic typed_intros
      typed_reads [OF reads_headers])+

lemma typed_builders [typed_intros]:
  "typed_op async_nats_request_new" "typed_op (async_nats_request_delete p)"
  "typed_op (async_nats_request_inbox p d)" "typed_op (async_nats_request_timeout p t)"
  "typed_op (async_nats_request_message p d n)"
  "typed_op (async_nats_tokio_runtime_config_new ap)" "typed_op (async_nats_tokio_runtime_config_delete p)"
  "typed_op (async_nats_tokio_runtime_config_thread_name p d)"
  "typed_op (async_nats_tokio_runtime_config_thread_count p c)"
  "typed_op (async_nats_tokio_runtime_new tokio p)" "typed_op (async_nats_tokio_runtime_delete p)"
  "typed_op async_nats_connection_config_new" "typed_op (async_nats_connection_config_delete p)"
  "typed_op (async_nats_connection_config_name p d)" "typed_op (async_nats_connection_config_addr parse p d)"
  unfolding async_nats_request_new_def async_nats_request_delete_def async_nats_request_inbox_def
    async_nats_request_timeout_def async_nats_request_message_def async_nats_tokio_runtime_config_new_def
    async_nats_tokio_runtime_config_delete_def async_nats_tokio_runtime_config_thread_name_def
    async_nats_tokio_runtime_config_thread_count_def async_nats_tokio_runtime_new_def
    async_nats_tokio_runtime_delete_def async_nats_connection_config_new_def
    async_nats_connection_config_delete_def async_nats_connection_config_name_def
    async_nats_connection_config_addr_def
  by ((intro typed_intros; fail) | (intro typed_deref_at typed_at_bnd reads_api reads_basic typed_intros))+

lemma typed_connections [typed_intros]:
  "typed_op (async_nats_connection_clone p)" "typed_op (async_nats_connection_delete p)"
  "typed_op (async_nats_connection_mailbox new_inbox p)"
  unfolding async_nats_connection_clone_def async_nats_connection_delete_def async_nats_connection_mailbox_def
  by (intro typed_intros)+

lemma typed_effects [typed_intros]:
  "typed_op sd_channel_new" "typed_op (sd_try_send c)" "typed_op (modify (droppers_update df))"
  "typed_op (modify (undestroyed_update uf))" "typed_op (call_handler h x)" "typed_op (spawn tk)"
  "typed_op (hand_over x')" "typed_op (chan_modify c cf)" "typed_op (modify (pumps_update pf))"
  "typed_op (modify (sender_tasks_update tf))" "typed_op (inner_store c n)"
  "typed_op (bytes_copy BYTES BYTES_update th d)" "typed_op (bytes_copy BYTES_reply BYTES_reply_update th d)"
  "typed_op (bytes_copy BYTES_try_send BYTES_try_send_update th d)"
  "typed_op (bytes_copy BYTES_send BYTES_send_update th d)"
  unfolding sd_try_send_def call_handler_def spawn_def hand_over_def chan_modify_def inner_store_def bytes_copy_def
  by ((intro typed_intros typed_modify; simp; fail) |
      (simp add: typed_op_def sd_channel_new_def heap_same boxes_other del: boxes.simps; fail))+

lemma typed_subscribtions [typed_intros]:
  "typed_op (AsyncNatsSubscribtion_new rt sub)" "typed_op (async_nats_subscribtion_delete p)"
  "typed_op (async_nats_subscribtion_get_cancellation_token p)"
  "typed_op (async_nats_subscribtion_cancellation_token_clone p)"
  "typed_op (async_nats_subscribtion_cancellation_token_delete p)"
  "typed_op (async_nats_subscribtion_cancellation_token_cancel p)"
  unfolding AsyncNatsSubscribtion_new_def async_nats_subscribtion_delete_def
    async_nats_subscribtion_get_cancellation_token_def async_nats_subscribtion_cancellation_token_clone_def
    async_nats_subscribtion_cancellation_token_delete_def async_nats_subscribtion_cancellation_token_cancel_def
  by (intro typed_intros)+

lemma typed_grow:
  "(\<And>w. brk w \<le> brk (f w)) \<Longrightarrow> (\<And>w. boxes (f w) = boxes w) \<Longrightarrow> typed_op (\<lambda>w. Inr (a w, f w))"
  unfolding typed_op_def using heap_same by (metis Inr_inject Pair_inject)

lemma typed_receivers [typed_intros]:
  "typed_op (async_nats_named_receiver_new k p cap)" "typed_op (async_nats_named_receiver_clone k p)"
  "typed_op (async_nats_named_receiver_delete k p)" "typed_op (async_nats_named_receiver_try_recv k p)"
  "typed_op (async_nats_named_receiver_recv k p)"
  unfolding async_nats_named_receiver_new_def AsyncNatsNamedReceiver_new_def async_nats_named_receiver_clone_def
    async_nats_named_receiver_delete_def async_nats_named_receiver_try_recv_def
    async_nats_named_receiver_recv_def chan_call_def
  by (intro typed_intros typed_grow; simp)+

lemma typed_senders [typed_intros]:
  "typed_op (async_nats_named_sender_new t d p cap)" "typed_op (async_nats_named_sender_clone p)"
  "typed_op (async_nats_named_sender_delete p)" "typed_op (async_nats_named_sender_try_send t th p tp d n)"
  "typed_op (async_nats_named_sender_send t th p tp d n)" "typed_op (sender_task_recv t i)"
  "typed_op (sender_task_done t i ok)"
  unfolding async_nats_named_sender_new_def with_capacity_def async_nats_named_sender_clone_def
    async_nats_named_sender_delete_def async_nats_named_sender_try_send_def async_nats_named_sender_send_def
    sender_task_recv_def sender_task_done_def arc_clone_def arc_drop_def message_topic_def
  by (intro typed_intros typed_grow; simp)+

text \<open>The special member functions of every class.\<close>

lemma typed_hstep:
  assumes "\<And>i p. typed_op (h_adopt c i p)" "\<And>i j. typed_op (h_move c i j)" "\<And>i j. typed_op (h_move_assign c i j)"
    "\<And>i. typed_op (h_dtor c i)" "\<And>i j. typed_op (h_copy c i j)" "\<And>i j. typed_op (h_copy_assign c i j)"
  shows "typed_op (hstep c x)"
  using assms by (cases x) simp_all

lemmas class_defs = OwnedString_class_def OwnedString_ctor_def OwnedString_move_ctor_def
  OwnedString_dtor_def OwnedString_move_assign_def Message_class_def Message_from_raw_def
  Message_move_ctor_def Message_dtor_def Message_move_assign_def Message_copy_ctor_def
  Message_copy_assign_def HeadersView_defs HeaderIterator_defs RequestBuilder_class_def
  RequestBuilder_init_def RequestBuilder_move_ctor_def RequestBuilder_dtor_def
  RequestBuilder_move_assign_def TokioRuntimeConfig_class_def TokioRuntimeConfig_init_def
  TokioRuntimeConfig_move_ctor_def TokioRuntimeConfig_dtor_def TokioRuntimeConfig_move_assign_def
  TokioRuntime_class_def TokioRuntime_init_def TokioRuntime_move_ctor_def TokioRuntime_dtor_def
  TokioRuntime_move_assign_def ConnectionOptions_class_def ConnectionOptions_init_def
  ConnectionOptions_move_ctor_def ConnectionOptions_dtor_def ConnectionOptions_move_assign_def
  Connection_class_def Connection_from_raw_def Connection_copy_ctor_def Connection_move_ctor_def
  Connection_dtor_def Connection_copy_assign_def Connection_move_assign_def Subscribtion_class_def
  Subscribtion_from_raw_def Subscribtion_move_ctor_def Subscribtion_dtor_def
  Subscribtion_move_assign_def SubscribtionCancellationToken_class_def
  SubscribtionCancellationToken_from_raw_def SubscribtionCancellationToken_copy_ctor_def
  SubscribtionCancellationToken_move_ctor_def SubscribtionCancellationToken_dtor_def
  SubscribtionCancellationToken_copy_assign_def SubscribtionCancellationToken_move_assign_def
  Receiver_class_def Receiver_init_def Receiver_copy_ctor_def Receiver_move_ctor_def Receiver_dtor_def
  Receiver_copy_assign_def Receiver_move_assign_def Sender_class_def Sender_init_def
  Sender_copy_ctor_def Sender_move_ctor_def Sender_dtor_def Sender_copy_assign_def
  Sender_move_assign_def

lemma typed_classes [typed_intros]:
  "typed_op (hstep OwnedString_class x)" "typed_op (hstep Message_class x)" "typed_op (hstep HeadersView_class x)"
  "typed_op (hstep HeaderIterator_class x)" "typed_op (hstep RequestBuilder_class x)"
  "typed_op (hstep TokioRuntimeConfig_class x)" "typed_op (hstep TokioRuntime_class x)"
  "typed_op (hstep ConnectionOptions_class x)" "typed_op (hstep Connection_class x)"
  "typed_op (hstep Subscribtion_class x)" "typed_op (hstep SubscribtionCancellationToken_class x)"
  "typed_op (hstep (Receiver_class k) x)" "typed_op (hstep Sender_class x)"
  by (rule typed_hstep;
      simp add: class_defs del: bnd_ret; intro typed_intros impI conjI)+

text \<open>The exception classes.\<close>

lemmas exception_defs = ConnectionError_class_def ConnectionError_ctor_def ConnectionError_copy_ctor_def
  ConnectionError_move_ctor_def ConnectionError_dtor_def ConnectionError_copy_assign_def
  ConnectionError_move_assign_def ConnectionError_what_def RequestError_class_def RequestError_ctor_def
  RequestError_copy_ctor_def RequestError_move_ctor_def RequestError_dtor_def RequestError_copy_assign_def
  RequestError_move_assign_def RequestError_what_def

lemma typed_exceptions [typed_intros]:
  "typed_op (estep ConnectionError_class x)" "typed_op (estep RequestError_class x)"
  by (cases "(ConnectionError_class, x)" rule: estep.cases;
      simp add: exception_defs opt_move_assign_def opt_destroy_def del: bnd_ret; intro typed_intros impI conjI)+

text \<open>Constructors and operations with arguments.\<close>

lemma typed_constructors [typed_intros]:
  "typed_op (RequestBuilder_ctor u i)" "typed_op (TokioRuntimeConfig_ctor ap i)" "typed_op (TokioRuntime_ctor tokio c i)"
  "typed_op (ConnectionOptions_ctor u i)" "typed_op (Connection_default u i)" "typed_op (Receiver_ctor k i s cap)"
  "typed_op (Sender_ctor t i d c cap)" "typed_op (Message_headers i j)"
  unfolding RequestBuilder_ctor_def TokioRuntimeConfig_ctor_def TokioRuntime_ctor_def ConnectionOptions_ctor_def
    Connection_default_def Receiver_ctor_def Subscribtion_release_raw_def Sender_ctor_def Message_headers_def
    HeadersView_ctor_def HeadersView_init_def
  by (intro typed_intros)+

lemma typed_setters [typed_intros]:
  "typed_op (RequestBuilder_set a i)" "typed_op (TokioRuntimeConfig_set b i)"
  "typed_op (ConnectionOptions_set parse c i)" "typed_op (TokioRuntime_use u i)" "typed_op (Connection_use u i)"
  "typed_op (RequestBuilder_release i)"
  by (cases a, (simp add: RequestBuilder_inbox_def RequestBuilder_data_def RequestBuilder_timeout_def; intro typed_intros)+)
    (cases b, (simp add: TokioRuntimeConfig_thread_name_def TokioRuntimeConfig_thread_count_def; intro typed_intros)+,
     cases c, (simp add: ConnectionOptions_name_def ConnectionOptions_address_def; intro typed_intros)+,
     (simp add: TokioRuntime_use_def Connection_use_def RequestBuilder_release_def del: bnd_ret; intro typed_intros)+)

lemma typed_calls [typed_intros]:
  "typed_op (Subscribtion_get_cancellation_token i j)" "typed_op (SubscribtionCancellationToken_cancel i)"
  "typed_op (Connection_new_mailbox new_inbox i j)" "typed_op (Message_to_string debug i j)"
  "typed_op (Receiver_try_receive k i j)" "typed_op (Receiver_receive k i j)"
  "typed_op (Sender_try_send t th i tp v)" "typed_op (Sender_send t th i tp v)"
  unfolding Subscribtion_get_cancellation_token_def SubscribtionCancellationToken_cancel_def
    SubscribtionCancellationToken_from_raw_def Connection_new_mailbox_def OwnedString_ctor_def
    Message_to_string_def async_nats_message_to_string_def Receiver_try_receive_def Receiver_receive_def
    Message_from_raw_def Sender_try_send_def Sender_send_def
  by (intro typed_intros)+

text \<open>The asynchronous operations and their tasks.\<close>

lemma typed_callbacks [typed_intros]:
  "typed_op (allocate_ctx h)" "typed_op (publish_callback c)" "typed_op (subscribe_callback p e c)"
  "typed_op (request_callback p e c)" "typed_op (connect_callback p e c)" "typed_op (receive_callback p c)"
  unfolding publish_callback_def subscribe_callback_def request_callback_def connect_callback_def
    receive_callback_def deallocate_ctx_def allocate_ctx_def
  by (intro typed_intros)+

lemma typed_spawning [typed_intros]:
  "typed_op (async_nats_connection_publish_async th p sl d n c)"
  "typed_op (async_nats_connection_publish_with_reply_async th p sl sl' d n c)"
  "typed_op (async_nats_connection_subscribe_async p d c)" "typed_op (async_nats_connection_request_async p d d' n c)"
  "typed_op (async_nats_connection_send_request_async p d q c)" "typed_op (async_nats_connection_connect p q c)"
  "typed_op (async_nats_subscribtion_receive_async p c)"
  unfolding async_nats_connection_publish_async_def async_nats_connection_publish_with_reply_async_def
    async_nats_connection_subscribe_async_def async_nats_connection_request_async_def
    async_nats_connection_send_request_async_def async_nats_connection_connect_def
    async_nats_subscribtion_receive_async_def
  by (intro typed_intros)+

lemma typed_initiate [typed_intros]: "typed_op (initiate a h)"
  by (cases a; simp add: Connection_publish_def Connection_publish_reply_def Connection_subcribe_def
      Connection_request_def Connection_send_request_def connect_def Subscribtion_receive_def
      Subscribtion_get_raw_def del: bnd_ret; intro typed_intros)

lemma typed_task_start [typed_intros]: "typed_op (task_start t)"
  by (cases t; simp del: bnd_ret; intro typed_intros)

lemma typed_results [typed_intros]:
  "typed_op (request_result r c)" "typed_op (subscribe_result rt r c)" "typed_op (connect_result rt r c)"
  "typed_op (receive_result r c)"
  by (cases r; simp del: bnd_ret; intro typed_intros)+

lemma typed_task_finish [typed_intros]: "typed_op (task_finish t r)"
  by (cases t; simp del: bnd_ret; intro typed_intros)

text \<open>Iteration over headers and values.\<close>

lemma typed_header_values [typed_intros]:
  "typed_op (async_nats_message_header_iterator_value_count p)" "typed_op (async_nats_message_header_iterator_value_at p n)"
  "typed_op (async_nats_message_header_iterator_key p)" "typed_op (async_nats_message_has_headers p)"
  "typed_op (async_nats_message_get_header name_from_str map_get p sl)"
  unfolding async_nats_message_header_iterator_value_count_def async_nats_message_header_iterator_value_at_def
    async_nats_message_header_iterator_key_def async_nats_message_get_header_def
    async_nats_message_has_headers_def current_val_def header_iterator_from_ptr_def
  by (intro typed_intros typed_reads [OF reads_headers] | (split name_ref.split, intro conjI allI impI))+

lemma typed_header_views [typed_intros]:
  "typed_op (HeaderVectorView_ctor i p own)" "typed_op (HeaderVectorView_move_ctor i j)" "typed_op (HeaderVectorView_dtor i)"
  "typed_op (HeaderVectorView_move_assign i j)" "typed_op (HeaderVectorView_at i n)"
  "typed_op (HeaderIterator_inc i)" "typed_op (HeaderIterator_default i)" "typed_op (HeaderIterator_from_raw i p)"
  unfolding HeaderVectorView_ctor_def HeaderVectorView_move_ctor_def HeaderVectorView_dtor_def
    HeaderVectorView_move_assign_def HeaderVectorView_at_def HeaderIterator_inc_def HeaderIterator_default_def
    HeaderIterator_from_raw_def HeaderIterator_init_def
  by (intro typed_intros)+

lemma typed_header_calls [typed_intros]:
  "typed_op (HeaderIterator_deref i j k)" "typed_op (HeadersView_begin i j)" "typed_op (HeadersView_end j)"
  "typed_op (HeadersView_get_header name_from_str map_get i v j k)"
  unfolding HeaderIterator_deref_def HeadersView_begin_def HeadersView_end_def HeadersView_get_header_def
  by (intro typed_intros)+

end
