(* ===== verification/System.thy ===== *)
theory System
  imports Typing
begin

text \<open>
  The library as a whole: one alphabet of everything a program can do with the objects of the library
  and everything the runtime does in the background, one step function that runs the operations of the
  other theories, and what holds of all their interleavings.
\<close>

subsection \<open>Everything that can happen\<close>

text \<open>The code outside the repository, as in the theories before.\<close>

record ('s, 'c, 'm, 'q) env =
  e_tokio :: tokio_builder
  e_parse :: "bytes \<Rightarrow> bytes option"
  e_inbox :: "nat \<Rightarrow> bytes"
  e_debug :: "nats_message \<Rightarrow> bytes"
  e_name :: "bytes \<Rightarrow> bytes option"
  e_get :: "header_map \<Rightarrow> bytes \<Rightarrow> nat option"
  e_chan :: "'c chan_ops"
  e_ops :: "('m, 'q) tokio_ops"
  e_crates :: "'s crates"

datatype header_op =
    HIter hop
  | HBegin oid oid
  | HEnd oid
  | HInc oid
  | HDeref oid oid oid
  | HGet oid string_view oid oid
  | HVMove oid oid
  | HVAssign oid oid
  | HVDestroy oid
  | HVAt oid u64

datatype sysop =
    OString hop
  | OMessage mop
  | OHeader header_op
  | OConnectError eop
  | ORequestError eop
  | ORequest "(unit, request_set) vop"
  | OConfig "(usize option, runtime_set) vop"
  | ORuntime "(oid, unit) vop"
  | OOptions "(unit, options_set) vop"
  | OConnection "(unit, unit) vop"
  | OSubscribtion hop
  | OToken hop
  | OReceiver hop
  | OSender hop
  | ToString oid oid
  | NewMailbox oid oid
  | GetToken oid oid
  | Cancel oid
  | NewReceiver oid oid u64
  | TryReceive oid oid
  | BlockingReceive oid oid
  | NewSender oid dptr oid u64
  | TrySend nat oid dptr string_view
  | SendNow nat oid dptr string_view
  | Initiate api_call handler
  | Buffer ptr "bytes option"
  | TaskStart nat
  | TaskFinish nat response
  | ReceivePolls nat
  | Arrives nat nats_message
  | DropperRuns nat
  | PumpRuns nat
  | SenderTakes nat
  | SenderDone nat bool

text \<open>
  The steps of the runtime on its lists of tasks. A task that is not there, or not at that point, does
  nothing. The task of \<open>receive\<close> ends when a poll of its subscription is ready, any other task when
  the client responds. A poll that would not return is a fault of its own here; by \<open>pop_correct\<close> there
  is none.
\<close>

fun receiving :: "task \<Rightarrow> bool" where
  "receiving (TReceive s ctx) = True"
| "receiving _ = False"

definition start_task :: "nat \<Rightarrow> ('z aw_scheme, unit) cm" where
  "start_task k =
     bnd (gets pending) (\<lambda>ts.
     if k < length ts \<and> \<not> snd (ts ! k)
     then sq (task_start (fst (ts ! k))) (modify (\<lambda>w. w\<lparr>pending := ts[k := (fst (ts ! k), True)]\<rparr>))
     else ret ())"

definition finish_task :: "nat \<Rightarrow> response \<Rightarrow> ('z aw_scheme, unit) cm" where
  "finish_task k r =
     bnd (gets pending) (\<lambda>ts.
     if k < length ts \<and> snd (ts ! k) \<and> \<not> receiving (fst (ts ! k)) \<and> answers (fst (ts ! k)) r
     then sq (task_finish (fst (ts ! k)) r) (modify (\<lambda>w. w\<lparr>pending := take k ts @ drop (Suc k) ts\<rparr>))
     else ret ())"

definition poll_receive :: "'s crates \<Rightarrow> nat \<Rightarrow> (('s, 'z) dw_scheme, unit) cm" where
  "poll_receive c k =
     (\<lambda>w. if k < length (pending w) \<and> snd (pending w ! k)
          then (case fst (pending w ! k) of
                  TReceive s ctx \<Rightarrow>
                    (case receive_poll c s ctx w of
                       None \<Rightarrow> Inl (Abort ''the poll does not return'')
                     | Some (Inl e) \<Rightarrow> Inl e
                     | Some (Inr (fin, w')) \<Rightarrow>
                         Inr ((), if fin then w'\<lparr>pending := take k (pending w) @ drop (Suc k) (pending w)\<rparr> else w'))
                | _ \<Rightarrow> Inr ((), w))
          else Inr ((), w))"

definition arrive :: "'s crates \<Rightarrow> nat \<Rightarrow> nats_message \<Rightarrow> (('s, 'z) dw_scheme, unit) cm" where
  "arrive c s m = modify (\<lambda>w. w\<lparr>subscribers := (subscribers w)(s := cr_arrive c m (subscribers w s))\<rparr>)"

definition dropper_step :: "'s crates \<Rightarrow> nat \<Rightarrow> (('s, 'z) dw_scheme, unit) cm" where
  "dropper_step c k = modify (\<lambda>w. if k < length (droppers w) then run_dropper c k w else w)"

definition pump_once :: "'s crates \<Rightarrow> 'c chan_ops \<Rightarrow> nat \<Rightarrow> (('s, 'c, 'z) rw_scheme, unit) cm" where
  "pump_once c k i =
     (\<lambda>w. if i < length (pumps w)
          then (case pump_step c k i w of
                  None \<Rightarrow> Inl (Abort ''the poll does not return'')
                | Some (Inl e) \<Rightarrow> Inl e
                | Some (Inr w') \<Rightarrow> Inr ((), w'))
          else Inr ((), w))"

fun header_step :: "('s, 'c, 'm, 'q) env \<Rightarrow> header_op \<Rightarrow> ('z hw_scheme, unit) cm" where
  "header_step E (HIter x) = hstep HeaderIterator_class x"
| "header_step E (HBegin i j) = HeadersView_begin i j"
| "header_step E (HEnd j) = HeadersView_end j"
| "header_step E (HInc i) = HeaderIterator_inc i"
| "header_step E (HDeref i j k) = bnd (HeaderIterator_deref i j k) (\<lambda>_. ret ())"
| "header_step E (HGet i v j k) = bnd (HeadersView_get_header (e_name E) (e_get E) i v j k) (\<lambda>_. ret ())"
| "header_step E (HVMove i j) = HeaderVectorView_move_ctor i j"
| "header_step E (HVAssign i j) = HeaderVectorView_move_assign i j"
| "header_step E (HVDestroy i) = HeaderVectorView_dtor i"
| "header_step E (HVAt i n) = bnd (HeaderVectorView_at i n) (\<lambda>_. ret ())"

fun sysstep :: "('s, 'c, 'm, 'q) env \<Rightarrow> sysop \<Rightarrow> (('s, 'c, 'm, 'q, 'z) xw_scheme, unit) cm" where
  "sysstep E (OString x) = hstep OwnedString_class x"
| "sysstep E (OMessage x) = mstep x"
| "sysstep E (OHeader x) = header_step E x"
| "sysstep E (OConnectError x) = estep ConnectionError_class x"
| "sysstep E (ORequestError x) = estep RequestError_class x"
| "sysstep E (ORequest x) = ostep RequestBuilder_ctor RequestBuilder_set RequestBuilder_class x"
| "sysstep E (OConfig x) = ostep TokioRuntimeConfig_ctor TokioRuntimeConfig_set TokioRuntimeConfig_class x"
| "sysstep E (ORuntime x) = ostep (TokioRuntime_ctor (e_tokio E)) TokioRuntime_use TokioRuntime_class x"
| "sysstep E (OOptions x) =
     ostep ConnectionOptions_ctor (ConnectionOptions_set (e_parse E)) ConnectionOptions_class x"
| "sysstep E (OConnection x) = ostep Connection_default Connection_use Connection_class x"
| "sysstep E (OSubscribtion x) = hstep Subscribtion_class x"
| "sysstep E (OToken x) = hstep SubscribtionCancellationToken_class x"
| "sysstep E (OReceiver x) = hstep (Receiver_class (e_chan E)) x"
| "sysstep E (OSender x) = hstep Sender_class x"
| "sysstep E (ToString i j) = Message_to_string (e_debug E) i j"
| "sysstep E (NewMailbox i j) = Connection_new_mailbox (e_inbox E) i j"
| "sysstep E (GetToken i j) = Subscribtion_get_cancellation_token i j"
| "sysstep E (Cancel i) = SubscribtionCancellationToken_cancel i"
| "sysstep E (NewReceiver i s n) = Receiver_ctor (e_chan E) i s n"
| "sysstep E (TryReceive i j) = Receiver_try_receive (e_chan E) i j"
| "sysstep E (BlockingReceive i j) = bnd (Receiver_receive (e_chan E) i j) (\<lambda>_. ret ())"
| "sysstep E (NewSender i d c n) = Sender_ctor (e_ops E) i d c n"
| "sysstep E (TrySend th i d v) = bnd (Sender_try_send (e_ops E) th i d v) (\<lambda>_. ret ())"
| "sysstep E (SendNow th i d v) = Sender_send (e_ops E) th i d v"
| "sysstep E (Initiate a h) = initiate a h"
| "sysstep E (Buffer p b) = modify (\<lambda>w. w\<lparr>cbuf := (cbuf w)(p := b)\<rparr>)"
| "sysstep E (TaskStart k) = start_task k"
| "sysstep E (TaskFinish k r) = finish_task k r"
| "sysstep E (ReceivePolls k) = poll_receive (e_crates E) k"
| "sysstep E (Arrives s m) = arrive (e_crates E) s m"
| "sysstep E (DropperRuns k) = dropper_step (e_crates E) k"
| "sysstep E (PumpRuns i) = pump_once (e_crates E) (e_chan E) i"
| "sysstep E (SenderTakes i) =
     bnd (gets (\<lambda>w. i < length (sender_tasks w))) (\<lambda>b. whenM b (sender_task_recv (e_ops E) i))"
| "sysstep E (SenderDone i ok) =
     bnd (gets (\<lambda>w. i < length (sender_tasks w))) (\<lambda>b. whenM b (sender_task_done (e_ops E) i ok))"

fun sysrun :: "('s, 'c, 'm, 'q) env \<Rightarrow> sysop list \<Rightarrow> (('s, 'c, 'm, 'q, 'z) xw_scheme, unit) cm" where
  "sysrun E [] = ret ()"
| "sysrun E (x # xs) = sq (sysstep E x) (sysrun E xs)"

subsection \<open>Every step is well typed\<close>

lemma typed_tasks [typed_intros]:
  "typed_op (start_task k)" "typed_op (finish_task k r)" "typed_op (dropper_step c k)" "typed_op (arrive c s m)"
  unfolding start_task_def finish_task_def dropper_step_def arrive_def
  by (intro typed_intros typed_modify; simp add: run_dropper_def Let_def)+

lemma pump_step_frame:
  assumes "pump_step c k i w = Some (Inr w')"
  shows "\<exists>s l ps ch. w' = w\<lparr>subscribers := s, sds := l, pumps := ps, rchans := ch\<rparr>"
proof -
  obtain b tx where p: "pumps w ! i = (b, tx)" by (cases "pumps w ! i")
  then obtain q w1 where q: "subscribtion_pop c b w = Some (Inr (q, w1))"
    using assms by (auto simp: pump_step_def split: option.splits sum.splits)
  obtain s l where "w1 = w\<lparr>subscribers := s, sds := l\<rparr>" using subscribtion_pop_frame [OF q] by blast
  with assms p q have "w' = w\<lparr>subscribers := subscribers w', sds := sds w', pumps := pumps w', rchans := rchans w'\<rparr>"
    by (auto simp: pump_step_def split: poll.splits option.splits)
  then show ?thesis by blast
qed

lemma typed_pump [typed_intros]: "typed_op (pump_once c k i)"
proof -
  have "heap_typed w' \<and> heap_ext w w'" if "heap_typed w" "pump_once c k i w = Inr (u, w')" for w w' u
  proof (cases "pump_step c k i w = Some (Inr w')")
    case True
    then obtain s l ps ch where "w' = w\<lparr>subscribers := s, sds := l, pumps := ps, rchans := ch\<rparr>"
      using pump_step_frame by blast
    with that(1) show ?thesis by (intro heap_same) simp_all
  next
    case False
    with that show ?thesis by (auto simp: pump_once_def split: if_splits option.splits sum.splits)
  qed
  then show ?thesis unfolding typed_op_def by blast
qed

text \<open>A poll of a receiving task is a poll of the subscription, then perhaps the end of the task.\<close>

lemma receive_poll_steps:
  assumes "receive_poll c s ctx w = Some (Inr (fin, w'))"
  shows "\<exists>b st l p. subs w s = Some b \<and> subscribtion_pop c b w = Some (Inr (p, w\<lparr>subscribers := st, sds := l\<rparr>))
    \<and> (case p of Pending \<Rightarrow> \<not> fin \<and> w' = w\<lparr>subscribers := st, sds := l\<rparr>
       | Ready m \<Rightarrow> fin \<and> task_finish (TReceive s ctx) (pop_response m) (w\<lparr>subscribers := st, sds := l\<rparr>) = Inr ((), w'))"
proof -
  obtain b where b: "subs w s = Some b" "s \<noteq> null"
    using assms by (auto simp: receive_poll_def deref_run split: if_splits option.splits)
  obtain p v where p: "subscribtion_pop c b w = Some (Inr (p, v))"
    using assms b by (force simp: receive_poll_def deref_run split: option.splits sum.splits)
  obtain st l where v: "v = w\<lparr>subscribers := st, sds := l\<rparr>" using subscribtion_pop_frame [OF p] by blast
  have "case p of Pending \<Rightarrow> \<not> fin \<and> w' = v
       | Ready m \<Rightarrow> fin \<and> task_finish (TReceive s ctx) (pop_response m) v = Inr ((), w')"
  proof (cases p)
    case Pending
    with assms b p show ?thesis by (simp add: receive_poll_def deref_run)
  next
    case (Ready m)
    with assms b p have "sq (receive_result (pop_response m) ctx) (ret True) v = Inr (fin, w')"
      by (simp add: receive_poll_def deref_run)
    moreover have "subs v s = Some b" using b(1) v by simp
    ultimately show ?thesis using Ready b(2) by (auto simp: sq_run bnd_run deref_run split: sum.splits)
  qed
  with b(1) p v show ?thesis by blast
qed

lemma answers_pop: "answers (TReceive s ctx) (pop_response m)"
  by (simp add: pop_response_def split: option.splits)

lemma poll_receive_cases:
  assumes "poll_receive c k w = Inr (u, w')"
  obtains "w' = w"
  | s ctx fin v where "k < length (pending w)" "pending w ! k = (TReceive s ctx, True)"
    "receive_poll c s ctx w = Some (Inr (fin, v))"
    "w' = (if fin then v\<lparr>pending := take k (pending w) @ drop (Suc k) (pending w)\<rparr> else v)"
proof (cases "\<exists>s ctx. k < length (pending w) \<and> pending w ! k = (TReceive s ctx, True)")
  case True
  then obtain s ctx where t: "k < length (pending w)" "pending w ! k = (TReceive s ctx, True)" by blast
  show ?thesis
  proof (cases "receive_poll c s ctx w")
    case None
    with assms t show ?thesis by (simp add: poll_receive_def)
  next
    case (Some x)
    show ?thesis
    proof (cases x)
      case (Inl e)
      with assms t Some show ?thesis by (simp add: poll_receive_def)
    next
      case (Inr y)
      obtain fin v where "y = (fin, v)" by (cases y)
      with assms t Some Inr show ?thesis by (intro that(2) [OF t]) (auto simp: poll_receive_def)
    qed
  qed
next
  case False
  have "w' = w"
  proof (cases "k < length (pending w) \<and> snd (pending w ! k)")
    case True
    with False assms show ?thesis
      by (cases "fst (pending w ! k)"; cases "pending w ! k"; simp add: poll_receive_def)
  qed (use assms in \<open>auto simp: poll_receive_def\<close>)
  then show ?thesis by (rule that(1))
qed

lemma typed_poll_receive [typed_intros]: "typed_op (poll_receive c k)"
proof -
  have "heap_typed w' \<and> heap_ext w w'" if w: "heap_typed w" and run: "poll_receive c k w = Inr (u, w')" for w w' u
    using run
  proof (cases rule: poll_receive_cases)
    case 1
    with w show ?thesis by (simp add: heap_ext_refl)
  next
    case (2 s ctx fin v)
    obtain st l p where "case p of Pending \<Rightarrow> \<not> fin \<and> v = w\<lparr>subscribers := st, sds := l\<rparr>
       | Ready m \<Rightarrow> fin \<and> task_finish (TReceive s ctx) (pop_response m) (w\<lparr>subscribers := st, sds := l\<rparr>) = Inr ((), v)"
      using receive_poll_steps [OF 2(3)] by blast
    then obtain m where cases: "v = w\<lparr>subscribers := st, sds := l\<rparr>
        \<or> task_finish (TReceive s ctx) (pop_response m) (w\<lparr>subscribers := st, sds := l\<rparr>) = Inr ((), v)"
      by (cases p; simp only: poll.case) blast+
    have "heap_typed (w\<lparr>subscribers := st, sds := l\<rparr>)" "heap_ext w (w\<lparr>subscribers := st, sds := l\<rparr>)"
      using heap_same [OF w, of "w\<lparr>subscribers := st, sds := l\<rparr>"] by simp_all
    with cases have v: "heap_typed v \<and> heap_ext w v"
      using typed_opD [OF typed_task_finish] heap_ext_trans by blast
    then have "heap_typed w' \<and> heap_ext v w'" unfolding 2(4) using heap_same [of v] by simp
    with v show ?thesis using heap_ext_trans by blast
  qed
  then show ?thesis unfolding typed_op_def by blast
qed

lemma typed_mstep [typed_intros]: "typed_op (mstep x)"
  by (cases x; simp; intro typed_intros)

lemma typed_ostep:
  assumes "\<And>n i. typed_op (new n i)" "\<And>a i. typed_op (setter a i)" "\<And>y. typed_op (hstep cls y)"
  shows "typed_op (ostep new setter cls x)"
  using assms by (cases x) simp_all

lemma typed_header_step [typed_intros]: "typed_op (header_step E x)"
  by (cases x; simp del: bnd_ret; intro typed_intros)

lemma typed_sysstep [typed_intros]: "typed_op (sysstep E x)"
  by (cases x; simp del: bnd_ret; intro typed_ostep typed_intros typed_modify; simp)

lemma typed_sysrun: "typed_op (sysrun E xs)"
  by (induction xs) (simp_all only: sysrun.simps typed_ret typed_sq typed_sysstep)

end
