(* ===== verification/Program.thy ===== *)
theory Program
  imports System
begin

text \<open>
  The composition of the components: the objects of all classes together, with the tasks of the
  runtime, as one system. The invariants of the classes are put together to a relation between worlds
  and abstract states, the rules of a well-behaved program are an executable function, and every step
  such a program or the runtime makes is shown to run without a fault and to preserve the relation.
\<close>

subsection \<open>What the objects own\<close>

text \<open>
  The abstract state of a program: the values of the objects of each class that owns its boxes alone
  and those behind raw pointers, and for counted boxes and for C strings how many references are not
  held by an object.
\<close>

record sys =
  y_msg :: "ptr \<Rightarrow> nat"
  y_ce :: "ptr \<Rightarrow> nat"
  y_re :: "ptr \<Rightarrow> nat"
  y_str :: "ptr \<Rightarrow> nat"
  y_rq :: "AsyncNatsRequest vstate"
  y_rc :: "AsyncNatsTokioRuntimeConfig vstate"
  y_rt :: "AsyncNatsTokioRuntime vstate"
  y_co :: "AsyncNatsConnetionParams vstate"
  y_cn :: "AsyncNatsConnection vstate"
  y_sb :: "AsyncNatsSubscribtion vstate"
  y_tk :: "AsyncNatsSubscribtionCancellationToken vstate"
  y_rv :: "AsyncNatsNamedReceiver vstate"
  y_sn :: "AsyncNatsNamedSender vstate"

definition msgs_ok :: "sys \<Rightarrow> ('s, 'c, 'm, 'q, 'z) xw_scheme \<Rightarrow> bool" where
  "msgs_ok S w \<longleftrightarrow> msg_inv (y_msg S) w \<and> (\<forall>p m. msgs w p = Some m \<longrightarrow> am_refs m \<noteq> 0)"

definition connect_errors_ok :: "sys \<Rightarrow> ('s, 'c, 'm, 'q, 'z) xw_scheme \<Rightarrow> bool" where
  "connect_errors_ok S w \<longleftrightarrow> ref_inv (rc_refs cerrs ce_refs w) (e_ptrs (ceobjs w)) (y_ce S)
     \<and> (\<forall>p e. cerrs w p = Some e \<longrightarrow> ce_refs e \<noteq> 0 \<and> 0 \<notin> set (ce_text e))"

definition request_errors_ok :: "sys \<Rightarrow> ('s, 'c, 'm, 'q, 'z) xw_scheme \<Rightarrow> bool" where
  "request_errors_ok S w \<longleftrightarrow> ref_inv (rc_refs rerrs re_refs w) (e_ptrs (reobjs w)) (y_re S)
     \<and> (\<forall>p e. rerrs w p = Some e \<longrightarrow> re_refs e \<noteq> 0 \<and> 0 \<notin> set (re_text e))"

text \<open>A C string is held by one \<open>OwnedString\<close>, by the text of one exception, or by nobody.\<close>

definition strings_ok :: "sys \<Rightarrow> ('s, 'c, 'm, 'q, 'z) xw_scheme \<Rightarrow> bool" where
  "strings_ok S w \<longleftrightarrow>
     finite (dom (sobjs w)) \<and> finite (dom (e_texts (ceobjs w))) \<and> finite (dom (e_texts (reobjs w)))
     \<and> own_refs strs w null = 0
     \<and> (\<forall>p. p \<noteq> null \<longrightarrow> own_refs strs w p
          = holds (sobjs w) p + holds (e_texts (ceobjs w)) p + holds (e_texts (reobjs w)) p + y_str S p)"

definition values_ok :: "sys \<Rightarrow> ('s, 'c, 'm, 'q, 'z) xw_scheme \<Rightarrow> bool" where
  "values_ok S w \<longleftrightarrow>
     owns (reqs w) (rqobjs w) (y_rq S) \<and> owns (rtcfgs w) (rcobjs w) (y_rc S) \<and> owns (rts w) (rtobjs w) (y_rt S)
     \<and> owns (cparams w) (coobjs w) (y_co S) \<and> owns (conns w) (cnobjs w) (y_cn S)
     \<and> owns (subs w) (sbobjs w) (y_sb S) \<and> owns (tokens w) (tkobjs w) (y_tk S)
     \<and> owns (recvs w) (rvobjs w) (y_rv S) \<and> owns (senders w) (snobjs w) (y_sn S)"

text \<open>Every live context belongs to one pending task.\<close>

definition tasks_ok :: "'z aw_scheme \<Rightarrow> bool" where
  "tasks_ok w \<longleftrightarrow> distinct (map (ctx_of \<circ> fst) (pending w)) \<and> ctx_of ` fst ` set (pending w) = dom (ctxs w)
     \<and> undestroyed w = length (calls w)"

text \<open>
  A header iterator is held by one \<open>HeaderIterator\<close> or by one \<open>HeaderVectorView\<close> that owns it: no raw
  pointers to them are handed out.
\<close>

definition owner :: "HeaderVectorView option \<Rightarrow> ptr option" where
  "owner x = (case x of None \<Rightarrow> None | Some v \<Rightarrow> if vv_owns v then Some (vv_it v) else None)"

definition vv_owned :: "(oid \<rightharpoonup> HeaderVectorView) \<Rightarrow> (oid \<rightharpoonup> ptr)" where
  "vv_owned m = (\<lambda>i. owner (m i))"

definition iterators_ok :: "'z hw_scheme \<Rightarrow> bool" where
  "iterators_ok w \<longleftrightarrow> finite (dom (vvobjs w)) \<and> ref_inv (iter_refs w) (hiobjs w) (holds (vv_owned (vvobjs w)))
     \<and> (\<forall>p c. iters w p = Some c \<longrightarrow> hi_refcnt c \<noteq> 0)"

definition holders_ok :: "sys \<Rightarrow> ('s, 'c, 'm, 'q, 'z) xw_scheme \<Rightarrow> bool" where
  "holders_ok S w \<longleftrightarrow> msgs_ok S w \<and> connect_errors_ok S w \<and> request_errors_ok S w \<and> strings_ok S w
     \<and> values_ok S w \<and> iterators_ok w \<and> tasks_ok w"

text \<open>
  A world conforms to an abstract state when its heap is typed, the objects and raw pointers own what
  the state says, and what the pending tasks borrow is alive.
\<close>

definition conforms :: "sys \<Rightarrow> ('s, 'c, 'm, 'q, 'z) xw_scheme \<Rightarrow> bool" where
  "conforms S w \<longleftrightarrow> heap_typed w \<and> holders_ok S w \<and> borrows_ok w"

subsection \<open>What a program may do\<close>

text \<open>The object exists and is not null. The bytes a view or a C string points to are there.\<close>

definition held :: "'b vstate \<Rightarrow> oid \<Rightarrow> bool" where
  "held t i \<longleftrightarrow> (case fst t i of Some (Some _) \<Rightarrow> True | _ \<Rightarrow> False)"

fun readable :: "'z cw_scheme \<Rightarrow> string_view \<Rightarrow> bool" where
  "readable w (View d n) = (case mem_at w d of Inl _ \<Rightarrow> False | Inr b \<Rightarrow> unat n \<le> length b)"

definition terminated :: "'z cw_scheme \<Rightarrow> dptr \<Rightarrow> bool" where
  "terminated w d \<longleftrightarrow> (case mem_at w d of Inl _ \<Rightarrow> False | Inr b \<Rightarrow> 0 \<in> set b)"

fun callable :: "sys \<Rightarrow> 'z cw_scheme \<Rightarrow> api_call \<Rightarrow> bool" where
  "callable S w (Publish th i s d) = (held (y_cn S) i \<and> readable w s \<and> readable w d)"
| "callable S w (PublishReply th i s r d) = (held (y_cn S) i \<and> readable w s \<and> readable w r \<and> readable w d)"
| "callable S w (Subscribe i s) = (held (y_cn S) i \<and> terminated w s)"
| "callable S w (Request i s d) = (held (y_cn S) i \<and> terminated w s \<and> readable w d)"
| "callable S w (SendRequest i s q) = (held (y_cn S) i \<and> terminated w s \<and> held (y_rq S) q)"
| "callable S w (Connect rt opts) = (held (y_rt S) rt \<and> held (y_co S) opts)"
| "callable S w (Receive i) = held (y_sb S) i"

text \<open>The message of an iterator is there, and the iterator is where an operation needs it.\<close>

definition message_of :: "'z hw_scheme \<Rightarrow> ptr \<Rightarrow> header_map option" where
  "message_of w q =
     (case iters w q of None \<Rightarrow> None
      | Some c \<Rightarrow> (case msgs w (hi_msg c) of None \<Rightarrow> None | Some m \<Rightarrow> headers (am_msg m)))"

definition walking :: "'z hw_scheme \<Rightarrow> ptr \<Rightarrow> bool" where
  "walking w q \<longleftrightarrow> message_of w q \<noteq> None \<and> hi_iter (the (iters w q)) \<noteq> None"

definition standing :: "'z hw_scheme \<Rightarrow> ptr \<Rightarrow> bool" where
  "standing w q \<longleftrightarrow> message_of w q \<noteq> None \<and> hi_val (the (iters w q)) \<noteq> None"

fun header_rule :: "'z hw_scheme \<Rightarrow> header_op \<Rightarrow> bool" where
  "header_rule w (HIter x) = (scope NoCopy (nonnull (hiobjs w), \<lambda>_. 0) x \<noteq> None)"
| "header_rule w (HBegin i j) = (hiobjs w j = None \<and> hvobjs w i \<noteq> None \<and> hvobjs w i \<noteq> Some null)"
| "header_rule w (HEnd j) = (hiobjs w j = None)"
| "header_rule w (HInc i) = (case hiobjs w i of None \<Rightarrow> False | Some q \<Rightarrow> walking w q)"
| "header_rule w (HDeref i j k) = (j \<noteq> k \<and> vvobjs w j = None \<and> vvobjs w k = None
     \<and> (case hiobjs w i of None \<Rightarrow> False | Some q \<Rightarrow> standing w q))"
| "header_rule w (HGet i v j k) = (j \<noteq> k \<and> vvobjs w j = None \<and> vvobjs w k = None \<and> readable w v
     \<and> hvobjs w i \<noteq> None \<and> hvobjs w i \<noteq> Some null)"
| "header_rule w (HVMove i j) = (vvobjs w i = None \<and> vvobjs w j \<noteq> None)"
| "header_rule w (HVAssign i j) = (vvobjs w i \<noteq> None \<and> vvobjs w j \<noteq> None
     \<and> (i = j \<or> owner (vvobjs w j) = None \<or> owner (vvobjs w j) = Some null))"
| "header_rule w (HVDestroy i) = (vvobjs w i \<noteq> None)"
| "header_rule w (HVAt i n) =
     (case vvobjs w i of None \<Rightarrow> False
      | Some v \<Rightarrow> n < vv_size v \<and> standing w (vv_it v)
          \<and> unat n < length (snd (the (message_of w (vv_it v)) ! snd (the (hi_val (the (iters w (vv_it v))))))))"

definition put :: "oid \<Rightarrow> 'b option \<Rightarrow> 'b vstate \<Rightarrow> 'b vstate" where
  "put i x t = ((fst t)(i \<mapsto> x), snd t)"

definition raw :: "ptr \<Rightarrow> 'b \<Rightarrow> 'b vstate \<Rightarrow> 'b vstate" where
  "raw p b t = (fst t, (snd t)(p \<mapsto> b))"

definition more :: "ptr \<Rightarrow> (ptr \<Rightarrow> nat) \<Rightarrow> ptr \<Rightarrow> nat" where
  "more p r = r(p := Suc (r p))"

fun after_call :: "api_call \<Rightarrow> sys \<Rightarrow> sys" where
  "after_call (SendRequest i s q) S = S\<lparr>y_rq := put q None (y_rq S)\<rparr>"
| "after_call a S = S"

text \<open>What a finished task leaves behind for its handler to adopt.\<close>

fun after_task :: "'z aw_scheme \<Rightarrow> task \<Rightarrow> response \<Rightarrow> sys \<Rightarrow> sys" where
  "after_task w (TSubscribe conn tp ctx) (RSubscriber s) S =
     (case conns w conn of None \<Rightarrow> S
      | Some c \<Rightarrow> S\<lparr>y_sb := raw (Suc (brk w)) \<lparr>sb_rt = cn_rt c, sb_sub = s, sb_sd = brk w\<rparr> (y_sb S)\<rparr>)"
| "after_task w (TSubscribe conn tp ctx) (RFailed e) S = S\<lparr>y_str := more (brk w) (y_str S)\<rparr>"
| "after_task w (TConnect rt cfg ctx) (RClient c) S = S\<lparr>y_cn := raw (brk w) \<lparr>cn_rt = rt, cn_client = c\<rparr> (y_cn S)\<rparr>"
| "after_task w t (RConnectError k e) S = S\<lparr>y_ce := more (brk w) (y_ce S)\<rparr>"
| "after_task w t (RMessage m) S = S\<lparr>y_msg := more (brk w) (y_msg S)\<rparr>"
| "after_task w t (RRequestError k e) S = S\<lparr>y_re := more (brk w) (y_re S)\<rparr>"
| "after_task w t r S = S"

fun text_ok :: "response \<Rightarrow> bool" where
  "text_ok (RConnectError k e) = (0 \<notin> set e)"
| "text_ok (RRequestError k e) = (0 \<notin> set e)"
| "text_ok r = True"

text \<open>What a receiving task sees when it polls its subscription.\<close>

definition polled :: "('s, 'c, 'm, 'q) env \<Rightarrow> ('s, 'z) dw_scheme \<Rightarrow> nat
    \<Rightarrow> (fault + nats_message option poll \<times> ('s, 'z) dw_scheme) option" where
  "polled E w k =
     (if k < length (pending w) \<and> snd (pending w ! k)
      then case fst (pending w ! k) of
             TReceive s ctx \<Rightarrow>
               (case subs w s of None \<Rightarrow> None | Some b \<Rightarrow> subscribtion_pop (e_crates E) b w)
           | _ \<Rightarrow> None
      else None)"

definition vspec :: "('b vstate \<Rightarrow> sys) \<Rightarrow> bool \<Rightarrow> ('n \<Rightarrow> fault + 'b option) \<Rightarrow> ('a \<Rightarrow> 'b \<Rightarrow> fault + 'b) \<Rightarrow> 'b vstate
    \<Rightarrow> ('n, 'a) vop \<Rightarrow> sys option" where
  "vspec upd cp mk st t x = (case vstep cp mk st t x of Some (Inr t') \<Rightarrow> Some (upd t') | _ \<Rightarrow> None)"

abbreviation no_new :: "unit \<Rightarrow> fault + 'b option" where "no_new \<equiv> \<lambda>_. Inr None"
abbreviation no_set :: "unit \<Rightarrow> 'b \<Rightarrow> fault + 'b" where "no_set \<equiv> \<lambda>_. Inr"

text \<open>
  The rules of a program: \<open>None\<close> when the operation is not allowed in the state, otherwise the next
  state. Each class has its own rules (the abstract machine of the class, or its lifetime check); an
  operation that would fault is not allowed.
\<close>

fun spec :: "('s, 'c, 'm, 'q) env \<Rightarrow> ('s, 'c, 'm, 'q, 'z) xw_scheme \<Rightarrow> sysop \<Rightarrow> sys \<Rightarrow> sys option" where
  "spec E w (OString x) S =
     map_option (\<lambda>(_, r). S\<lparr>y_str := r\<rparr>) (scope NoCopy (nonnull (sobjs w), y_str S) x)"
| "spec E w (OMessage x) S =
     map_option (\<lambda>(_, _, r). S\<lparr>y_msg := r\<rparr>) (mscope (nonnull (mobjs w), nonnull (hvobjs w), y_msg S) x)"
| "spec E w (OHeader x) S = (if header_rule w x then Some S else None)"
| "spec E w (OConnectError x) S =
     map_option (\<lambda>(_, r). S\<lparr>y_ce := r\<rparr>) (escope (e_shape (ceobjs w), y_ce S) x)"
| "spec E w (ORequestError x) S =
     map_option (\<lambda>(_, r). S\<lparr>y_re := r\<rparr>) (escope (e_shape (reobjs w), y_re S) x)"
| "spec E w (ORequest x) S = vspec (\<lambda>t. S\<lparr>y_rq := t\<rparr>) False (\<lambda>_. Inr (Some request_default))
     (request_st (request_keep w)) (y_rq S) x"
| "spec E w (OConfig x) S = vspec (\<lambda>t. S\<lparr>y_rc := t\<rparr>) False (\<lambda>ap. Inr (Some (runtime_config_default ap)))
     config_st (y_rc S) x"
| "spec E w (ORuntime x) S = vspec (\<lambda>t. S\<lparr>y_rt := t\<rparr>) False (runtime_mk (e_tokio E) (runtime_keep w)) (\<lambda>_. Inr)
     (y_rt S) x"
| "spec E w (OOptions x) S = vspec (\<lambda>t. S\<lparr>y_co := t\<rparr>) False (\<lambda>_. Inr (Some params_default))
     (options_st (e_parse E)) (y_co S) x"
| "spec E w (OConnection x) S = vspec (\<lambda>t. S\<lparr>y_cn := t\<rparr>) True no_new no_set (y_cn S) x"
| "spec E w (OSubscribtion x) S = vspec (\<lambda>t. S\<lparr>y_sb := t\<rparr>) False no_new no_set (y_sb S) (VOp x)"
| "spec E w (OToken x) S = vspec (\<lambda>t. S\<lparr>y_tk := t\<rparr>) True no_new no_set (y_tk S) (VOp x)"
| "spec E w (OReceiver x) S = vspec (\<lambda>t. S\<lparr>y_rv := t\<rparr>) True no_new no_set (y_rv S) (VOp x)"
| "spec E w (OSender x) S = vspec (\<lambda>t. S\<lparr>y_sn := t\<rparr>) True no_new no_set (y_sn S) (VOp x)"
| "spec E w (ToString i j) S =
     (case (mobjs w i, sobjs w j) of
        (Some p, None) \<Rightarrow>
          (case msgs w p of
             Some m \<Rightarrow> if 0 \<in> set (e_debug E (am_msg m)) then None else Some S
           | None \<Rightarrow> None)
      | _ \<Rightarrow> None)"
| "spec E w (NewMailbox i j) S =
     (case (fst (y_cn S) i, sobjs w j) of
        (Some (Some c), None) \<Rightarrow> if 0 \<in> set (e_inbox E (cn_client c)) then None else Some S
      | _ \<Rightarrow> None)"
| "spec E w (GetToken i j) S =
     (case (fst (y_sb S) i, fst (y_tk S) j) of
        (Some (Some b), None) \<Rightarrow> Some (S\<lparr>y_tk := put j (Some \<lparr>tk_sd = sb_sd b\<rparr>) (y_tk S)\<rparr>)
      | _ \<Rightarrow> None)"
| "spec E w (Cancel i) S = (if fst (y_tk S) i = None then None else Some S)"
| "spec E w (NewReceiver i s n) S =
     (if fst (y_rv S) i = None \<and> held (y_sb S) s
      then Some (S\<lparr>y_sb := put s None (y_sb S), y_rv := put i (Some \<lparr>nr_receiver = brk w\<rparr>) (y_rv S)\<rparr>)
      else None)"
| "spec E w (TryReceive i j) S = (if held (y_rv S) i \<and> mobjs w j = None then Some S else None)"
| "spec E w (BlockingReceive i j) S = (if held (y_rv S) i \<and> mobjs w j = None then Some S else None)"
| "spec E w (NewSender i d c n) S =
     (if fst (y_sn S) i = None \<and> held (y_cn S) c \<and> terminated w d \<and> sem_new (e_ops E) (unat n) \<noteq> None
      then Some (S\<lparr>y_sn := put i (Some \<lparr>ns_inner = brk w\<rparr>) (y_sn S)\<rparr>) else None)"
| "spec E w (TrySend th i d v) S =
     (if held (y_sn S) i \<and> (d = DNull \<or> terminated w d) \<and> readable w v then Some S else None)"
| "spec E w (SendNow th i d v) S =
     (if held (y_sn S) i \<and> (d = DNull \<or> terminated w d) \<and> readable w v then Some S else None)"
| "spec E w (Initiate a h) S = (if callable S w a then Some (after_call a S) else None)"
| "spec E w (TaskFinish k r) S =
     (if k < length (pending w) \<and> snd (pending w ! k) \<and> \<not> receiving (fst (pending w ! k)) \<and> answers (fst (pending w ! k)) r
      then if text_ok r then Some (after_task w (fst (pending w ! k)) r S) else None
      else Some S)"
| "spec E w (ReceivePolls k) S =
     (case polled E w k of
        Some (Inr (Ready (Some m), w1)) \<Rightarrow> Some (S\<lparr>y_msg := more (brk w) (y_msg S)\<rparr>)
      | _ \<Rightarrow> Some S)"
| "spec E w _ S = Some S"

subsection \<open>What an operation of one class leaves alone\<close>

text \<open>The worlds that agree on what a class leaves alone differ in its own fields only.\<close>

lemma same_request:
  "request_keep w' = request_keep w \<Longrightarrow> w' = w\<lparr>brk := brk w', reqs := reqs w', rqobjs := rqobjs w'\<rparr>"
  by (cases w; cases w'; simp add: request_keep_def)

lemma same_config:
  "config_keep w' = config_keep w \<Longrightarrow> w' = w\<lparr>brk := brk w', rtcfgs := rtcfgs w', rcobjs := rcobjs w'\<rparr>"
  by (cases w; cases w'; simp add: config_keep_def)

lemma same_runtime:
  "runtime_keep w' = runtime_keep w \<Longrightarrow> w' = w\<lparr>brk := brk w', rts := rts w', rtobjs := rtobjs w'\<rparr>"
  by (cases w; cases w'; simp add: runtime_keep_def)

lemma same_options:
  "options_keep w' = options_keep w \<Longrightarrow> w' = w\<lparr>brk := brk w', cparams := cparams w', coobjs := coobjs w'\<rparr>"
  by (cases w; cases w'; simp add: options_keep_def)

lemma same_connection:
  "connection_keep w' = connection_keep w \<Longrightarrow> w' = w\<lparr>brk := brk w', conns := conns w', cnobjs := cnobjs w'\<rparr>"
  by (cases w; cases w'; simp add: connection_keep_def)

lemma same_subscribtion:
  "subscribtion_keep w' = subscribtion_keep w \<Longrightarrow>
    w' = w\<lparr>brk := brk w', subs := subs w', sbobjs := sbobjs w', droppers := droppers w'\<rparr>"
  by (cases w; cases w'; simp add: subscribtion_keep_def)

lemma same_token:
  "token_keep w' = token_keep w \<Longrightarrow> w' = w\<lparr>brk := brk w', tokens := tokens w', tkobjs := tkobjs w'\<rparr>"
  by (cases w; cases w'; simp add: token_keep_def)

lemma same_receiver:
  "receiver_keep w' = receiver_keep w \<Longrightarrow>
    w' = w\<lparr>brk := brk w', recvs := recvs w', rvobjs := rvobjs w', rchans := rchans w'\<rparr>"
  by (cases w; cases w'; simp add: receiver_keep_def)

lemma same_sender:
  "sender_keep w' = sender_keep w \<Longrightarrow>
    w' = w\<lparr>brk := brk w', inners := inners w', senders := senders w', snobjs := snobjs w'\<rparr>"
  by (cases w; cases w'; simp add: sender_keep_def)

lemma refs_fun: "rc_refs h cnt w = (\<lambda>p. case h w p of None \<Rightarrow> 0 | Some b \<Rightarrow> unat (cnt b))"
  "own_refs h w = (\<lambda>p. case h w p of None \<Rightarrow> 0 | Some _ \<Rightarrow> 1)"
  by (simp_all add: fun_eq_iff rc_refs_def own_refs_def)

lemmas holders_defs = holders_ok_def msgs_ok_def connect_errors_ok_def request_errors_ok_def strings_ok_def
  values_ok_def iterators_ok_def tasks_ok_def msg_inv_def
  refs_fun

lemma parts_state [simp]:
  "values_ok (S\<lparr>y_msg := r\<rparr>) w = values_ok S w" "values_ok (S\<lparr>y_ce := r\<rparr>) w = values_ok S w"
  "values_ok (S\<lparr>y_re := r\<rparr>) w = values_ok S w" "values_ok (S\<lparr>y_str := r\<rparr>) w = values_ok S w"
  "msgs_ok (S\<lparr>y_ce := r\<rparr>) w = msgs_ok S w" "msgs_ok (S\<lparr>y_re := r\<rparr>) w = msgs_ok S w"
  "msgs_ok (S\<lparr>y_str := r\<rparr>) w = msgs_ok S w"
  "connect_errors_ok (S\<lparr>y_msg := r\<rparr>) w = connect_errors_ok S w"
  "connect_errors_ok (S\<lparr>y_re := r\<rparr>) w = connect_errors_ok S w"
  "connect_errors_ok (S\<lparr>y_str := r\<rparr>) w = connect_errors_ok S w"
  "request_errors_ok (S\<lparr>y_msg := r\<rparr>) w = request_errors_ok S w"
  "request_errors_ok (S\<lparr>y_ce := r\<rparr>) w = request_errors_ok S w"
  "request_errors_ok (S\<lparr>y_str := r\<rparr>) w = request_errors_ok S w"
  "strings_ok (S\<lparr>y_msg := r\<rparr>) w = strings_ok S w" "strings_ok (S\<lparr>y_ce := r\<rparr>) w = strings_ok S w"
  "strings_ok (S\<lparr>y_re := r\<rparr>) w = strings_ok S w"
  by (simp_all add: holders_defs)

lemma typed_own:
  assumes "heap_typed w"
  shows "own_wf reqs w" "own_wf rtcfgs w" "own_wf rts w" "own_wf cparams w" "own_wf conns w" "own_wf subs w"
    "own_wf tokens w" "own_wf recvs w" "own_wf senders w" "own_wf strs w"
  unfolding own_wf_def
  using heap_typed_ok [OF assms, of KRequest "reqs w"] heap_typed_ok [OF assms, of KRuntimeConfig "rtcfgs w"]
    heap_typed_ok [OF assms, of KRuntime "rts w"] heap_typed_ok [OF assms, of KParams "cparams w"]
    heap_typed_ok [OF assms, of KConnection "conns w"] heap_typed_ok [OF assms, of KSubscribtion "subs w"]
    heap_typed_ok [OF assms, of KToken "tokens w"] heap_typed_ok [OF assms, of KReceiver "recvs w"]
    heap_typed_ok [OF assms, of KSender "senders w"] heap_typed_ok [OF assms, of KStr "strs w"]
  by simp_all

lemma vspec_Some:
  "vspec upd cp mk st t x = Some S' \<longleftrightarrow> (\<exists>t'. vstep cp mk st t x = Some (Inr t') \<and> S' = upd t')"
  by (auto simp: vspec_def split: option.splits sum.splits)

text \<open>
  A class simulates its machine; what it leaves alone keeps the other parts of the invariant. \<open>G\<close> is
  the invariant without the class's own part.
\<close>

lemma class_step:
  assumes "vspec upd cp mk st t x = Some S'" "vrel h cells keep (keep w) t w"
    and "\<And>res. vstep cp mk st t x = Some res \<Longrightarrow> (case res of Inl e \<Rightarrow> m w = Inl e
      | Inr t' \<Rightarrow> \<exists>w'. m w = Inr ((), w') \<and> vrel h cells keep (keep w) t' w')"
    and "\<And>t' w'. owns (h w') (cells w') t' \<Longrightarrow> keep w' = keep w \<Longrightarrow> G (upd t') w'"
  shows "\<exists>w'. m w = Inr ((), w') \<and> G S' w'"
proof -
  obtain t' where t: "vstep cp mk st t x = Some (Inr t')" "S' = upd t'"
    using assms(1) vspec_Some by blast
  obtain w' where "m w = Inr ((), w')" "vrel h cells keep (keep w) t' w'" using assms(3) [OF t(1)] by auto
  with assms(4) [of w' t'] t(2) show ?thesis by (auto simp: vrel_def)
qed

lemma keeps_request:
  assumes "holders_ok S w" "owns (reqs w') (rqobjs w') t'" "request_keep w' = request_keep w"
  shows "holders_ok (S\<lparr>y_rq := t'\<rparr>) w'"
  using assms(1,2) by (subst same_request [OF assms(3)]) (simp add: holders_defs)

lemma request_step:
  assumes "heap_typed w" "holders_ok S w" "spec E w (ORequest x) S = Some S'"
  shows "\<exists>w'. sysstep E (ORequest x) w = Inr ((), w') \<and> holders_ok S' w'"
proof -
  have rel: "vrel reqs rqobjs request_keep (request_keep w) (y_rq S) w"
    using assms(1,2) by (simp add: vrel_def typed_own holders_ok_def values_ok_def)
  show ?thesis
    unfolding sysstep.simps
    by (rule class_step [OF assms(3) [unfolded spec.simps] rel])
      (simp_all only: rq.vstep_refines [OF rel] keeps_request [OF assms(2)])
qed

lemma keeps_config:
  assumes "holders_ok S w" "owns (rtcfgs w') (rcobjs w') t'" "config_keep w' = config_keep w"
  shows "holders_ok (S\<lparr>y_rc := t'\<rparr>) w'"
  using assms(1,2) by (subst same_config [OF assms(3)]) (simp add: holders_defs)

lemma config_step:
  assumes "heap_typed w" "holders_ok S w" "spec E w (OConfig x) S = Some S'"
  shows "\<exists>w'. sysstep E (OConfig x) w = Inr ((), w') \<and> holders_ok S' w'"
proof -
  have rel: "vrel rtcfgs rcobjs config_keep (config_keep w) (y_rc S) w"
    using assms(1,2) by (simp add: vrel_def typed_own holders_ok_def values_ok_def)
  show ?thesis
    unfolding sysstep.simps
    by (rule class_step [OF assms(3) [unfolded spec.simps] rel])
      (simp_all only: rc.vstep_refines [OF rel] keeps_config [OF assms(2)])
qed

lemma keeps_runtime:
  assumes "holders_ok S w" "owns (rts w') (rtobjs w') t'" "runtime_keep w' = runtime_keep w"
  shows "holders_ok (S\<lparr>y_rt := t'\<rparr>) w'"
  using assms(1,2) by (subst same_runtime [OF assms(3)]) (simp add: holders_defs)

lemma runtime_step:
  assumes "heap_typed w" "holders_ok S w" "spec E w (ORuntime x) S = Some S'"
  shows "\<exists>w'. sysstep E (ORuntime x) w = Inr ((), w') \<and> holders_ok S' w'"
proof -
  have rel: "vrel rts rtobjs runtime_keep (runtime_keep w) (y_rt S) w"
    using assms(1,2) by (simp add: vrel_def typed_own holders_ok_def values_ok_def)
  show ?thesis
    unfolding sysstep.simps
    by (rule class_step [OF assms(3) [unfolded spec.simps] rel])
      (simp_all only: rt.vstep_refines [OF rel] keeps_runtime [OF assms(2)])
qed

lemma keeps_options:
  assumes "holders_ok S w" "owns (cparams w') (coobjs w') t'" "options_keep w' = options_keep w"
  shows "holders_ok (S\<lparr>y_co := t'\<rparr>) w'"
  using assms(1,2) by (subst same_options [OF assms(3)]) (simp add: holders_defs)

lemma options_step:
  assumes "heap_typed w" "holders_ok S w" "spec E w (OOptions x) S = Some S'"
  shows "\<exists>w'. sysstep E (OOptions x) w = Inr ((), w') \<and> holders_ok S' w'"
proof -
  have rel: "vrel cparams coobjs options_keep (options_keep w) (y_co S) w"
    using assms(1,2) by (simp add: vrel_def typed_own holders_ok_def values_ok_def)
  show ?thesis
    unfolding sysstep.simps
    by (rule class_step [OF assms(3) [unfolded spec.simps] rel])
      (simp_all only: co.vstep_refines [OF rel] keeps_options [OF assms(2)])
qed

lemma keeps_connection:
  assumes "holders_ok S w" "owns (conns w') (cnobjs w') t'" "connection_keep w' = connection_keep w"
  shows "holders_ok (S\<lparr>y_cn := t'\<rparr>) w'"
  using assms(1,2) by (subst same_connection [OF assms(3)]) (simp add: holders_defs)

lemma connection_step:
  assumes "heap_typed w" "holders_ok S w" "spec E w (OConnection x) S = Some S'"
  shows "\<exists>w'. sysstep E (OConnection x) w = Inr ((), w') \<and> holders_ok S' w'"
proof -
  have rel: "vrel conns cnobjs connection_keep (connection_keep w) (y_cn S) w"
    using assms(1,2) by (simp add: vrel_def typed_own holders_ok_def values_ok_def)
  show ?thesis
    unfolding sysstep.simps
    by (rule class_step [OF assms(3) [unfolded spec.simps] rel])
      (simp_all only: cn.vstep_refines [OF rel] keeps_connection [OF assms(2)])
qed

lemma keeps_subscribtion:
  assumes "holders_ok S w" "owns (subs w') (sbobjs w') t'" "subscribtion_keep w' = subscribtion_keep w"
  shows "holders_ok (S\<lparr>y_sb := t'\<rparr>) w'"
  using assms(1,2) by (subst same_subscribtion [OF assms(3)]) (simp add: holders_defs)

lemma subscribtion_step:
  assumes "heap_typed w" "holders_ok S w" "spec E w (OSubscribtion x) S = Some S'"
  shows "\<exists>w'. sysstep E (OSubscribtion x) w = Inr ((), w') \<and> holders_ok S' w'"
proof -
  have rel: "vrel subs sbobjs subscribtion_keep (subscribtion_keep w) (y_sb S) w"
    using assms(1,2) by (simp add: vrel_def typed_own holders_ok_def values_ok_def)
  show ?thesis
    unfolding sysstep.simps
    by (rule class_step [OF assms(3) [unfolded spec.simps] rel])
      (simp_all only: sb.vop_refines [OF rel] keeps_subscribtion [OF assms(2)])
qed

lemma keeps_token:
  assumes "holders_ok S w" "owns (tokens w') (tkobjs w') t'" "token_keep w' = token_keep w"
  shows "holders_ok (S\<lparr>y_tk := t'\<rparr>) w'"
  using assms(1,2) by (subst same_token [OF assms(3)]) (simp add: holders_defs)

lemma token_step:
  assumes "heap_typed w" "holders_ok S w" "spec E w (OToken x) S = Some S'"
  shows "\<exists>w'. sysstep E (OToken x) w = Inr ((), w') \<and> holders_ok S' w'"
proof -
  have rel: "vrel tokens tkobjs token_keep (token_keep w) (y_tk S) w"
    using assms(1,2) by (simp add: vrel_def typed_own holders_ok_def values_ok_def)
  show ?thesis
    unfolding sysstep.simps
    by (rule class_step [OF assms(3) [unfolded spec.simps] rel])
      (simp_all only: tk.vop_refines [OF rel] keeps_token [OF assms(2)])
qed

lemma keeps_receiver:
  assumes "holders_ok S w" "owns (recvs w') (rvobjs w') t'" "receiver_keep w' = receiver_keep w"
  shows "holders_ok (S\<lparr>y_rv := t'\<rparr>) w'"
  using assms(1,2) by (subst same_receiver [OF assms(3)]) (simp add: holders_defs)

lemma receiver_step:
  assumes "heap_typed w" "holders_ok S w" "spec E w (OReceiver x) S = Some S'"
  shows "\<exists>w'. sysstep E (OReceiver x) w = Inr ((), w') \<and> holders_ok S' w'"
proof -
  have rel: "vrel recvs rvobjs receiver_keep (receiver_keep w) (y_rv S) w"
    using assms(1,2) by (simp add: vrel_def typed_own holders_ok_def values_ok_def)
  show ?thesis
    unfolding sysstep.simps
    by (rule class_step [OF assms(3) [unfolded spec.simps] rel])
      (simp_all only: rv.vop_refines [OF rel] keeps_receiver [OF assms(2)])
qed

lemma keeps_sender:
  assumes "holders_ok S w" "owns (senders w') (snobjs w') t'" "sender_keep w' = sender_keep w"
  shows "holders_ok (S\<lparr>y_sn := t'\<rparr>) w'"
  using assms(1,2) by (subst same_sender [OF assms(3)]) (simp add: holders_defs)

lemma sender_step:
  assumes "heap_typed w" "holders_ok S w" "spec E w (OSender x) S = Some S'"
  shows "\<exists>w'. sysstep E (OSender x) w = Inr ((), w') \<and> holders_ok S' w'"
proof -
  have rel: "vrel senders snobjs sender_keep (sender_keep w) (y_sn S) w"
    using assms(1,2) by (simp add: vrel_def typed_own holders_ok_def values_ok_def)
  show ?thesis
    unfolding sysstep.simps
    by (rule class_step [OF assms(3) [unfolded spec.simps] rel])
      (simp_all only: sn.vop_refines [OF rel] keeps_sender [OF assms(2)])
qed

subsection \<open>Classes that share their boxes\<close>

lemma typed_rc:
  assumes "heap_typed w" "holders_ok S w"
  shows "rc_wf msgs am_refs w" "rc_wf cerrs ce_refs w" "rc_wf rerrs re_refs w"
  unfolding rc_wf_def
  using heap_typed_ok [OF assms(1), of KMessage "msgs w"] heap_typed_ok [OF assms(1), of KConnectError "cerrs w"]
    heap_typed_ok [OF assms(1), of KRequestError "rerrs w"] assms(2)
  by (simp_all add: holders_ok_def msgs_ok_def connect_errors_ok_def request_errors_ok_def)

text \<open>Room for one more reference to every counted box.\<close>

definition room :: "'z ew_scheme \<Rightarrow> bool" where
  "room w \<longleftrightarrow> (\<forall>p. msg_refs w p < 2 ^ 64 - 1 \<and> rc_refs cerrs ce_refs w p < 2 ^ 64 - 1
     \<and> rc_refs rerrs re_refs w p < 2 ^ 64 - 1)"

lemma same_message:
  "msg_frame w' = msg_frame w \<Longrightarrow> w' = w\<lparr>brk := brk w', msgs := msgs w', mobjs := mobjs w', hvobjs := hvobjs w'\<rparr>"
  by (cases w; cases w'; simp add: msg_frame_def)

lemma message_step:
  assumes "heap_typed w" "holders_ok S w" "spec E w (OMessage x) S = Some S'" "room w"
  shows "\<exists>w'. sysstep E (OMessage x) w = Inr ((), w') \<and> holders_ok S' w'"
proof -
  obtain s' v' r' where sc: "mscope (nonnull (mobjs w), nonnull (hvobjs w), y_msg S) x = Some (s', v', r')"
    "S' = S\<lparr>y_msg := r'\<rparr>"
    using assms(3) by auto
  have wf: "msg_wf (\<lambda>p. am_msg (the (msgs w p))) (msg_frame w) w"
    using typed_rc(1) [OF assms(1,2)] by (simp add: msg_wf_def)
  have inv: "msg_inv (y_msg S) w" using assms(2) by (simp add: holders_ok_def msgs_ok_def)
  have "msg_refs w p < 2 ^ 64 - 1" for p using assms(4) by (simp add: room_def)
  from mstep_ok [OF wf inv this sc(1)] obtain w' where w': "mstep x w = Inr ((), w')"
    "msg_wf (\<lambda>p. am_msg (the (msgs w p))) (msg_frame w) w'" "msg_inv r' w'" by blast
  then have m: "\<forall>p m. msgs w' p = Some m \<longrightarrow> am_refs m \<noteq> 0" "msg_frame w' = msg_frame w"
    by (auto simp: msg_wf_def rc_wf_def)
  have "holders_ok S' w'"
    using assms(2) w'(3) m(1) unfolding sc(2) msg_inv_def by (subst same_message [OF m(2)]) (simp add: holders_defs)
  with w'(1) show ?thesis by simp
qed

text \<open>The exception classes change their boxes, their objects and the strings of their texts.\<close>

definition keeps :: "('w \<Rightarrow> 'f) \<Rightarrow> ('w, 'a) cm \<Rightarrow> bool" where
  "keeps f m \<longleftrightarrow> (\<forall>w a w'. m w = Inr (a, w') \<longrightarrow> f w' = f w)"

named_theorems keep_intros \<open>computations that leave a part of the world alone\<close>

lemma keepsD: "keeps f m \<Longrightarrow> m w = Inr (a, w') \<Longrightarrow> f w' = f w"
  by (simp add: keeps_def)

lemma keeps_reads: "reads m \<Longrightarrow> keeps f m"
  unfolding keeps_def reads_def by metis

lemma keeps_basic [keep_intros]:
  "keeps f (ret a)" "keeps f (gets g)" "keeps f (fail e)" "keeps f (deref h p)" "keeps f (obj_get c i)"
  "keeps f (expect x s)" "keeps f (assertM b s)"
  by (rule keeps_reads, simp)+

lemma keeps_bnd [keep_intros]: "keeps f m \<Longrightarrow> (\<And>a. keeps f (g a)) \<Longrightarrow> keeps f (bnd m g)"
  unfolding keeps_def bnd_split_Inr by metis

lemma keeps_sq [keep_intros]: "keeps f m \<Longrightarrow> keeps f n \<Longrightarrow> keeps f (sq m n)"
  unfolding sq_def by (rule keeps_bnd)

lemma keeps_whenM [keep_intros]: "keeps f m \<Longrightarrow> keeps f (whenM c m)"
  by (simp add: whenM_def keeps_basic)

lemma keeps_split [keep_intros]:
  "keeps f m \<Longrightarrow> keeps f n \<Longrightarrow> keeps f (if c then m else n)"
  "keeps f m \<Longrightarrow> (\<And>a. keeps f (g a)) \<Longrightarrow> keeps f (case x of None \<Rightarrow> m | Some a \<Rightarrow> g a)"
  "(\<And>a b. keeps f (k a b)) \<Longrightarrow> keeps f (case y of (a, b) \<Rightarrow> k a b)"
  by (auto split: option.split prod.split)

lemma keeps_effects:
  "(\<And>w. f (g w) = f w) \<Longrightarrow> keeps f (modify g)"
  "(\<And>w. f (upd (\<lambda>h. h(p \<mapsto> b)) w) = f w) \<Longrightarrow> keeps f (store upd p b)"
  "(\<And>w. f (upd (\<lambda>h. h(brk w \<mapsto> b)) (w\<lparr>brk := Suc (brk w)\<rparr>)) = f w) \<Longrightarrow> keeps f (box_into_raw upd b)"
  "(\<And>w. f (upd (\<lambda>m. m(p := None)) w) = f w) \<Longrightarrow> keeps f (box_from_raw h upd p)"
  "(\<And>w. f (updo (\<lambda>c. c(i \<mapsto> m)) w) = f w) \<Longrightarrow> keeps f (obj_put updo i m)"
  "(\<And>w. f (updo (\<lambda>c. c(i := None)) w) = f w) \<Longrightarrow> keeps f (obj_end updo i)"
  by (auto simp: keeps_def cm_simps split: if_splits option.splits)

definition connect_error_keep :: "'z ew_scheme \<Rightarrow> 'z ew_scheme" where
  "connect_error_keep w = w\<lparr>brk := 0, strs := Map.empty, layout_errs := 0, cerrs := Map.empty, ceobjs := Map.empty\<rparr>"

definition request_error_keep :: "'z ew_scheme \<Rightarrow> 'z ew_scheme" where
  "request_error_keep w = w\<lparr>brk := 0, strs := Map.empty, layout_errs := 0, rerrs := Map.empty, reobjs := Map.empty\<rparr>"

lemma keeps_connect_error_api [keep_intros]:
  "keeps connect_error_keep (async_nats_connection_error_delete p)" "keeps connect_error_keep (async_nats_connection_error_clone p)"
  "keeps connect_error_keep (async_nats_connection_error_describtion p)" "keeps connect_error_keep (opt_destroy a)"
  unfolding async_nats_connection_error_delete_def async_nats_connection_error_clone_def
    async_nats_connection_error_describtion_def string_to_owned_string_def opt_destroy_def
    async_nats_owned_string_delete_def
  by (intro keep_intros keeps_effects; simp add: connect_error_keep_def)+

lemma keeps_connect_error: "keeps connect_error_keep (estep ConnectionError_class x)"
  by (cases "(ConnectionError_class, x)" rule: estep.cases;
      simp add: exception_defs opt_move_assign_def del: bnd_ret; intro keep_intros keeps_effects impI conjI;
      simp add: connect_error_keep_def)

lemma keeps_request_error_api [keep_intros]:
  "keeps request_error_keep (async_nats_request_error_delete p)" "keeps request_error_keep (async_nats_request_error_clone p)"
  "keeps request_error_keep (async_nats_request_error_describtion p)" "keeps request_error_keep (opt_destroy a)"
  unfolding async_nats_request_error_delete_def async_nats_request_error_clone_def
    async_nats_request_error_describtion_def string_to_owned_string_def opt_destroy_def
    async_nats_owned_string_delete_def
  by (intro keep_intros keeps_effects; simp add: request_error_keep_def)+

lemma keeps_request_error: "keeps request_error_keep (estep RequestError_class x)"
  by (cases "(RequestError_class, x)" rule: estep.cases;
      simp add: exception_defs opt_move_assign_def del: bnd_ret; intro keep_intros keeps_effects impI conjI;
      simp add: request_error_keep_def)

lemma same_connect_error:
  "connect_error_keep w' = connect_error_keep w \<Longrightarrow>
    w' = w\<lparr>brk := brk w', strs := strs w', layout_errs := layout_errs w', cerrs := cerrs w', ceobjs := ceobjs w'\<rparr>"
  by (cases w; cases w'; simp add: connect_error_keep_def)

lemma same_request_error:
  "request_error_keep w' = request_error_keep w \<Longrightarrow>
    w' = w\<lparr>brk := brk w', strs := strs w', layout_errs := layout_errs w', rerrs := rerrs w', reobjs := reobjs w'\<rparr>"
  by (cases w; cases w'; simp add: request_error_keep_def)

text \<open>The strings as each of the three kinds of holder sees them.\<close>

lemma strings_split:
  "strings_ok S w \<longleftrightarrow> ref_inv (own_refs strs w) (sobjs w)
       (\<lambda>p. holds (e_texts (ceobjs w)) p + holds (e_texts (reobjs w)) p + y_str S p)
     \<and> finite (dom (e_texts (ceobjs w))) \<and> finite (dom (e_texts (reobjs w)))"
  "strings_ok S w \<longleftrightarrow> ref_inv (own_refs strs w) (e_texts (ceobjs w))
       (\<lambda>p. holds (sobjs w) p + holds (e_texts (reobjs w)) p + y_str S p)
     \<and> finite (dom (sobjs w)) \<and> finite (dom (e_texts (reobjs w)))"
  "strings_ok S w \<longleftrightarrow> ref_inv (own_refs strs w) (e_texts (reobjs w))
       (\<lambda>p. holds (sobjs w) p + holds (e_texts (ceobjs w)) p + y_str S p)
     \<and> finite (dom (sobjs w)) \<and> finite (dom (e_texts (ceobjs w)))"
  by (auto simp: strings_ok_def ref_inv_def)

lemma kept_connect_error:
  assumes "connect_error_keep w' = connect_error_keep w"
  shows "values_ok S w' = values_ok S w" "iterators_ok w' = iterators_ok w" "tasks_ok w' = tasks_ok w"
    "msgs_ok S w' = msgs_ok S w"
    "request_errors_ok S w' = request_errors_ok S w" "sobjs w' = sobjs w" "reobjs w' = reobjs w"
  by (subst same_connect_error [OF assms], simp add: holders_defs)+

lemma connect_error_step:
  assumes "heap_typed w" "holders_ok S w" "spec E w (OConnectError x) S = Some S'" "room w"
  shows "\<exists>w'. sysstep E (OConnectError x) w = Inr ((), w') \<and> holders_ok S' w'"
proof -
  let ?C = "\<lambda>p. case cerrs w p of None \<Rightarrow> [] | Some e \<Rightarrow> ce_text e"
  let ?sext = "\<lambda>p. holds (sobjs w) p + holds (e_texts (reobjs w)) p + y_str S p"
  obtain s' r' where sc: "escope (e_shape (ceobjs w), y_ce S) x = Some (s', r')" "S' = S\<lparr>y_ce := r'\<rparr>"
    using assms(3) by auto
  have wf: "err_wf cerrs ce_refs ce_text ?C w"
    using typed_rc [OF assms(1,2)] typed_own [OF assms(1)] by (simp add: err_wf_def)
  note ok = assms(2) [unfolded holders_ok_def]
  have inv: "err_inv (rc_refs cerrs ce_refs) (y_ce S) ?sext (ceobjs w) w"
    using ok unfolding strings_split(2) by (simp add: err_inv_def connect_errors_ok_def)
  have room: "rc_refs cerrs ce_refs w p < 2 ^ 64 - 1" for p using assms(4) by (simp add: room_def)
  have nul: "0 \<notin> set (?C p)" for p using ok by (auto simp: connect_errors_ok_def split: option.splits)
  from cerr.estep_ok [OF wf inv room nul sc(1)] obtain w' where w': "estep ConnectionError_class x w = Inr ((), w')"
    "err_wf cerrs ce_refs ce_text ?C w'" "err_inv (rc_refs cerrs ce_refs) r' ?sext (ceobjs w') w'" by blast
  note kept = kept_connect_error [OF keepsD [OF keeps_connect_error w'(1)]]
  have "strings_ok S' w'"
    using w'(3) ok unfolding sc(2) strings_split(2) kept by (simp add: err_inv_def)
  moreover have "0 \<notin> set (ce_text e)" if "cerrs w' p = Some e" for p e
    using that w'(2) nul [of p] unfolding err_wf_def by metis
  then have "connect_errors_ok S' w'"
    using w'(2,3) by (simp add: err_wf_def rc_wf_def err_inv_def connect_errors_ok_def sc(2))
  ultimately show ?thesis
    using ok w'(1) unfolding sc(2)
    by (simp add: holders_ok_def kept)
qed

lemma kept_request_error:
  assumes "request_error_keep w' = request_error_keep w"
  shows "values_ok S w' = values_ok S w" "iterators_ok w' = iterators_ok w" "tasks_ok w' = tasks_ok w"
    "msgs_ok S w' = msgs_ok S w"
    "connect_errors_ok S w' = connect_errors_ok S w" "sobjs w' = sobjs w" "ceobjs w' = ceobjs w"
  by (subst same_request_error [OF assms], simp add: holders_defs)+

lemma request_error_step:
  assumes "heap_typed w" "holders_ok S w" "spec E w (ORequestError x) S = Some S'" "room w"
  shows "\<exists>w'. sysstep E (ORequestError x) w = Inr ((), w') \<and> holders_ok S' w'"
proof -
  let ?C = "\<lambda>p. case rerrs w p of None \<Rightarrow> [] | Some e \<Rightarrow> re_text e"
  let ?sext = "\<lambda>p. holds (sobjs w) p + holds (e_texts (ceobjs w)) p + y_str S p"
  obtain s' r' where sc: "escope (e_shape (reobjs w), y_re S) x = Some (s', r')" "S' = S\<lparr>y_re := r'\<rparr>"
    using assms(3) by auto
  have wf: "err_wf rerrs re_refs re_text ?C w"
    using typed_rc [OF assms(1,2)] typed_own [OF assms(1)] by (simp add: err_wf_def)
  note ok = assms(2) [unfolded holders_ok_def]
  have inv: "err_inv (rc_refs rerrs re_refs) (y_re S) ?sext (reobjs w) w"
    using ok unfolding strings_split(3) by (simp add: err_inv_def request_errors_ok_def)
  have room: "rc_refs rerrs re_refs w p < 2 ^ 64 - 1" for p using assms(4) by (simp add: room_def)
  have nul: "0 \<notin> set (?C p)" for p using ok by (auto simp: request_errors_ok_def split: option.splits)
  from rerr.estep_ok [OF wf inv room nul sc(1)] obtain w' where w': "estep RequestError_class x w = Inr ((), w')"
    "err_wf rerrs re_refs re_text ?C w'" "err_inv (rc_refs rerrs re_refs) r' ?sext (reobjs w') w'" by blast
  note kept = kept_request_error [OF keepsD [OF keeps_request_error w'(1)]]
  have "strings_ok S' w'"
    using w'(3) ok unfolding sc(2) strings_split(3) kept by (simp add: err_inv_def)
  moreover have "0 \<notin> set (re_text e)" if "rerrs w' p = Some e" for p e
    using that w'(2) nul [of p] unfolding err_wf_def by metis
  then have "request_errors_ok S' w'"
    using w'(2,3) by (simp add: err_wf_def rc_wf_def err_inv_def request_errors_ok_def sc(2))
  ultimately show ?thesis
    using ok w'(1) unfolding sc(2)
    by (simp add: holders_ok_def kept)
qed

lemma same_string:
  "str_frame w' = str_frame w \<Longrightarrow>
    w' = w\<lparr>brk := brk w', strs := strs w', layout_errs := layout_errs w', sobjs := sobjs w'\<rparr>"
  by (cases w; cases w'; simp add: str_frame_def)

lemma string_step:
  assumes "heap_typed w" "holders_ok S w" "spec E w (OString x) S = Some S'"
  shows "\<exists>w'. sysstep E (OString x) w = Inr ((), w') \<and> holders_ok S' w'"
proof -
  let ?ext = "\<lambda>r p. holds (e_texts (ceobjs w)) p + holds (e_texts (reobjs w)) p + r p"
  obtain s' r' where sc: "scope NoCopy (nonnull (sobjs w), y_str S) x = Some (s', r')" "S' = S\<lparr>y_str := r'\<rparr>"
    using assms(3) by auto
  note ok = assms(2) [unfolded holders_ok_def]
  have wf: "str_wf (str_frame w) w" using typed_own [OF assms(1)] by (simp add: str_wf_def)
  have inv: "ref_inv (own_refs strs w) (sobjs w) (?ext (y_str S))" using ok unfolding strings_split(1) by simp
  from str_handle.owning_step_ok [OF wf inv scope_extra [OF sc(1)]] obtain w' where
    w': "hstep OwnedString_class x w = Inr ((), w')" "str_wf (str_frame w) w'"
    "ref_inv (own_refs strs w') (sobjs w') (?ext r')" by blast
  have same: "w' = w\<lparr>brk := brk w', strs := strs w', layout_errs := layout_errs w', sobjs := sobjs w'\<rparr>"
    using w'(2) by (intro same_string) (simp add: str_wf_def)
  have "ceobjs w' = ceobjs w" "reobjs w' = reobjs w" by (subst same, simp)+
  with w'(3) ok have "strings_ok S' w'" unfolding sc(2) strings_split(1) by simp
  moreover have "values_ok S' w'" "iterators_ok w'" "tasks_ok w'" "msgs_ok S' w'" "connect_errors_ok S' w'" "request_errors_ok S' w'"
    using ok unfolding sc(2) by (subst same, simp add: holders_defs)+
  ultimately show ?thesis using w'(1) by (simp add: holders_ok_def)
qed

subsection \<open>Operations that involve several classes\<close>

lemma typed_fresh:
  assumes "heap_typed w" "brk w \<le> p"
  shows "strs w p = None" "msgs w p = None" "cerrs w p = None" "rerrs w p = None" "reqs w p = None"
    "conns w p = None" "subs w p = None" "tokens w p = None" "ctxs w p = None" "recvs w p = None" "senders w p = None"
    "p \<noteq> null"
proof -
  have box: "p \<notin> boxes w k" for k using assms by (force simp: heap_typed_def)
  show "strs w p = None" "msgs w p = None" "cerrs w p = None" "rerrs w p = None" "reqs w p = None"
    "conns w p = None" "subs w p = None" "tokens w p = None" "ctxs w p = None" "recvs w p = None" "senders w p = None"
    using box [of KStr] box [of KMessage] box [of KConnectError] box [of KRequestError] box [of KRequest]
      box [of KConnection] box [of KSubscribtion] box [of KToken] box [of KContext] box [of KReceiver] box [of KSender]
    by (simp_all add: domIff)
  show "p \<noteq> null" using assms by (auto simp: heap_typed_def)
qed

lemma typed_pos: "heap_typed w \<Longrightarrow> 0 < brk w"
  by (simp add: heap_typed_def)

lemma owns_held:
  assumes "owns hp cl t" "held t i"
  obtains p b where "cl i = Some p" "p \<noteq> null" "hp p = Some b" "fst t i = Some (Some b)"
proof -
  obtain b where b: "fst t i = Some (Some b)" using assms(2) by (auto simp: held_def split: option.splits)
  then obtain p where p: "cl i = Some p" "hp p = Some b" using assms(1) unfolding owns_def by force
  moreover have "p \<noteq> null" using p(2) assms(1) by (cases "p = null") (auto simp: owns_def)
  ultimately show thesis using that b by blast
qed

lemma owns_dead: "owns hp cl t \<Longrightarrow> fst t i = None \<longleftrightarrow> cl i = None"
  by (simp add: owns_def)

lemma owns_put_fresh:
  "owns hp cl t \<Longrightarrow> hp p = None \<Longrightarrow> p \<noteq> null \<Longrightarrow> cl i = None \<Longrightarrow> owns (hp(p \<mapsto> b)) (cl(i \<mapsto> p)) (put i (Some b) t)"
  using owns_fresh [of hp cl "fst t" "snd t" p i b] by (simp add: put_def)

lemma owns_put_none:
  "owns hp cl t \<Longrightarrow> cl i = Some p \<Longrightarrow> owns (hp(p := None)) (cl(i \<mapsto> null)) (put i None t)"
  using owns_drop [of hp cl "fst t" "snd t" i p] by (simp add: put_def)

lemma owns_raw:
  assumes "owns hp cl t" "hp p = None" "p \<noteq> null"
  shows "owns (hp(p \<mapsto> b)) cl (raw p b t)"
proof -
  obtain s r where t: "t = (s, r)" by (cases t)
  note D = ownsD [OF assms(1) [unfolded t]]
  have "owns (hp(p \<mapsto> b)) cl (s, r(p \<mapsto> b))"
  proof (rule ownsI)
    show "s i = map_option (hp(p \<mapsto> b)) (cl i)" for i
      using D(2) [of i] D(3) [of i p] assms(2,3) by (cases "cl i") auto
    show "(hp(p \<mapsto> b)) q \<noteq> None \<and> (r(p \<mapsto> b)) q = None" if "cl i = Some q" "q \<noteq> null" for i q
      using that D(3,4) [of i q] assms(2) by auto
    show "(hp(p \<mapsto> b)) q = Some x \<Longrightarrow> (r(p \<mapsto> b)) q = None \<Longrightarrow> \<exists>i. cl i = Some q" for q x
      using D(7) [of q x] by (auto split: if_splits)
    show "(r(p \<mapsto> b)) q = Some x \<Longrightarrow> (hp(p \<mapsto> b)) q = Some x" for q x
      using D(6) [of q x] by (auto split: if_splits)
  qed (use D(1,5) assms(3) in auto)
  then show ?thesis by (simp add: t raw_def)
qed

text \<open>A new string for an \<open>OwnedString\<close>, a new or empty message for a \<open>Message\<close>.\<close>

lemma new_string:
  assumes "heap_typed w" "holders_ok S w" "sobjs w j = None"
  shows "holders_ok S (sobjs_update (\<lambda>c. c(j \<mapsto> brk w)) (strs_update (\<lambda>h. h(brk w \<mapsto> t)) (w\<lparr>brk := b\<rparr>)))"
    (is "holders_ok S ?w")
proof -
  let ?ext = "\<lambda>p. holds (e_texts (ceobjs w)) p + holds (e_texts (reobjs w)) p + y_str S p"
  have str: "strings_ok S w" using assms(2) by (simp add: holders_ok_def)
  then have inv: "ref_inv (own_refs strs w) (sobjs w) ?ext" unfolding strings_split(1) by simp
  have "ref_inv (own_refs strs ?w) ((sobjs w)(j \<mapsto> brk w)) ?ext"
    using typed_fresh [OF assms(1) order.refl] assms(3) ref_invD(2) [OF inv]
    by (intro ref_inv_update [OF inv]) (auto simp: refs_fun)
  then have "strings_ok S ?w" using str unfolding strings_split(1) by simp
  then show ?thesis using assms(2) by (simp add: holders_defs)
qed

lemma new_message:
  assumes "heap_typed w" "holders_ok S w" "mobjs w j = None"
  shows "holders_ok S (mobjs_update (\<lambda>c. c(j \<mapsto> brk w)) (msgs_update (\<lambda>h. h(brk w \<mapsto> message_into m))
      (w\<lparr>brk := b\<rparr>)))" (is "holders_ok S ?w")
    and "holders_ok S (mobjs_update (\<lambda>c. c(j \<mapsto> null)) w)"
proof -
  let ?ext = "\<lambda>p. holds (hvobjs w) p + y_msg S p"
  have inv: "ref_inv (msg_refs w) (mobjs w) ?ext"
    using assms(2) by (simp add: holders_ok_def msgs_ok_def msg_inv_def)
  have "ref_inv (msg_refs ?w) ((mobjs w)(j \<mapsto> brk w)) ?ext"
    using typed_fresh [OF assms(1) order.refl] assms(3) ref_invD(2) [OF inv]
    by (intro ref_inv_update [OF inv]) (auto simp: refs_fun message_into_def)
  then show "holders_ok S ?w" using assms(2) by (simp add: holders_defs message_into_def)
  have "ref_inv (msg_refs w) ((mobjs w)(j \<mapsto> null)) ?ext"
    using assms(3) ref_invD(2) [OF inv] by (intro ref_inv_update [OF inv]) auto
  then show "holders_ok S (mobjs_update (\<lambda>c. c(j \<mapsto> null)) w)" using assms(2) by (simp add: holders_defs)
qed

text \<open>The calls of the classes that construct objects of other classes.\<close>

lemma to_string_step:
  assumes "heap_typed w" "holders_ok S w" "spec E w (ToString i j) S = Some S'"
  shows "\<exists>w'. sysstep E (ToString i j) w = Inr ((), w') \<and> holders_ok S' w'"
proof -
  obtain p m where p: "mobjs w i = Some p" "sobjs w j = None" "msgs w p = Some m"
    "0 \<notin> set (e_debug E (am_msg m))" "S' = S"
    using assms(3) by (auto split: option.splits if_splits)
  have "p \<noteq> null" using heap_typed_ok [OF assms(1), of KMessage "msgs w"] p(3) heap_okD by fastforce
  then show ?thesis
    using p new_string [OF assms(1,2) p(2)]
    by (simp add: Message_to_string_def async_nats_message_to_string_def string_to_owned_string_def
        OwnedString_ctor_def cm_simps)
qed

lemma mailbox_step:
  assumes "heap_typed w" "holders_ok S w" "spec E w (NewMailbox i j) S = Some S'"
  shows "\<exists>w'. sysstep E (NewMailbox i j) w = Inr ((), w') \<and> holders_ok S' w'"
proof -
  have "held (y_cn S) i" using assms(3) by (auto simp: held_def split: option.splits)
  moreover have "owns (conns w) (cnobjs w) (y_cn S)" using assms(2) by (simp add: holders_ok_def values_ok_def)
  ultimately obtain p c where p: "cnobjs w i = Some p" "p \<noteq> null" "conns w p = Some c"
      "fst (y_cn S) i = Some (Some c)"
    using owns_held by blast
  with assms(3) have j: "sobjs w j = None" "0 \<notin> set (e_inbox E (cn_client c))" "S' = S"
    by (auto split: option.splits if_splits)
  show ?thesis
    using p j new_string [OF assms(1,2) j(1)]
    by (simp add: Connection_new_mailbox_def async_nats_connection_mailbox_def string_to_owned_string_def
        OwnedString_ctor_def cm_simps)
qed

lemma get_token_step:
  assumes "heap_typed w" "holders_ok S w" "spec E w (GetToken i j) S = Some S'"
  shows "\<exists>w'. sysstep E (GetToken i j) w = Inr ((), w') \<and> holders_ok S' w'"
proof -
  have v: "owns (subs w) (sbobjs w) (y_sb S)" "owns (tokens w) (tkobjs w) (y_tk S)"
    using assms(2) by (simp_all add: holders_ok_def values_ok_def)
  have "held (y_sb S) i" using assms(3) by (auto simp: held_def split: option.splits)
  then obtain p b where p: "sbobjs w i = Some p" "p \<noteq> null" "subs w p = Some b" "fst (y_sb S) i = Some (Some b)"
    using owns_held [OF v(1)] by blast
  with assms(3) have j: "fst (y_tk S) j = None" "S' = S\<lparr>y_tk := put j (Some \<lparr>tk_sd = sb_sd b\<rparr>) (y_tk S)\<rparr>"
    by (auto split: option.splits)
  have "owns ((tokens w)(brk w \<mapsto> \<lparr>tk_sd = sb_sd b\<rparr>)) ((tkobjs w)(j \<mapsto> brk w)) (y_tk S')"
    using owns_put_fresh [OF v(2)] typed_fresh [OF assms(1) order.refl] j owns_dead [OF v(2)] by simp
  then show ?thesis
    using p assms(2) unfolding j(2)
    by (simp add: Subscribtion_get_cancellation_token_def async_nats_subscribtion_get_cancellation_token_def
        SubscribtionCancellationToken_from_raw_def cm_simps holders_defs)
qed

lemma cancel_step:
  assumes "holders_ok S w" "spec E w (Cancel i) S = Some S'"
  shows "\<exists>w'. sysstep E (Cancel i) w = Inr ((), w') \<and> holders_ok S' w'"
proof -
  have v: "owns (tokens w) (tkobjs w) (y_tk S)" using assms(1) by (simp add: holders_ok_def values_ok_def)
  then obtain p where p: "tkobjs w i = Some p" "S' = S"
    using assms(2) owns_dead [OF v, of i] by (auto split: if_splits)
  then obtain b where "p = null \<or> tokens w p = Some b" using v unfolding owns_def by blast
  then show ?thesis
    using p assms(1)
    by (auto simp: SubscribtionCancellationToken_cancel_def async_nats_subscribtion_cancellation_token_cancel_def
        sd_try_send_def cm_simps holders_defs)
qed

lemma new_receiver_step:
  assumes "heap_typed w" "holders_ok S w" "spec E w (NewReceiver i s n) S = Some S'"
  shows "\<exists>w'. sysstep E (NewReceiver i s n) w = Inr ((), w') \<and> holders_ok S' w'"
proof -
  have v: "owns (subs w) (sbobjs w) (y_sb S)" "owns (recvs w) (rvobjs w) (y_rv S)"
    using assms(2) by (simp_all add: holders_ok_def values_ok_def)
  have s: "fst (y_rv S) i = None" "held (y_sb S) s"
    "S' = S\<lparr>y_sb := put s None (y_sb S), y_rv := put i (Some \<lparr>nr_receiver = brk w\<rparr>) (y_rv S)\<rparr>"
    using assms(3) by (auto split: if_splits)
  then obtain p b where p: "sbobjs w s = Some p" "p \<noteq> null" "subs w p = Some b"
    using owns_held [OF v(1)] by blast
  have "owns ((subs w)(p := None)) ((sbobjs w)(s \<mapsto> null)) (y_sb S')"
    using owns_put_none [OF v(1) p(1)] s(3) by simp
  moreover have "owns ((recvs w)(Suc (brk w) \<mapsto> \<lparr>nr_receiver = brk w\<rparr>)) ((rvobjs w)(i \<mapsto> Suc (brk w))) (y_rv S')"
    using owns_put_fresh [OF v(2)] typed_fresh [OF assms(1), of "Suc (brk w)"] s owns_dead [OF v(2)] by simp
  ultimately show ?thesis
    using p assms(2) unfolding s(3)
    by (simp add: Receiver_ctor_def Subscribtion_release_raw_def async_nats_named_receiver_new_def
        AsyncNatsNamedReceiver_new_def cm_simps holders_defs)
qed

lemma holders_rchans: "holders_ok S w \<Longrightarrow> holders_ok S (w\<lparr>rchans := x\<rparr>)"
  by (simp add: holders_defs)

lemma receive_steps:
  assumes "heap_typed w" "holders_ok S w" "held (y_rv S) i" "mobjs w j = None"
  shows "\<exists>w'. sysstep E (TryReceive i j) w = Inr ((), w') \<and> holders_ok S w'"
    and "\<exists>w'. sysstep E (BlockingReceive i j) w = Inr ((), w') \<and> holders_ok S w'"
proof -
  have "owns (recvs w) (rvobjs w) (y_rv S)" using assms(2) by (simp add: holders_ok_def values_ok_def)
  then obtain p b where p: "rvobjs w i = Some p" "p \<noteq> null" "recvs w p = Some b"
    using owns_held assms(3) by blast
  have t: "heap_typed (w\<lparr>rchans := x\<rparr>)" for x using heap_same [OF assms(1), of "w\<lparr>rchans := x\<rparr>"] by simp
  note new = new_message [OF t holders_rchans [OF assms(2)], simplified, OF assms(4)]
  show "\<exists>w'. sysstep E (TryReceive i j) w = Inr ((), w') \<and> holders_ok S w'"
    using p new
    by (auto simp: Receiver_try_receive_def async_nats_named_receiver_try_recv_def Message_from_raw_def cm_simps
        split: option.splits)
  show "\<exists>w'. sysstep E (BlockingReceive i j) w = Inr ((), w') \<and> holders_ok S w'"
    using p new holders_rchans [OF assms(2)]
    by (auto simp: Receiver_receive_def async_nats_named_receiver_recv_def Message_from_raw_def cm_simps
        split: option.splits poll.splits)
qed

lemma mem_at_same [simp]:
  "mem_at (brk_update f0 w) d = mem_at w d" "mem_at (inners_update f1 v) d = mem_at v d"
  "mem_at (BYTES_try_send_update f2 v) d = mem_at v d" "mem_at (BYTES_send_update f3 v) d = mem_at v d"
  "mem_at (ctxs_update f4 u) d = mem_at u d" "mem_at (BYTES_update f5 u) d = mem_at u d"
  "mem_at (BYTES_reply_update f6 u) d = mem_at u d" "mem_at (pending_update f7 u) d = mem_at u d"
  "mem_at (reqs_update f8 x) d = mem_at x d" "mem_at (rqobjs_update f9 x) d = mem_at x d"
  by (cases d; simp)+

lemma new_sender_step:
  assumes "heap_typed w" "holders_ok S w" "spec E w (NewSender i d c n) S = Some S'"
  shows "\<exists>w'. sysstep E (NewSender i d c n) w = Inr ((), w') \<and> holders_ok S' w'"
proof -
  have v: "owns (conns w) (cnobjs w) (y_cn S)" "owns (senders w) (snobjs w) (y_sn S)"
    using assms(2) by (simp_all add: holders_ok_def values_ok_def)
  obtain m where s: "fst (y_sn S) i = None" "held (y_cn S) c" "terminated w d" "sem_new (e_ops E) (unat n) = Some m"
    "S' = S\<lparr>y_sn := put i (Some \<lparr>ns_inner = brk w\<rparr>) (y_sn S)\<rparr>"
    using assms(3) by (auto split: if_splits)
  obtain p b where p: "cnobjs w c = Some p" "p \<noteq> null" "conns w p = Some b" using owns_held [OF v(1) s(2)] by blast
  obtain x where x: "mem_at w d = Inr x" "0 \<in> set x" using s(3) by (auto simp: terminated_def split: sum.splits)
  have "owns ((senders w)(Suc (brk w) \<mapsto> \<lparr>ns_inner = brk w\<rparr>)) ((snobjs w)(i \<mapsto> Suc (brk w))) (y_sn S')"
    using owns_put_fresh [OF v(2)] typed_fresh [OF assms(1), of "Suc (brk w)"] s owns_dead [OF v(2)] by simp
  then show ?thesis
    using p x s(4) assms(2) unfolding s(5)
    by (simp add: Sender_ctor_def async_nats_named_sender_new_def with_capacity_def cstr_lossy_convert_def cm_simps
        holders_defs)
qed

end
