(* ===== verification/Iterators.thy ===== *)
theory Iterators
  imports Program
begin

text \<open>
  The operations on headers in the system of all classes: header iterators and views of header values
  used by the rules leave no iterator box behind and free none twice.
\<close>

definition header_keep :: "'z hw_scheme \<Rightarrow> 'z hw_scheme" where
  "header_keep w = w\<lparr>brk := 0, iters := Map.empty, hiobjs := Map.empty, vvobjs := Map.empty\<rparr>"

lemma same_header:
  "header_keep w' = header_keep w \<Longrightarrow> w' = w\<lparr>brk := brk w', iters := iters w', hiobjs := hiobjs w', vvobjs := vvobjs w'\<rparr>"
  by (cases w; cases w'; simp add: header_keep_def)

lemma keeps_header:
  assumes "holders_ok S w" "iterators_ok w'" "header_keep w' = header_keep w"
  shows "holders_ok S w'"
  using assms(1,2) by (subst same_header [OF assms(3)]) (simp add: holders_defs)

lemma vv_owned_upd: "vv_owned (m(i := x)) = (vv_owned m)(i := owner x)"
  by (auto simp: vv_owned_def fun_eq_iff)

lemma finite_vv_owned: "finite (dom m) \<Longrightarrow> finite (dom (vv_owned m))"
  by (rule finite_subset [of _ "dom m"]) (auto simp: vv_owned_def owner_def split: option.splits)

text \<open>The invariant as each of the two kinds of holder sees it.\<close>

lemma iterators_split:
  "iterators_ok w \<longleftrightarrow> finite (dom (vvobjs w)) \<and> finite (dom (hiobjs w))
     \<and> ref_inv (iter_refs w) (vv_owned (vvobjs w)) (holds (hiobjs w))
     \<and> (\<forall>p c. iters w p = Some c \<longrightarrow> hi_refcnt c \<noteq> 0)"
  using finite_vv_owned [of "vvobjs w"] by (auto simp: iterators_ok_def ref_inv_def)

lemma iterators_typed:
  assumes "heap_typed w" "iterators_ok w"
  shows "iter_wf (iter_frame w) w"
  using assms(2) heap_typed_ok [OF assms(1), of KIterator "iters w"] by (simp add: iter_wf_def rc_wf_def iterators_ok_def)

text \<open>An iterator object, or a view, gets another pointer.\<close>

lemma iterator_set:
  assumes "iterators_ok w" "iter_refs w' null = 0" "hiobjs w' = (hiobjs w)(i := x)" "vvobjs w' = vvobjs w"
    and "\<And>p. p \<noteq> null \<Longrightarrow>
      iter_refs w' p + (if hiobjs w i = Some p then 1 else 0) = iter_refs w p + (if x = Some p then 1 else 0)"
    and "\<And>p c. iters w' p = Some c \<Longrightarrow> hi_refcnt c \<noteq> 0"
  shows "iterators_ok w'"
  using assms ref_inv_update [of "iter_refs w" "hiobjs w" "holds (vv_owned (vvobjs w))" "iter_refs w'" i x]
  by (simp add: iterators_ok_def)

lemma view_set:
  assumes "iterators_ok w" "iter_refs w' null = 0" "vvobjs w' = (vvobjs w)(i := x)" "hiobjs w' = hiobjs w"
    and "\<And>p. p \<noteq> null \<Longrightarrow> iter_refs w' p + (if owner (vvobjs w i) = Some p then 1 else 0)
      = iter_refs w p + (if owner x = Some p then 1 else 0)"
    and "\<And>p c. iters w' p = Some c \<Longrightarrow> hi_refcnt c \<noteq> 0"
  shows "iterators_ok w'"
proof -
  have "ref_inv (iter_refs w') ((vv_owned (vvobjs w))(i := owner x)) (holds (hiobjs w))"
    using assms(1,2,5) unfolding iterators_split
    by (intro ref_inv_update [of "iter_refs w" "vv_owned (vvobjs w)" "holds (hiobjs w)"]) (simp_all add: vv_owned_def)
  then show ?thesis
    using assms(1,3,4,6) unfolding iterators_split by (simp add: vv_owned_upd)
qed

lemma owner_Some: "owner x = Some p \<longleftrightarrow> (\<exists>v. x = Some v \<and> vv_owns v \<and> vv_it v = p)"
  by (auto simp: owner_def split: option.splits)

text \<open>A view that owns an iterator frees it before it gets another pointer.\<close>

lemma view_drop:
  assumes "heap_typed w" "iterators_ok w" "vvobjs w i = Some v" "\<forall>p. owner x = Some p \<longrightarrow> p = null"
  shows "\<exists>w'. whenM (vv_owns v \<and> vv_it v \<noteq> null) (async_nats_message_header_iterator_free (vv_it v)) w = Inr ((), w')
    \<and> vvobjs w' = vvobjs w \<and> iterators_ok (vvobjs_update (\<lambda>m. m(i := x)) w')"
proof (cases "vv_owns v \<and> vv_it v \<noteq> null")
  case True
  then have own: "owner (vvobjs w i) = Some (vv_it v)" using assms(3) by (simp add: owner_def)
  then have pos: "0 < iter_refs w (vv_it v)"
    using True ref_inv_live [of "iter_refs w" "vv_owned (vvobjs w)" _ i "vv_it v"] assms(2)
    unfolding iterators_split by (auto simp: vv_owned_def)
  from iter_free_ok [OF iterators_typed [OF assms(1,2)] pos] obtain w' where
    w': "async_nats_message_header_iterator_free (vv_it v) w = Inr ((), w')" "iter_wf (iter_frame w) w'"
      "iter_refs w' = (iter_refs w)(vv_it v := iter_refs w (vv_it v) - 1)" "hiobjs w' = hiobjs w" by blast
  have "vvobjs w' = vvobjs w" using w'(2) by (simp add: iter_wf_def iter_frame_def)
  moreover have "iterators_ok (vvobjs_update (\<lambda>m. m(i := x)) w')"
  proof (rule view_set [OF assms(2), of _ i x])
    show "iter_refs (vvobjs_update (\<lambda>m. m(i := x)) w') null = 0"
      using iter_wf_null [OF w'(2)] by (simp add: rc_refs_def)
    show "iter_refs (vvobjs_update (\<lambda>m. m(i := x)) w') p + (if owner (vvobjs w i) = Some p then 1 else 0)
        = iter_refs w p + (if owner x = Some p then 1 else 0)" if "p \<noteq> null" for p
    proof -
      have "iter_refs (vvobjs_update (\<lambda>m. m(i := x)) w') p = iter_refs w' p" by (simp add: rc_refs_def)
      then show ?thesis using that own w'(3) pos assms(4) by auto
    qed
  qed (use w' \<open>vvobjs w' = vvobjs w\<close> in \<open>auto simp: iter_wf_def rc_wf_def\<close>)
  ultimately show ?thesis using w'(1) True by (simp add: cm_simps)
next
  case False
  then have "owner (vvobjs w i) = Some p \<Longrightarrow> p = null" for p using assms(3) by (simp add: owner_Some)
  then have "iterators_ok (vvobjs_update (\<lambda>m. m(i := x)) w)"
    using assms(2,4) by (intro view_set [OF assms(2), of _ i x]) (auto simp: rc_refs_def iterators_ok_def ref_inv_def)
  with False show ?thesis by (auto simp: cm_simps)
qed

text \<open>What the operations leave alone.\<close>

lemma keeps_memory [keep_intros]: "keeps f (cstr_lossy_convert d)" "keeps f (slice_lossy_convert s)"
  "keeps f (from_raw_parts d n)"
  by (auto simp: keeps_def cstr_lossy_convert_def slice_lossy_convert_def cm_simps split: sum.splits if_splits)

lemma keeps_iterator_api [keep_intros]:
  "keeps header_keep (header_iterator_from_ptr p)" "keeps header_keep (borrowed_headers p)"
  "keeps header_keep (async_nats_message_header_iterator p)" "keeps header_keep (async_nats_message_header_iterator_free p)"
  "keeps header_keep (async_nats_message_header_iterator_next p)" "keeps header_keep (current_val c)"
  "keeps header_keep (async_nats_message_header_iterator_key p)" "keeps header_keep (async_nats_message_header_iterator_value_count p)"
  "keeps header_keep (async_nats_message_header_iterator_value_at p n)" "keeps header_keep (async_nats_message_has_headers p)"
proof -
  show basic: "keeps header_keep (header_iterator_from_ptr p)" "keeps header_keep (borrowed_headers p)"
    "keeps header_keep (current_val c)" for p c
    unfolding header_iterator_from_ptr_def borrowed_headers_def current_val_def by (intro keep_intros)+
  show "keeps header_keep (async_nats_message_header_iterator p)" "keeps header_keep (async_nats_message_header_iterator_free p)"
    "keeps header_keep (async_nats_message_header_iterator_next p)"
    "keeps header_keep (async_nats_message_header_iterator_value_count p)"
    "keeps header_keep (async_nats_message_header_iterator_value_at p n)" "keeps header_keep (async_nats_message_has_headers p)"
    unfolding async_nats_message_header_iterator_def async_nats_message_header_iterator_free_def
      async_nats_message_header_iterator_next_def async_nats_message_header_iterator_value_count_def
      async_nats_message_header_iterator_value_at_def async_nats_message_has_headers_def
    by (intro keep_intros keeps_effects basic; simp add: header_keep_def)+
  have name: "(\<And>i. keeps header_keep (f i)) \<Longrightarrow> keeps header_keep m \<Longrightarrow>
      keeps header_keep (case k of EntryName i \<Rightarrow> f i | DummyName \<Rightarrow> m)" for k f and m :: "('z hw_scheme, AsyncNatsSlice) cm"
    by (cases k) simp_all
  show "keeps header_keep (async_nats_message_header_iterator_key p)"
    unfolding async_nats_message_header_iterator_key_def by (intro keep_intros keeps_effects basic name)
qed

lemma keeps_header_calls [keep_intros]:
  "keeps header_keep (HeaderIterator_inc i)" "keeps header_keep (HeaderVectorView_ctor i p b)"
  "keeps header_keep (HeaderVectorView_move_ctor i j)" "keeps header_keep (HeaderVectorView_dtor i)"
  "keeps header_keep (HeaderVectorView_move_assign i j)" "keeps header_keep (HeaderVectorView_at i n)"
  "keeps header_keep (hstep HeaderIterator_class x)"
  unfolding HeaderIterator_inc_def HeaderVectorView_ctor_def HeaderVectorView_move_ctor_def HeaderVectorView_dtor_def
    HeaderVectorView_move_assign_def HeaderVectorView_at_def
  by (intro keep_intros keeps_effects; simp add: header_keep_def)+
    (cases x; simp add: HeaderIterator_defs deleted_def del: bnd_ret; intro keep_intros keeps_effects impI conjI;
      simp add: header_keep_def)

lemma keeps_get_header [keep_intros]: "keeps header_keep (async_nats_message_get_header f g p s)"
  unfolding async_nats_message_get_header_def as_str_def as_slice_def
  by (intro keep_intros keeps_effects; simp add: header_keep_def)

lemma keeps_header_step: "keeps header_keep (header_step E x)"
proof (cases x)
  case (HGet i v j k)
  then show ?thesis
    by (cases v; simp add: HeadersView_get_header_def del: bnd_ret; intro keep_intros keeps_effects impI conjI;
        simp add: header_keep_def)
qed (simp add: HeadersView_begin_def HeadersView_end_def HeaderIterator_default_def HeaderIterator_from_raw_def
      HeaderIterator_init_def HeaderIterator_deref_def del: bnd_ret;
    intro keep_intros keeps_effects allI impI; simp add: header_keep_def)+

subsection \<open>The operations run\<close>

lemma viewed_message:
  assumes "holders_ok S w" "hvobjs w i = Some p" "p \<noteq> null"
  shows "\<exists>m. msgs w p = Some m"
proof -
  have "msg_inv (y_msg S) w" using assms(1) by (simp add: holders_ok_def msgs_ok_def)
  then have "0 < msg_refs w p" using holds_pos [of "hvobjs w" i p] assms(2,3) by (auto simp: msg_inv_def ref_inv_def)
  then show ?thesis by (auto simp: rc_refs_def split: option.splits)
qed

lemma standing_box:
  assumes "heap_typed w" "message_of w q = Some hs"
  shows "\<exists>c m. iters w q = Some c \<and> q \<noteq> null \<and> hi_msg c \<noteq> null \<and> msgs w (hi_msg c) = Some m \<and> headers (am_msg m) = Some hs"
proof -
  obtain c m where c: "iters w q = Some c" "msgs w (hi_msg c) = Some m" "headers (am_msg m) = Some hs"
    using assms(2) by (auto simp: message_of_def split: option.splits)
  moreover have ok: "heap_ok (iters w) (brk w)" "heap_ok (msgs w) (brk w)"
    using heap_typed_ok [OF assms(1), of KIterator "iters w"] heap_typed_ok [OF assms(1), of KMessage "msgs w"] by simp_all
  moreover have "q \<noteq> null" using c(1) heap_ok_null [OF ok(1)] by (cases "q = null") simp_all
  moreover have "hi_msg c \<noteq> null" using c(2) heap_ok_null [OF ok(2)] by (cases "hi_msg c = null") simp_all
  ultimately show ?thesis by blast
qed

lemma iter_program_step:
  assumes "heap_typed w" "iterators_ok w" "header_rule w (HIter x)"
  shows "\<exists>w'. header_step E (HIter x) w = Inr ((), w') \<and> iterators_ok w'"
proof -
  obtain s' r' where sc: "scope NoCopy (nonnull (hiobjs w), \<lambda>_. 0) x = Some (s', r')" using assms(3) by auto
  then have r: "r' = (\<lambda>_. 0)" by (cases x) (auto split: if_splits option.splits)
  have "ref_inv (iter_refs w) (hiobjs w) (\<lambda>p. holds (vv_owned (vvobjs w)) p + 0)" using assms(2) by (simp add: iterators_ok_def)
  from iter_handle.owning_step_ok [OF iterators_typed [OF assms(1,2)] this scope_extra [OF sc]] obtain w' where
    w': "hstep HeaderIterator_class x w = Inr ((), w')" "iter_wf (iter_frame w) w'"
      "ref_inv (iter_refs w') (hiobjs w') (holds (vv_owned (vvobjs w)))"
    by (auto simp: r)
  then have "iterators_ok w'"
    using assms(2) by (auto simp: iterators_ok_def iter_wf_def iter_frame_def rc_wf_def)
  with w'(1) show ?thesis by simp
qed

lemma iterators_same:
  "iters w' = iters w \<Longrightarrow> hiobjs w' = hiobjs w \<Longrightarrow> vvobjs w' = vvobjs w \<Longrightarrow> iterators_ok w' = iterators_ok w"
  by (simp add: iterators_ok_def refs_fun)

text \<open>A step of an iterator keeps its count; at the end of the headers the box is freed.\<close>

lemma iterators_store:
  assumes "iterators_ok w" "iters w q = Some c" "hi_refcnt c' = hi_refcnt c"
  shows "iterators_ok (iters_update (\<lambda>m. m(q \<mapsto> c')) w)"
proof -
  have "iter_refs (iters_update (\<lambda>m. m(q \<mapsto> c')) w) = iter_refs w" using assms(2,3) by (auto simp: refs_fun fun_eq_iff)
  then show ?thesis using assms by (simp add: iterators_ok_def)
qed

lemma iterators_free:
  assumes "heap_typed w" "iterators_ok w" "hiobjs w i = Some q" "q \<noteq> null"
  shows "\<exists>w'. async_nats_message_header_iterator_free q w = Inr ((), w')
    \<and> iterators_ok (hiobjs_update (\<lambda>m. m(i \<mapsto> null)) w')"
proof -
  have pos: "0 < iter_refs w q" using ref_inv_live [of "iter_refs w" "hiobjs w" _ i q] assms(2-4) unfolding iterators_ok_def by blast
  obtain w' where w': "async_nats_message_header_iterator_free q w = Inr ((), w')" "iter_wf (iter_frame w) w'"
    "iter_refs w' = (iter_refs w)(q := iter_refs w q - 1)" "hiobjs w' = hiobjs w"
    using iter_free_ok [OF iterators_typed [OF assms(1,2)] pos] by blast
  have refs: "iter_refs (hiobjs_update f w') = iter_refs w'" for f by (simp add: refs_fun)
  have "iterators_ok (hiobjs_update (\<lambda>m. m(i \<mapsto> null)) w')"
  proof (rule iterator_set [OF assms(2), of _ i "Some null"])
    show "iter_refs (hiobjs_update (\<lambda>m. m(i \<mapsto> null)) w') p + (if hiobjs w i = Some p then 1 else 0)
        = iter_refs w p + (if Some null = Some p then 1 else 0)" if "p \<noteq> null" for p
      using that pos assms(3) by (cases "p = q") (simp_all add: refs w'(3))
    show "iter_refs (hiobjs_update (\<lambda>m. m(i \<mapsto> null)) w') null = 0" using iter_wf_null [OF w'(2)] by (simp add: refs)
  qed (use w' in \<open>auto simp: iter_wf_def iter_frame_def rc_wf_def\<close>)
  with w'(1) show ?thesis by blast
qed

lemma inc_step:
  assumes "heap_typed w" "iterators_ok w" "hiobjs w i = Some q" "walking w q"
  shows "\<exists>w'. HeaderIterator_inc i w = Inr ((), w') \<and> iterators_ok w'"
proof -
  obtain hs where q: "message_of w q = Some hs" "hi_iter (the (iters w q)) \<noteq> None"
    using assms(4) by (auto simp: walking_def)
  then obtain c m k where c: "iters w q = Some c" "q \<noteq> null" "hi_msg c \<noteq> null" "msgs w (hi_msg c) = Some m"
    "headers (am_msg m) = Some hs" "hi_iter c = Some k"
    using standing_box [OF assms(1) q(1)] by auto
  show ?thesis
  proof (cases "k < length hs")
    case True
    then show ?thesis
      using c assms(3) iterators_store [OF assms(2) c(1), of "c\<lparr>hi_iter := Some (Suc k), hi_val := Some (EntryName k, k)\<rparr>"]
      by (simp add: HeaderIterator_inc_def async_nats_message_header_iterator_next_def header_iterator_from_ptr_def
          borrowed_headers_def cm_simps)
  next
    case False
    let ?w = "iters_update (\<lambda>m. m(q \<mapsto> c\<lparr>hi_val := None\<rparr>)) w"
    have "boxes ?w = boxes w" unfolding boxes_heap using c(1) by (intro fun_upd_idem) auto
    then have "heap_typed ?w" using heap_same [OF assms(1), of ?w] by simp
    moreover have "iterators_ok ?w" using iterators_store [OF assms(2) c(1)] by simp
    ultimately obtain w' where "async_nats_message_header_iterator_free q ?w = Inr ((), w')"
      "iterators_ok (hiobjs_update (\<lambda>m. m(i \<mapsto> null)) w')"
      using iterators_free [of ?w i q] assms(3) c(2) by auto
    then show ?thesis
      using c assms(3) False
      by (simp add: HeaderIterator_inc_def async_nats_message_header_iterator_next_def header_iterator_from_ptr_def
          borrowed_headers_def cm_simps)
  qed
qed

lemma begin_step:
  assumes "heap_typed w" "holders_ok S w" "header_rule w (HBegin i j)"
  shows "\<exists>w'. header_step E (HBegin i j) w = Inr ((), w') \<and> iterators_ok w'"
proof -
  obtain p where p: "hiobjs w j = None" "hvobjs w i = Some p" "p \<noteq> null" using assms(3) by auto
  then obtain m where m: "msgs w p = Some m" using viewed_message [OF assms(2)] by blast
  have ok: "iterators_ok w" using assms(2) by (simp add: holders_ok_def)
  show ?thesis
  proof (cases "headers (am_msg m)")
    case None
    have "iterators_ok (hiobjs_update (\<lambda>m. m(j \<mapsto> null)) w)"
      using ok p by (intro iterator_set [OF ok, of _ j "Some null"]) (auto simp: refs_fun iterators_ok_def ref_inv_def)
    then show ?thesis
      using p m None
      by (simp add: HeadersView_begin_def HeaderIterator_default_def async_nats_message_has_headers_def cm_simps)
  next
    case (Some hs)
    let ?c = "\<lparr>hi_msg = p, hi_iter = Some 0, hi_val = None, hi_refcnt = 1\<rparr>"
    let ?w = "hiobjs_update (\<lambda>m. m(j \<mapsto> brk w)) (iters_update (\<lambda>h. h(brk w \<mapsto> ?c)) (w\<lparr>brk := Suc (brk w)\<rparr>))"
    have fresh: "iters w (brk w) = None" "brk w \<noteq> null"
      using heap_typed_ok [OF assms(1), of KIterator "iters w"] typed_pos [OF assms(1)] by (simp_all add: heap_ok_fresh)
    have ok': "iterators_ok ?w"
    proof (rule iterator_set [OF ok, of _ j "Some (brk w)"])
      show "iter_refs ?w null = 0" using ok fresh by (simp add: refs_fun iterators_ok_def ref_inv_def)
      show "hi_refcnt c \<noteq> 0" if "iters ?w q = Some c" for q c
        using that ok by (auto simp: iterators_ok_def split: if_splits)
    qed (use p fresh in \<open>auto simp: refs_fun\<close>)
    have run: "header_step E (HBegin i j) w = HeaderIterator_inc j ?w"
      using p m Some
      by (simp add: HeadersView_begin_def HeaderIterator_from_raw_def HeaderIterator_init_def
          async_nats_message_has_headers_def async_nats_message_header_iterator_def borrowed_headers_def cm_simps)
    have "typed_op (sq (box_into_raw iters_update ?c) (obj_put hiobjs_update j (brk w)))" by (intro typed_intros)
    from typed_opD [OF this assms(1)] have "heap_typed ?w" by (simp add: cm_simps)
    from inc_step [OF this ok', of j "brk w"] show ?thesis
      using m Some unfolding run by (simp add: walking_def message_of_def)
  qed
qed

text \<open>Views: a temporary is constructed, moved into the result and destroyed.\<close>

lemma value_count_runs:
  assumes "heap_typed w" "standing w q"
  shows "\<exists>n. async_nats_message_header_iterator_value_count q w = Inr (n, w)"
  using assms(2) standing_box [OF assms(1), of q]
  by (force simp: standing_def async_nats_message_header_iterator_value_count_def header_iterator_from_ptr_def
      current_val_def borrowed_headers_def cm_simps split: prod.splits)

lemma view_result:
  assumes "async_nats_message_header_iterator_value_count q w = Inr (n, w)" "j \<noteq> k" "vvobjs w j = None"
  shows "sq (HeaderVectorView_ctor j q own) (sq (HeaderVectorView_move_ctor k j) (sq (HeaderVectorView_dtor j) m)) w
    = m (vvobjs_update (\<lambda>f. f(k \<mapsto> \<lparr>vv_owns = own, vv_it = q, vv_size = n\<rparr>)) w)"
proof -
  have same: "vvobjs_update f w = vvobjs_update (\<lambda>f. f(k \<mapsto> v)) w" if "f (vvobjs w) = (vvobjs w)(k \<mapsto> v)" for f v
    using that by (cases w) simp
  show ?thesis
    using assms
    by (simp add: HeaderVectorView_ctor_def HeaderVectorView_move_ctor_def HeaderVectorView_dtor_def cm_simps)
      (subst same [of _ "\<lparr>vv_owns = own, vv_it = q, vv_size = n\<rparr>"]; auto simp: fun_eq_iff)
qed

lemma deref_step:
  assumes "heap_typed w" "iterators_ok w" "header_rule w (HDeref i j k)"
  shows "\<exists>w'. header_step E (HDeref i j k) w = Inr ((), w') \<and> iterators_ok w'"
proof -
  obtain q where q: "j \<noteq> k" "vvobjs w j = None" "vvobjs w k = None" "hiobjs w i = Some q" "standing w q"
    using assms(3) by (auto split: option.splits)
  obtain n where n: "async_nats_message_header_iterator_value_count q w = Inr (n, w)"
    using value_count_runs [OF assms(1) q(5)] by blast
  obtain h where h: "async_nats_message_header_iterator_key q w = Inr (h, w)"
    using q(5) standing_box [OF assms(1), of q]
    by (force simp: standing_def async_nats_message_header_iterator_key_def header_iterator_from_ptr_def
        current_val_def borrowed_headers_def cm_simps split: prod.splits name_ref.splits)
  let ?w = "vvobjs_update (\<lambda>f. f(k \<mapsto> \<lparr>vv_owns = False, vv_it = q, vv_size = n\<rparr>)) w"
  have "iterators_ok ?w"
    using assms(2) q(3)
    by (intro view_set [OF assms(2), of _ k]) (auto simp: refs_fun iterators_ok_def ref_inv_def owner_def)
  then show ?thesis
    using q(4) h view_result [OF n q(1,2), of False "ret (slice_view h)"]
    by (simp add: HeaderIterator_deref_def bnd_run obj_get_run)
qed

lemma get_step:
  assumes "heap_typed w" "holders_ok S w" "header_rule w (HGet i v j k)"
  shows "\<exists>w'. header_step E (HGet i v j k) w = Inr ((), w') \<and> iterators_ok w'"
proof -
  have ok: "iterators_ok w" using assms(2) by (simp add: holders_ok_def)
  obtain d n where v: "v = View d n" by (cases v)
  obtain p b where p: "j \<noteq> k" "vvobjs w j = None" "vvobjs w k = None" "hvobjs w i = Some p" "p \<noteq> null"
    "mem_at w d = Inr b" "unat n \<le> length b"
    using assms(3) v by (auto split: sum.splits)
  obtain m where m: "msgs w p = Some m" using viewed_message [OF assms(2) p(4,5)] by blast
  let ?get = "async_nats_message_get_header (e_name E) (e_get E) p \<lparr>sl_data = d, sl_size = n\<rparr>"
  show ?thesis
  proof (cases "n = 0 \<or> ?get w = Inr (null, w)")
    case True
    then show ?thesis using ok p v by (auto simp: HeadersView_get_header_def cm_simps)
  next
    case False
    have "d \<noteq> DNull" using p(6) by auto
    with False have "\<exists>x. ?get w = Inr (brk w, iters_update (\<lambda>h. h(brk w \<mapsto>
        \<lparr>hi_msg = p, hi_iter = None, hi_val = Some (DummyName, x), hi_refcnt = 1\<rparr>)) (w\<lparr>brk := Suc (brk w)\<rparr>))
        \<and> headers (am_msg m) \<noteq> None"
      using m p by (auto simp: async_nats_message_get_header_def as_str_def as_slice_def cm_simps split: option.splits)
    then obtain x where x: "?get w = Inr (brk w, iters_update (\<lambda>h. h(brk w \<mapsto>
        \<lparr>hi_msg = p, hi_iter = None, hi_val = Some (DummyName, x), hi_refcnt = 1\<rparr>)) (w\<lparr>brk := Suc (brk w)\<rparr>))"
      "headers (am_msg m) \<noteq> None" by blast
    let ?w = "iters_update (\<lambda>h. h(brk w \<mapsto>
        \<lparr>hi_msg = p, hi_iter = None, hi_val = Some (DummyName, x), hi_refcnt = 1\<rparr>)) (w\<lparr>brk := Suc (brk w)\<rparr>)"
    have fresh: "iters w (brk w) = None" "brk w \<noteq> null"
      using heap_typed_ok [OF assms(1), of KIterator "iters w"] typed_pos [OF assms(1)] by (simp_all add: heap_ok_fresh)
    have "typed_op (box_into_raw iters_update \<lparr>hi_msg = p, hi_iter = None, hi_val = Some (DummyName, x), hi_refcnt = 1\<rparr>)"
      by (intro typed_intros)
    from typed_opD [OF this assms(1)] have "heap_typed ?w" by (simp add: cm_simps)
    then obtain c where c: "async_nats_message_header_iterator_value_count (brk w) ?w = Inr (c, ?w)"
      using value_count_runs [of ?w "brk w"] m x(2) by (auto simp: standing_def message_of_def)
    let ?v = "vvobjs_update (\<lambda>f. f(k \<mapsto> \<lparr>vv_owns = True, vv_it = brk w, vv_size = c\<rparr>)) ?w"
    have "iterators_ok ?v"
    proof (rule view_set [OF ok, of _ k])
      show "iter_refs ?v null = 0" using ok fresh by (simp add: refs_fun iterators_ok_def ref_inv_def)
      show "hi_refcnt c \<noteq> 0" if "iters ?v q = Some c" for q c
        using that ok by (auto simp: iterators_ok_def split: if_splits)
    qed (use p fresh in \<open>auto simp: refs_fun owner_def\<close>)
    moreover have "header_step E (HGet i v j k) w = Inr ((), ?v)"
      using p(4) x(1) fresh(2) False view_result [OF c p(1), of True "ret True"] p(2)
      by (simp add: v HeadersView_get_header_def bnd_run obj_get_run)
    ultimately show ?thesis by blast
  qed
qed

lemma view_unowned:
  assumes "iterators_ok w" "owner (vvobjs w i) = None \<or> owner (vvobjs w i) = Some null"
    "owner x = None \<or> owner x = Some null"
  shows "iterators_ok (vvobjs_update (\<lambda>m. m(i := x)) w)"
  using assms by (intro view_set [OF assms(1), of _ i x]) (auto simp: refs_fun iterators_ok_def ref_inv_def)

text \<open>A moved view takes the iterator from the other.\<close>

lemma view_move:
  assumes "iterators_ok w" "vvobjs w i = None" "vvobjs w j = Some v"
  shows "iterators_ok (vvobjs_update ((\<lambda>m. m(j \<mapsto> v\<lparr>vv_it := null\<rparr>)) \<circ> (\<lambda>m. m(i \<mapsto> v))) w)"
proof (cases "vv_owns v")
  case True
  have eq: "vv_owned ((vvobjs w)(i \<mapsto> v, j \<mapsto> v\<lparr>vv_it := null\<rparr>)) = (vv_owned (vvobjs w))(i \<mapsto> vv_it v, j \<mapsto> null)"
    using True by (simp add: vv_owned_upd owner_def)
  have "ref_inv (iter_refs w) ((vv_owned (vvobjs w))(i \<mapsto> vv_it v, j \<mapsto> null)) (holds (hiobjs w))"
    using assms True unfolding iterators_split
    by (intro ref_inv_move) (auto simp: vv_owned_def owner_def)
  then show ?thesis using assms(1) unfolding iterators_split by (simp add: eq refs_fun)
next
  case False
  then have eq: "vv_owned ((vvobjs w)(i \<mapsto> v, j \<mapsto> v\<lparr>vv_it := null\<rparr>)) = vv_owned (vvobjs w)"
    using assms(2,3) by (auto simp: vv_owned_def owner_def fun_eq_iff)
  then show ?thesis using assms(1) unfolding iterators_split by (simp add: eq refs_fun)
qed

lemma view_steps:
  assumes "heap_typed w" "iterators_ok w" "header_rule w x"
    and "x = HVMove i j \<or> x = HVAssign i j \<or> x = HVDestroy i \<or> x = HVAt i n \<or> x = HEnd i"
  shows "\<exists>w'. header_step E x w = Inr ((), w') \<and> iterators_ok w'"
  using assms(4)
proof (elim disjE)
  assume x: "x = HVMove i j"
  then obtain v where "vvobjs w i = None" "vvobjs w j = Some v" using assms(3) by auto
  with view_move [OF assms(2)] x show ?thesis by (simp add: HeaderVectorView_move_ctor_def cm_simps)
next
  assume x: "x = HVAssign i j"
  then obtain u v where v: "vvobjs w i = Some u" "vvobjs w j = Some v"
      "i = j \<or> owner (Some v) = None \<or> owner (Some v) = Some null"
    using assms(3) by auto
  show ?thesis
  proof (cases "i = j")
    case False
    with v have "\<forall>p. owner (Some v) = Some p \<longrightarrow> p = null" by auto
    from view_drop [OF assms(1,2) v(1) this] False v x show ?thesis
      by (auto simp: HeaderVectorView_move_assign_def bnd_run sq_run obj_get_run obj_put_run)
  qed (use x v assms(2) in \<open>simp add: HeaderVectorView_move_assign_def cm_simps\<close>)
next
  assume x: "x = HVDestroy i"
  then obtain v where v: "vvobjs w i = Some v" using assms(3) by auto
  have "\<forall>p. owner None = Some p \<longrightarrow> p = null" by (simp add: owner_def)
  from view_drop [OF assms(1,2) v this] v x show ?thesis
    by (auto simp: HeaderVectorView_dtor_def bnd_run sq_run obj_get_run obj_end_run)
next
  assume x: "x = HVAt i n"
  then obtain v where v: "vvobjs w i = Some v" "n < vv_size v" "standing w (vv_it v)"
    "unat n < length (snd (the (message_of w (vv_it v)) ! snd (the (hi_val (the (iters w (vv_it v)))))))"
    using assms(3) by (auto split: option.splits)
  with standing_box [OF assms(1), of "vv_it v"] x assms(2) show ?thesis
    by (force simp: standing_def HeaderVectorView_at_def async_nats_message_header_iterator_value_at_def
        header_iterator_from_ptr_def current_val_def borrowed_headers_def cm_simps split: prod.splits)
next
  assume x: "x = HEnd i"
  then have i: "hiobjs w i = None" using assms(3) by simp
  have "iterators_ok (hiobjs_update (\<lambda>m. m(i \<mapsto> null)) w)"
    using assms(2) i
    by (intro iterator_set [OF assms(2), of _ i "Some null"]) (auto simp: refs_fun iterators_ok_def ref_inv_def)
  with x show ?thesis by (simp add: HeadersView_end_def HeaderIterator_default_def cm_simps)
qed

lemma header_op_step:
  assumes "heap_typed w" "holders_ok S w" "spec E w (OHeader x) S = Some S'"
  shows "\<exists>w'. sysstep E (OHeader x) w = Inr ((), w') \<and> holders_ok S' w'"
proof -
  have r: "header_rule w x" "S' = S" using assms(3) by (auto split: if_splits)
  have ok: "iterators_ok w" using assms(2) by (simp add: holders_ok_def)
  have "\<exists>w'. header_step E x w = Inr ((), w') \<and> iterators_ok w'"
  proof (cases x)
    case (HIter y) with iter_program_step assms(1) ok r(1) show ?thesis by blast
  next
    case (HBegin i j) with begin_step assms(1,2) r(1) show ?thesis by blast
  next
    case (HInc i)
    with r(1) obtain q where "hiobjs w i = Some q" "walking w q" by (auto split: option.splits)
    with inc_step [OF assms(1) ok] HInc show ?thesis by simp
  next
    case (HDeref i j k) with deref_step assms(1) ok r(1) show ?thesis by blast
  next
    case (HGet i v j k) with get_step assms(1,2) r(1) show ?thesis by blast
  qed (use view_steps [OF assms(1) ok r(1)] in blast)+
  then obtain w' where w': "header_step E x w = Inr ((), w')" "iterators_ok w'" by blast
  with keeps_header [OF assms(2) w'(2) keepsD [OF keeps_header_step w'(1)]] r(2) show ?thesis by simp
qed

end
