(* ===== verification/Progress.thy ===== *)
theory Progress
  imports Iterators
begin

lemma send_steps:
  fixes w :: "('s, 'c, 'm, 'q, 'z) xw_scheme"
  assumes "holders_ok S w" "held (y_sn S) i" "d = DNull \<or> terminated w d" "readable w v"
  shows "\<exists>w'. sysstep E (TrySend th i d v) w = Inr ((), w') \<and> holders_ok S w'"
    and "\<exists>w'. sysstep E (SendNow th i d v) w = Inr ((), w') \<and> holders_ok S w'"
proof -
  have "owns (senders w) (snobjs w) (y_sn S)" using assms(1) by (simp add: holders_ok_def values_ok_def)
  then obtain p b where p: "snobjs w i = Some p" "p \<noteq> null" "senders w p = Some b" using owns_held assms(2) by blast
  obtain a n where v: "v = View a n" by (cases v)
  obtain x where x: "mem_at w a = Inr x" "unat n \<le> length x" using assms(4) v by (auto split: sum.splits)
  obtain ok m where a: "inner_acquire (e_ops E) (inners w (ns_inner b)) = (ok, m)"
    by (cases "inner_acquire (e_ops E) (inners w (ns_inner b))")
  have "\<exists>tp. \<forall>u :: ('s, 'c, 'm, 'q, 'z) xw_scheme. mem_at u d = mem_at w d \<longrightarrow> message_topic d u = Inr (tp, u)"
    using assms(3)
    by (cases "d = DNull")
      (auto simp: message_topic_def cstr_lossy_convert_def terminated_def cm_simps split: sum.splits)
  then obtain tp where
    tp: "\<And>u :: ('s, 'c, 'm, 'q, 'z) xw_scheme. mem_at u d = mem_at w d \<Longrightarrow> message_topic d u = Inr (tp, u)" by blast
  have frame: "holders_ok S (w\<lparr>inners := f\<rparr>)"
    "holders_ok S (BYTES_try_send_update (\<lambda>_. g) w\<lparr>inners := f\<rparr>)"
    "holders_ok S (BYTES_send_update (\<lambda>_. g) w\<lparr>inners := f\<rparr>)"
    "BYTES_try_send_update k w = BYTES_try_send_update (\<lambda>_. k (BYTES_try_send w)) w"
    "BYTES_send_update k w = BYTES_send_update (\<lambda>_. k (BYTES_send w)) w" for f g k
    using assms(1) by (simp_all add: holders_defs)
  show "\<exists>w'. sysstep E (TrySend th i d v) w = Inr ((), w') \<and> holders_ok S w'"
    using p x a frame unfolding v
    by (cases ok) (simp_all add: Sender_try_send_def async_nats_named_sender_try_send_def bytes_copy_def cm_simps tp
        frame(4) [of "\<lambda>t. t(th := y t)" for y])
  show "\<exists>w'. sysstep E (SendNow th i d v) w = Inr ((), w') \<and> holders_ok S w'"
    using p x a frame unfolding v
    by (simp add: Sender_send_def async_nats_named_sender_send_def bytes_copy_def cm_simps tp
        frame(5) [of "\<lambda>t. t(th := y t)" for y])
qed

text \<open>The background: none of it touches what the objects own.\<close>

lemma background_frame:
  assumes "holders_ok S w"
  shows "holders_ok S (w\<lparr>subscribers := a, sds := b, pumps := c, rchans := e\<rparr>)"
    "holders_ok S (w\<lparr>cbuf := f\<rparr>)" "holders_ok S (w\<lparr>subscribers := a, sds := b, droppers := g\<rparr>)"
  using assms by (simp_all add: holders_defs)

lemma keeps_hand_over: "(\<And>w. f (wire_update (\<lambda>l. l @ [x]) w) = f w) \<Longrightarrow> keeps f (hand_over x)"
  unfolding hand_over_def by (rule keeps_effects)

lemma sender_task_frame:
  assumes "sysstep E x w = Inr ((), w')" "x = SenderTakes i \<or> x = SenderDone i ok"
  shows "\<exists>f g h. w' = w\<lparr>inners := f, sender_tasks := g, wire := h\<rparr>"
proof -
  let ?rest = "\<lambda>w. w\<lparr>inners := \<lambda>_. undefined, sender_tasks := [], wire := []\<rparr>"
  have "keeps ?rest (sysstep E x)"
    using assms(2)
    by (elim disjE; simp add: sender_task_recv_def sender_task_done_def inner_store_def arc_drop_def;
        intro keep_intros keeps_effects keeps_hand_over; simp)
  from keepsD [OF this assms(1)] have "w' = w\<lparr>inners := inners w', sender_tasks := sender_tasks w', wire := wire w'\<rparr>"
    by (cases w; cases w'; simp)
  then show ?thesis by blast
qed

text \<open>The steps of the runtime that no task of a connection makes: they run, whatever the program does.\<close>

definition background :: "sysop \<Rightarrow> bool" where
  "background x \<longleftrightarrow> (case x of Arrives s m \<Rightarrow> True | DropperRuns k \<Rightarrow> True | PumpRuns k \<Rightarrow> True | SenderTakes i \<Rightarrow> True
     | SenderDone i ok \<Rightarrow> True | _ \<Rightarrow> False)"

lemma background_runs:
  assumes "subscriber_laws (e_crates E) queue closed" "channel_laws (e_crates E)" "can_unsubscribe (e_crates E)"
    and "background x"
  shows "\<exists>w'. sysstep E x w = Inr ((), w')"
proof (cases x)
  case (PumpRuns i)
  obtain b tx where b: "pumps w ! i = (b, tx)" by (cases "pumps w ! i")
  obtain s l where "subscribtion_pop (e_crates E) b w = Some (Inr (fst (spec_poll (sub_abs (e_crates E) queue closed
      (subscribers w (sb_sub b)) (sds w (sb_sd b)))),
      w\<lparr>subscribers := (subscribers w)(sb_sub b := s), sds := (sds w)(sb_sd b := l)\<rparr>))"
    using subscribtion_pop_run [OF assms(1-3)] by metis
  then show ?thesis
    using b PumpRuns by (auto simp: pump_once_def pump_step_def split: poll.splits option.splits)
next
  case (SenderTakes i)
  then show ?thesis
    by (auto simp: sender_task_recv_def hand_over_def arc_drop_def cm_simps split: prod.splits option.splits)
next
  case (SenderDone i ok)
  then show ?thesis
    by (auto simp: sender_task_done_def arc_drop_def cm_simps split: prod.splits option.splits)
qed (use assms(4) in \<open>simp_all add: background_def dropper_step_def arrive_def cm_simps\<close>)

lemma background_same:
  assumes "sysstep E x w = Inr ((), w')" "background x"
  shows "w' = w\<lparr>subscribers := subscribers w', sds := sds w', pumps := pumps w', rchans := rchans w',
      droppers := droppers w', inners := inners w', sender_tasks := sender_tasks w', wire := wire w'\<rparr>"
proof (cases x)
  case (PumpRuns i)
  show ?thesis
  proof (cases "pump_step (e_crates E) (e_chan E) i w = Some (Inr w')")
    case True
    from pump_step_frame [OF this] show ?thesis by auto
  next
    case False
    then show ?thesis
      using assms(1) PumpRuns by (auto simp: pump_once_def split: if_splits option.splits sum.splits)
  qed
qed (use assms sender_task_frame [OF assms(1)] in
    \<open>auto simp: background_def dropper_step_def arrive_def run_dropper_def Let_def cm_simps split: if_splits\<close>)

lemma background_keeps:
  assumes "sysstep E x w = Inr ((), w')" "background x"
  shows "holders_ok S w' = holders_ok S w" "borrows_ok w' = borrows_ok w"
proof -
  note same = background_same [OF assms]
  show "holders_ok S w' = holders_ok S w" by (subst same) (simp add: holders_defs)
  have "mem_at w' = mem_at w" by (subst same, intro ext, rule mem_at_frame) simp_all
  then have "alive w' = alive w" by (subst same, intro ext) (rename_tac t st, case_tac t; subst (asm) same; simp)
  moreover have "pending w' = pending w" by (subst same) simp
  ultimately show "borrows_ok w' = borrows_ok w" by (simp add: borrows_ok_def)
qed

subsection \<open>Initiations\<close>

lemma tasks_ok_inv: "heap_typed w \<Longrightarrow> async_inv w \<longleftrightarrow> tasks_ok w"
  using heap_typed_ok [of w KContext "ctxs w"] by (simp add: async_inv_def tasks_ok_def)

lemma alive_ext:
  assumes "alive w t st" "\<And>p. conns w p \<noteq> None \<Longrightarrow> conns w' p \<noteq> None" "cparams w' = cparams w"
    and "\<And>p. subs w p \<noteq> None \<Longrightarrow> subs w' p \<noteq> None" "\<And>d b. mem_at w d = Inr b \<Longrightarrow> mem_at w' d = Inr b"
  shows "alive w' t st"
proof (cases t)
  case (TRequest conn topic d n ctx)
  show ?thesis
  proof (cases "mem_at w d")
    case (Inr b)
    with assms(1,2) assms(5) [OF Inr] TRequest show ?thesis by auto
  qed (use assms(1,2) TRequest in auto)
qed (use assms in auto)

definition call_keep :: "'z aw_scheme \<Rightarrow> 'z aw_scheme" where
  "call_keep w = w\<lparr>brk := 0, ctxs := Map.empty, BYTES := \<lambda>_. [], BYTES_reply := \<lambda>_. [], pending := [],
     reqs := Map.empty, rqobjs := Map.empty\<rparr>"

lemma same_call:
  "call_keep w' = call_keep w \<Longrightarrow> w' = w\<lparr>brk := brk w', ctxs := ctxs w', BYTES := BYTES w', BYTES_reply := BYTES_reply w',
     pending := pending w', reqs := reqs w', rqobjs := rqobjs w'\<rparr>"
  by (cases w; cases w'; simp add: call_keep_def)

lemma keeps_initiate: "keeps call_keep (initiate a h)"
  by (cases a; simp add: cpp_api_defs c_api_defs del: bnd_ret split: string_view.split;
      intro keep_intros keeps_effects allI impI; simp add: call_keep_def)

lemma initiate_requests:
  assumes "initiate a h w = Inr ((), w')"
  shows "(\<And>i s q. a \<noteq> SendRequest i s q) \<Longrightarrow> reqs w' = reqs w \<and> rqobjs w' = rqobjs w"
    and "a = SendRequest i s q \<Longrightarrow> \<exists>p. rqobjs w q = Some p \<and> reqs w' = (reqs w)(p := None) \<and> rqobjs w' = (rqobjs w)(q \<mapsto> null)"
  using assms
  by (cases a; auto simp: cpp_api_defs c_api_defs slice_lossy_convert_def cstr_lossy_convert_def cm_simps
      split: cm_splits)+

lemma initiate_alive:
  assumes "initiate a h w = Inr ((), w')" "\<And>i s d. a = Request i s d \<Longrightarrow> readable w d"
  shows "\<exists>t. pending w' = pending w @ [(t, False)] \<and> alive w t False"
  using assms
  by (cases a) (auto simp: cpp_api_defs c_api_defs slice_lossy_convert_def cstr_lossy_convert_def cm_simps
      split: cm_splits)

lemma initiate_runs:
  assumes "holders_ok S w" "callable S w a"
  shows "\<exists>w'. initiate a h w = Inr ((), w')"
proof -
  have v: "owns (conns w) (cnobjs w) (y_cn S)" "owns (reqs w) (rqobjs w) (y_rq S)" "owns (rts w) (rtobjs w) (y_rt S)"
    "owns (cparams w) (coobjs w) (y_co S)" "owns (subs w) (sbobjs w) (y_sb S)"
    using assms(1) by (simp_all add: holders_ok_def values_ok_def)
  show ?thesis
    using assms(2)
    by (cases a)
      (auto simp: cpp_api_defs c_api_defs slice_lossy_convert_def cstr_lossy_convert_def cm_simps terminated_def
        split: string_view.splits sum.splits elim!: owns_held [OF v(1)] owns_held [OF v(2)] owns_held [OF v(3)]
          owns_held [OF v(4)] owns_held [OF v(5)])
qed

lemma keeps_call:
  assumes "holders_ok S w" "tasks_ok w'" "owns (reqs w') (rqobjs w') t'" "call_keep w' = call_keep w"
  shows "holders_ok (S\<lparr>y_rq := t'\<rparr>) w'"
  using assms(1-3) by (subst same_call [OF assms(4)]) (simp add: holders_defs)

lemma initiate_step:
  assumes "heap_typed w" "holders_ok S w" "borrows_ok w" "spec E w (Initiate a h) S = Some S'"
  shows "\<exists>w'. sysstep E (Initiate a h) w = Inr ((), w') \<and> holders_ok S' w' \<and> borrows_ok w'"
proof -
  have ok: "callable S w a" "S' = after_call a S" using assms(4) by (auto split: if_splits)
  obtain w' where w': "initiate a h w = Inr ((), w')" using initiate_runs [OF assms(2) ok(1)] by blast
  note same = same_call [OF keepsD [OF keeps_initiate w']]
  have tasks: "tasks_ok w'"
  proof -
    have "heap_typed w'" using typed_opD [OF typed_sysstep [of E "Initiate a h"] assms(1)] w' by simp
    then show ?thesis using initiate_inv [OF w'] tasks_ok_inv assms(1,2) unfolding holders_ok_def by blast
  qed
  have vq: "owns (reqs w) (rqobjs w) (y_rq S)" using assms(2) by (simp add: holders_ok_def values_ok_def)
  have "owns (reqs w') (rqobjs w') (y_rq S')"
  proof (cases "\<exists>i s q. a = SendRequest i s q")
    case True
    then show ?thesis
      using initiate_requests(2) [OF w'] owns_put_none [OF vq] ok(2) by force
  next
    case False
    then have "S' = S" using ok(2) by (cases a) simp_all
    with False show ?thesis using initiate_requests(1) [OF w'] vq by metis
  qed
  moreover have "S' = S\<lparr>y_rq := y_rq S'\<rparr>" using ok(2) by (cases a) simp_all
  ultimately have "holders_ok S' w'"
    using keeps_call [OF assms(2) tasks _ keepsD [OF keeps_initiate w']] by metis
  moreover have "borrows_ok w'"
  proof -
    obtain t where t: "pending w' = pending w @ [(t, False)]" "alive w t False"
      using initiate_alive [OF w'] ok(1) by force
    have frame: "conns w' = conns w" "cparams w' = cparams w" "subs w' = subs w" "mem_at w' = mem_at w"
      by (subst same, simp add: fun_eq_iff)+
    have "alive w' u st" if "alive w u st" for u st
      using that by (rule alive_ext) (simp_all add: frame)
    with t assms(3) show ?thesis by (auto simp: borrows_ok_def)
  qed
  ultimately show ?thesis using w' by auto
qed

end
