(* ===== verification/Composition.thy ===== *)
theory Composition
  imports Progress
begin

subsection \<open>Tasks\<close>

lemma mem_at_wire [simp]: "mem_at (wire_update f w) d = mem_at w d"
  by (rule mem_at_frame) simp_all

lemma task_start_step:
  assumes "heap_typed w" "holders_ok S w" "borrows_ok w"
  shows "\<exists>w'. sysstep E (TaskStart k) w = Inr ((), w') \<and> holders_ok S w' \<and> borrows_ok w'"
proof (cases "k < length (pending w) \<and> \<not> snd (pending w ! k)")
  case True
  obtain t where t: "pending w ! k = (t, False)" using True by (cases "pending w ! k") auto
  then have al: "alive w t False" using assms(3) True nth_mem unfolding borrows_ok_def by fastforce
  obtain v where v: "task_start t w = Inr ((), v)" using task_start_runs [OF al] by blast
  obtain xs where xs: "v = wire_update (\<lambda>l. l @ xs) w" using task_start_effect [OF v] by blast
  let ?w = "v\<lparr>pending := (pending w)[k := (t, True)]\<rparr>"
  have eq: "map (ctx_of \<circ> fst) ((pending w)[k := (t, True)]) = map (ctx_of \<circ> fst) (pending w)"
    using True t by (simp add: map_update list_update_same_conv)
  then have "ctx_of ` fst ` set ((pending w)[k := (t, True)]) = ctx_of ` fst ` set (pending w)"
    by (metis image_comp list.set_map)
  with eq assms(2) have "holders_ok S ?w" by (simp add: holders_defs xs)
  moreover have "alive ?w u st" if "alive w u st" for u st
    using that by (rule alive_ext) (simp_all add: xs)
  then have "borrows_ok ?w"
    using assms(3) alive_started [OF al] set_update_subset_insert [of "pending w" k "(t, True)"]
    by (force simp: borrows_ok_def)
  ultimately show ?thesis using v t True by (simp add: start_task_def cm_simps)
qed (use assms in \<open>auto simp: start_task_def cm_simps\<close>)

text \<open>The call of a handler and the release of its context.\<close>

definition settle :: "ptr \<Rightarrow> completion \<Rightarrow> 'z aw_scheme \<Rightarrow> 'z aw_scheme" where
  "settle c x w = undestroyed_update Suc (ctxs_update (\<lambda>m. m(c := None))
     (calls_update (\<lambda>l. l @ [(the (ctxs w c), x)]) w))"

text \<open>The boxes a task makes for its handler.\<close>

fun made :: "task \<Rightarrow> response \<Rightarrow> 'z aw_scheme \<Rightarrow> 'z aw_scheme" where
  "made t (RMessage m) w = msgs_update (\<lambda>h. h(brk w \<mapsto> message_into m)) (w\<lparr>brk := Suc (brk w)\<rparr>)"
| "made t (RRequestError k e) w = rerrs_update (\<lambda>h. h(brk w \<mapsto> request_error_new k e)) (w\<lparr>brk := Suc (brk w)\<rparr>)"
| "made t (RConnectError k e) w = cerrs_update (\<lambda>h. h(brk w \<mapsto> connect_error_new k e)) (w\<lparr>brk := Suc (brk w)\<rparr>)"
| "made (TSubscribe conn tp ctx) (RFailed e) w = strs_update (\<lambda>h. h(brk w \<mapsto> e @ [0])) (w\<lparr>brk := Suc (brk w)\<rparr>)"
| "made (TConnect rt cfg ctx) (RClient c) w =
     conns_update (\<lambda>h. h(brk w \<mapsto> \<lparr>cn_rt = rt, cn_client = c\<rparr>)) (w\<lparr>brk := Suc (brk w)\<rparr>)"
| "made (TSubscribe conn tp ctx) (RSubscriber s) w =
     (case conns w conn of None \<Rightarrow> w
      | Some c \<Rightarrow> subs_update (\<lambda>h. h(Suc (brk w) \<mapsto> \<lparr>sb_rt = cn_rt c, sb_sub = s, sb_sd = brk w\<rparr>))
          (w\<lparr>sds := (sds w)(brk w := []), brk := Suc (Suc (brk w))\<rparr>))"
| "made t r w = w"

text \<open>What the handler is called with.\<close>

fun result_of :: "task \<Rightarrow> response \<Rightarrow> 'z aw_scheme \<Rightarrow> completion" where
  "result_of t (RMessage m) w = CMessage (brk w)"
| "result_of t (RRequestError k e) w = CRequestError (brk w)"
| "result_of t (RConnectError k e) w = CConnectError (brk w)"
| "result_of t (RClient c) w = CConnection (brk w)"
| "result_of t (RSubscriber s) w = CSubscribtion (Suc (brk w))"
| "result_of (TSubscribe conn tp ctx) (RFailed e) w = CSubscribtion null"
| "result_of t REnd w = CMessage null"
| "result_of t r w = CVoid"

lemma request_result_made:
  assumes "request_result r c w = Inr ((), w')" "0 < brk w" "answers (TRequest conn tp d n c) r"
  shows "w' = settle c (result_of (t) r w) (made (t) r w)"
  using assms
  by (cases r) (auto simp: settle_def callback_defs string_to_owned_string_def cm_simps split: cm_splits)

lemma subscribe_result_made:
  assumes "subscribe_result (cn_rt b) r c w = Inr ((), w')" "0 < brk w" "conns w conn = Some b" "answers (TSubscribe conn tp c) r"
  shows "w' = settle c (result_of (TSubscribe conn tp c) r w) (made (TSubscribe conn tp c) r w)"
  using assms
  by (cases r) (auto simp: settle_def callback_defs string_to_owned_string_def cm_simps split: cm_splits)

lemma connect_result_made:
  assumes "connect_result rt r c w = Inr ((), w')" "0 < brk w" "answers (TConnect rt cfg c) r"
  shows "w' = settle c (result_of (TConnect rt cfg c) r w) (made (TConnect rt cfg c) r w)"
  using assms
  by (cases r) (auto simp: settle_def callback_defs string_to_owned_string_def cm_simps split: cm_splits)

lemma receive_result_made:
  assumes "receive_result r c w = Inr ((), w')" "0 < brk w" "answers (TReceive s c) r"
  shows "w' = settle c (result_of (TReceive s c) r w) (made (TReceive s c) r w)"
  using assms
  by (cases r) (auto simp: settle_def callback_defs string_to_owned_string_def cm_simps split: cm_splits)

lemma publish_made:
  assumes "publish_callback c w = Inr ((), w')" "0 < brk w" "answers (TPublish conn tp b c) r"
  shows "w' = settle c (result_of (TPublish conn tp b c) r w) (made (TPublish conn tp b c) r w)"
  using assms
  by (cases r) (auto simp: settle_def callback_defs string_to_owned_string_def cm_simps split: cm_splits)

lemma task_finish_made:
  assumes "task_finish t r w = Inr ((), w')" "answers t r" "0 < brk w"
  shows "w' = settle (ctx_of t) (result_of t r w) (made t r w)"
proof (cases t)
  case (TPublish conn tp b ctx)
  then have "publish_callback ctx w = Inr ((), w')" using assms(1) by (auto simp: cm_simps split: cm_splits)
  then show ?thesis using publish_made assms(2,3) unfolding TPublish ctx_of.simps by blast
next
  case (TPublishReply conn tp rp b ctx)
  then have "publish_callback ctx w = Inr ((), w')" using assms(1) by (auto simp: cm_simps split: cm_splits)
  moreover have "result_of t r w = result_of (TPublish conn tp b ctx) r w" "made t r w = made (TPublish conn tp b ctx) r w"
    "answers (TPublish conn tp b ctx) r" using assms(2) TPublishReply by (cases r; simp)+
  ultimately show ?thesis using publish_made assms(3) TPublishReply by simp
next
  case (TSubscribe conn tp ctx)
  then obtain b where "conns w conn = Some b" "subscribe_result (cn_rt b) r ctx w = Inr ((), w')"
    using assms(1) by (auto simp: cm_simps split: cm_splits)
  then show ?thesis using subscribe_result_made assms(2,3) unfolding TSubscribe ctx_of.simps by blast
next
  case (TRequest conn tp d n ctx)
  then have "request_result r ctx w = Inr ((), w')" using assms(1) by (auto simp: cm_simps split: cm_splits)
  then show ?thesis using request_result_made assms(2,3) unfolding TRequest ctx_of.simps by blast
next
  case (TSendRequest conn tp q ctx)
  then have "request_result r ctx w = Inr ((), w')" using assms(1) by (auto simp: cm_simps split: cm_splits)
  moreover have "answers (TRequest conn tp DNull 0 ctx) r" using assms(2) TSendRequest by (cases r; simp)
  ultimately show ?thesis using request_result_made assms(3) TSendRequest by simp
next
  case (TConnect rt cfg ctx)
  then have "connect_result rt r ctx w = Inr ((), w')" using assms(1) by (auto simp: cm_simps split: cm_splits)
  then show ?thesis using connect_result_made assms(2,3) unfolding TConnect ctx_of.simps by blast
next
  case (TReceive s ctx)
  then have "receive_result r ctx w = Inr ((), w')" using assms(1) by (auto simp: cm_simps split: cm_splits)
  then show ?thesis using receive_result_made assms(2,3) unfolding TReceive ctx_of.simps by blast
qed

text \<open>A new box that no object holds: one more raw reference.\<close>

lemma ref_inv_more:
  assumes "ref_inv refs m ext" "p \<noteq> null" "refs p = 0" "\<And>q. refs' q = (if q = p then 1 else refs q)"
    and "\<And>q. ext' q = (if q = p then Suc (ext q) else ext q)"
  shows "ref_inv refs' m ext'"
  using assms by (simp add: ref_inv_def)

definition objects_ok :: "sys \<Rightarrow> ('s, 'c, 'm, 'q, 'z) xw_scheme \<Rightarrow> bool" where
  "objects_ok S w \<longleftrightarrow> msgs_ok S w \<and> connect_errors_ok S w \<and> request_errors_ok S w \<and> strings_ok S w \<and> values_ok S w
     \<and> iterators_ok w"

lemma holders_objects: "holders_ok S w \<longleftrightarrow> objects_ok S w \<and> tasks_ok w"
  by (simp add: holders_ok_def objects_ok_def)

lemmas objects_defs = objects_ok_def msgs_ok_def connect_errors_ok_def request_errors_ok_def strings_ok_def
  values_ok_def iterators_ok_def msg_inv_def refs_fun

lemma objects_settle: "objects_ok S ((settle c x w)\<lparr>pending := ts\<rparr>) = objects_ok S w"
  by (simp add: objects_defs settle_def)

lemma objects_message:
  assumes "heap_typed w" "objects_ok S w"
  shows "objects_ok (S\<lparr>y_msg := more (brk w) (y_msg S)\<rparr>)
    (msgs_update (\<lambda>h. h(brk w \<mapsto> message_into m)) (w\<lparr>brk := Suc (brk w)\<rparr>))" (is "objects_ok _ ?w")
proof -
  let ?ext = "\<lambda>f p. holds (hvobjs w) p + f p"
  have inv: "ref_inv (msg_refs w) (mobjs w) (?ext (y_msg S))"
    using assms(2) by (simp add: objects_ok_def msgs_ok_def msg_inv_def)
  have "ref_inv (msg_refs ?w) (mobjs w) (?ext (more (brk w) (y_msg S)))"
    by (rule ref_inv_more [OF inv, of "brk w"])
      (use typed_fresh [OF assms(1) order.refl] in \<open>simp_all add: refs_fun message_into_def more_def\<close>)
  then show ?thesis using assms(2) by (simp add: objects_defs message_into_def)
qed

lemma objects_connect_error:
  assumes "heap_typed w" "objects_ok S w" "0 \<notin> set e"
  shows "objects_ok (S\<lparr>y_ce := more (brk w) (y_ce S)\<rparr>)
    (cerrs_update (\<lambda>h. h(brk w \<mapsto> connect_error_new k e)) (w\<lparr>brk := Suc (brk w)\<rparr>))" (is "objects_ok _ ?w")
proof -
  have inv: "ref_inv (rc_refs cerrs ce_refs w) (e_ptrs (ceobjs w)) (y_ce S)"
    using assms(2) by (simp add: objects_ok_def connect_errors_ok_def)
  have "ref_inv (rc_refs cerrs ce_refs ?w) (e_ptrs (ceobjs w)) (more (brk w) (y_ce S))"
    by (rule ref_inv_more [OF inv, of "brk w"])
      (use typed_fresh [OF assms(1) order.refl] in \<open>simp_all add: refs_fun connect_error_new_def more_def\<close>)
  then show ?thesis using assms(2,3) by (simp add: objects_defs connect_error_new_def)
qed

lemma objects_request_error:
  assumes "heap_typed w" "objects_ok S w" "0 \<notin> set e"
  shows "objects_ok (S\<lparr>y_re := more (brk w) (y_re S)\<rparr>)
    (rerrs_update (\<lambda>h. h(brk w \<mapsto> request_error_new k e)) (w\<lparr>brk := Suc (brk w)\<rparr>))" (is "objects_ok _ ?w")
proof -
  have inv: "ref_inv (rc_refs rerrs re_refs w) (e_ptrs (reobjs w)) (y_re S)"
    using assms(2) by (simp add: objects_ok_def request_errors_ok_def)
  have "ref_inv (rc_refs rerrs re_refs ?w) (e_ptrs (reobjs w)) (more (brk w) (y_re S))"
    by (rule ref_inv_more [OF inv, of "brk w"])
      (use typed_fresh [OF assms(1) order.refl] in \<open>simp_all add: refs_fun request_error_new_def more_def\<close>)
  then show ?thesis using assms(2,3) by (simp add: objects_defs request_error_new_def)
qed

lemma objects_string:
  assumes "heap_typed w" "objects_ok S w"
  shows "objects_ok (S\<lparr>y_str := more (brk w) (y_str S)\<rparr>)
    (strs_update (\<lambda>h. h(brk w \<mapsto> e)) (w\<lparr>brk := Suc (brk w)\<rparr>))" (is "objects_ok _ ?w")
proof -
  let ?ext = "\<lambda>f p. holds (e_texts (ceobjs w)) p + holds (e_texts (reobjs w)) p + f p"
  have inv: "ref_inv (own_refs strs w) (sobjs w) (?ext (y_str S))"
    using assms(2) unfolding objects_ok_def strings_split(1) by simp
  have "ref_inv (own_refs strs ?w) (sobjs w) (?ext (more (brk w) (y_str S)))"
    by (rule ref_inv_more [OF inv, of "brk w"])
      (use typed_fresh [OF assms(1) order.refl] in \<open>simp_all add: refs_fun more_def\<close>)
  then have "strings_ok (S\<lparr>y_str := more (brk w) (y_str S)\<rparr>) ?w"
    using assms(2) unfolding objects_ok_def strings_split(1) by simp
  then show ?thesis using assms(2) by (simp add: objects_defs)
qed

lemma objects_connection:
  assumes "heap_typed w" "objects_ok S w"
  shows "objects_ok (S\<lparr>y_cn := raw (brk w) b (y_cn S)\<rparr>)
    (conns_update (\<lambda>h. h(brk w \<mapsto> b)) (w\<lparr>brk := Suc (brk w)\<rparr>))"
  using owns_raw [of "conns w" "cnobjs w" "y_cn S" "brk w" b] typed_fresh [OF assms(1) order.refl] assms(2)
  by (simp add: objects_defs)

lemma objects_subscribtion:
  assumes "heap_typed w" "objects_ok S w"
  shows "objects_ok (S\<lparr>y_sb := raw (Suc (brk w)) b (y_sb S)\<rparr>)
    (subs_update (\<lambda>h. h(Suc (brk w) \<mapsto> b)) (w\<lparr>sds := c, brk := Suc (Suc (brk w))\<rparr>))"
  using owns_raw [of "subs w" "sbobjs w" "y_sb S" "Suc (brk w)" b] typed_fresh [OF assms(1), of "Suc (brk w)"] assms(2)
  by (simp add: objects_defs)

lemma objects_made:
  assumes "heap_typed w" "objects_ok S w" "answers t r" "text_ok r"
  shows "objects_ok (after_task w t r S) (made t r w)"
proof (cases r)
  case (RFailed e)
  then show ?thesis
    using assms(2-4) objects_string [OF assms(1,2)]
    by (cases t; simp split: option.split)
next
  case (RSubscriber s)
  then show ?thesis
    using assms(2-4) objects_subscribtion [OF assms(1,2)]
    by (cases t; simp split: option.split)
next
  case (RMessage m)
  then show ?thesis
    using assms(2-4) objects_message [OF assms(1,2)]
    by (cases t; simp split: option.split)
next
  case (RRequestError k e)
  then show ?thesis
    using assms(2-4) objects_request_error [OF assms(1,2)]
    by (cases t; simp split: option.split)
next
  case (RClient c)
  then show ?thesis
    using assms(2-4) objects_connection [OF assms(1,2)]
    by (cases t; simp split: option.split)
next
  case (RConnectError k e)
  then show ?thesis
    using assms(2-4) objects_connect_error [OF assms(1,2)]
    by (cases t; simp split: option.split)
qed (use assms(2,3) in \<open>cases t; simp\<close>)+

lemma settle_same [simp]:
  "conns (settle c x w) = conns w" "cparams (settle c x w) = cparams w" "subs (settle c x w) = subs w"
  "brk (settle c x w) = brk w" "pending (settle c x w) = pending w"
  by (simp_all add: settle_def)

lemma mem_at_settle [simp]: "mem_at (settle c x w) d = mem_at w d" "mem_at (pending_update f w) d = mem_at w d"
  by (rule mem_at_frame; simp add: settle_def)+

lemma mem_at_grows:
  assumes "cbuf w' = cbuf w" "strs w \<subseteq>\<^sub>m strs w'" "msgs w \<subseteq>\<^sub>m msgs w'" "mem_at w d = Inr b"
  shows "mem_at w' d = Inr b"
proof (cases d)
  case (DStr p)
  then show ?thesis using assms(2,4) by (force simp: map_le_def split: option.splits)
next
  case (DMsg p f)
  then obtain m where "msgs w p = Some m" using assms(4) by (auto split: option.splits)
  moreover then have "msgs w' p = Some m" using assms(3) by (force simp: map_le_def)
  ultimately show ?thesis using assms(4) DMsg by simp
qed (use assms in auto)

lemma map_le_fresh: "m p = None \<Longrightarrow> m \<subseteq>\<^sub>m m(p \<mapsto> x)"
  by (auto simp: map_le_def)

lemma made_grows:
  assumes "heap_typed w" "answers t r"
  shows "cbuf (made t r w) = cbuf w" "cparams (made t r w) = cparams w" "strs w \<subseteq>\<^sub>m strs (made t r w)"
    "msgs w \<subseteq>\<^sub>m msgs (made t r w)" "conns w \<subseteq>\<^sub>m conns (made t r w)" "subs w \<subseteq>\<^sub>m subs (made t r w)"
proof -
  note fresh = typed_fresh [OF assms(1) order.refl] typed_fresh [OF assms(1), of "Suc (brk w)"]
  have "cbuf (made t r w) = cbuf w \<and> cparams (made t r w) = cparams w \<and> strs w \<subseteq>\<^sub>m strs (made t r w)
      \<and> msgs w \<subseteq>\<^sub>m msgs (made t r w) \<and> conns w \<subseteq>\<^sub>m conns (made t r w) \<and> subs w \<subseteq>\<^sub>m subs (made t r w)"
    using assms(2) fresh
    by (cases t; cases r; simp only: answers.simps response.case simp_thms; simp add: map_le_fresh split: option.split)
  then show "cbuf (made t r w) = cbuf w" "cparams (made t r w) = cparams w" "strs w \<subseteq>\<^sub>m strs (made t r w)"
    "msgs w \<subseteq>\<^sub>m msgs (made t r w)" "conns w \<subseteq>\<^sub>m conns (made t r w)" "subs w \<subseteq>\<^sub>m subs (made t r w)"
    by simp_all
qed

lemma made_alive:
  assumes "heap_typed w" "alive w u st" "answers t r"
  shows "alive (made t r w) u st"
  using assms(2)
proof (rule alive_ext)
  note grows = made_grows [OF assms(1,3)]
  show "conns (made t r w) p \<noteq> None" if "conns w p \<noteq> None" for p
    using that grows(5) by (auto simp: map_le_def dom_def)
  show "subs (made t r w) p \<noteq> None" if "subs w p \<noteq> None" for p
    using that grows(6) by (auto simp: map_le_def dom_def)
  show "mem_at (made t r w) d = Inr b" if "mem_at w d = Inr b" for d b
    using mem_at_grows [OF grows(1,3,4) that] .
qed (rule made_grows(2) [OF assms(1,3)])

text \<open>A task that ends: its handler is called, its context released, its results left for the handler.\<close>

lemma finish_ok:
  assumes "heap_typed w" "holders_ok S w" "borrows_ok w" and k: "k < length (pending w)" "pending w ! k = (t, True)"
    and r: "answers t r" "text_ok r"
  defines "out \<equiv> pending_update (\<lambda>_. take k (pending w) @ drop (Suc k) (pending w))"
  shows "\<exists>v. task_finish t r w = Inr ((), v) \<and> holders_ok (after_task w t r S) (out v) \<and> borrows_ok (out v)"
proof -
  have inv: "async_inv w" using assms(1,2) tasks_ok_inv by (auto simp: holders_ok_def)
  have mem: "(t, True) \<in> set (pending w)" using k nth_mem by metis
  have al: "alive w t True" using assms(3) mem by (auto simp: borrows_ok_def)
  obtain v where v: "task_finish t r w = Inr ((), v)"
    using task_finish_runs [OF al _ ctx_live(2) [OF inv mem] typed_pos [OF assms(1)] r(1)] ctx_live(1) [OF inv mem] by blast
  have eq: "v = settle (ctx_of t) (result_of t r w) (made t r w)"
    using task_finish_made [OF v r(1) typed_pos [OF assms(1)]] .
  have "async_inv (out v)" using finish_inv [OF k r(1) v inv] by (simp add: Let_def out_def)
  moreover have "heap_typed v" using typed_opD [OF typed_task_finish assms(1) v] by blast
  then have "heap_typed (out v)" using heap_same [of v "out v"] by (simp add: out_def)
  ultimately have "tasks_ok (out v)" using tasks_ok_inv by blast
  moreover have "objects_ok (after_task w t r S) (out v)"
    using objects_made [OF assms(1) _ r, of S] assms(2)
    unfolding eq out_def objects_settle holders_objects by blast
  moreover have "alive (out v) u st" if "alive w u st" for u st
    using made_alive [OF assms(1) that r(1)] by (rule alive_ext) (simp_all add: eq out_def)
  then have "borrows_ok (out v)"
    using assms(3) by (fastforce simp: borrows_ok_def out_def dest: in_set_takeD in_set_dropD)
  ultimately show ?thesis using v by (auto simp: holders_objects)
qed

lemma task_finish_step:
  assumes "heap_typed w" "holders_ok S w" "borrows_ok w" "spec E w (TaskFinish k r) S = Some S'"
  shows "\<exists>w'. sysstep E (TaskFinish k r) w = Inr ((), w') \<and> holders_ok S' w' \<and> borrows_ok w'"
proof (cases "k < length (pending w) \<and> snd (pending w ! k) \<and> \<not> receiving (fst (pending w ! k)) \<and> answers (fst (pending w ! k)) r")
  case True
  obtain t where t: "pending w ! k = (t, True)" "answers t r" using True by (cases "pending w ! k") auto
  have s: "S' = after_task w t r S" "text_ok r" using assms(4) True t by (auto split: if_splits)
  obtain v where v: "task_finish t r w = Inr ((), v)"
    "holders_ok S' (v\<lparr>pending := take k (pending w) @ drop (Suc k) (pending w)\<rparr>)"
    "borrows_ok (v\<lparr>pending := take k (pending w) @ drop (Suc k) (pending w)\<rparr>)"
    using finish_ok [OF assms(1-3) _ t s(2)] True unfolding s(1) by blast
  then show ?thesis using t True by (simp add: finish_task_def cm_simps)
next
  case False
  with assms show ?thesis by (auto simp: finish_task_def cm_simps split: if_splits)
qed

text \<open>A poll of a subscription touches its receiver and the channel of its cancellation only.\<close>

lemma subscribers_keep:
  assumes "heap_typed w" "holders_ok S w" "borrows_ok w"
  shows "heap_typed (w\<lparr>subscribers := st, sds := l\<rparr>)" "holders_ok S (w\<lparr>subscribers := st, sds := l\<rparr>)"
    "borrows_ok (w\<lparr>subscribers := st, sds := l\<rparr>)"
proof -
  show "heap_typed (w\<lparr>subscribers := st, sds := l\<rparr>)"
    using heap_same [OF assms(1), of "w\<lparr>subscribers := st, sds := l\<rparr>"] by simp
  show "holders_ok S (w\<lparr>subscribers := st, sds := l\<rparr>)" using assms(2) by (simp add: holders_defs)
  have mem: "mem_at (w\<lparr>subscribers := st, sds := l\<rparr>) d = mem_at w d" for d by (rule mem_at_frame) simp_all
  have "alive (w\<lparr>subscribers := st, sds := l\<rparr>) u b" if "alive w u b" for u b
    using that by (rule alive_ext) (simp_all add: mem)
  then show "borrows_ok (w\<lparr>subscribers := st, sds := l\<rparr>)" using assms(3) by (fastforce simp: borrows_ok_def)
qed

lemma poll_receive_step:
  assumes "subscriber_laws (e_crates E) queue closed" "channel_laws (e_crates E)" "can_unsubscribe (e_crates E)"
    and "heap_typed w" "holders_ok S w" "borrows_ok w" "spec E w (ReceivePolls k) S = Some S'"
  shows "\<exists>w'. sysstep E (ReceivePolls k) w = Inr ((), w') \<and> holders_ok S' w' \<and> borrows_ok w'"
proof (cases "\<exists>s ctx. k < length (pending w) \<and> pending w ! k = (TReceive s ctx, True)")
  case True
  then obtain s ctx where k: "k < length (pending w)" "pending w ! k = (TReceive s ctx, True)" by blast
  then have "alive w (TReceive s ctx) True" using assms(6) nth_mem unfolding borrows_ok_def by fastforce
  then obtain b where b: "s \<noteq> null" "subs w s = Some b" by auto
  obtain q w1 where q: "subscribtion_pop (e_crates E) b w = Some (Inr (q, w1))"
    using subscribtion_pop_run [OF assms(1-3)] by metis
  obtain st l where w1: "w1 = w\<lparr>subscribers := st, sds := l\<rparr>" using subscribtion_pop_frame [OF q] by blast
  note ok = subscribers_keep [OF assms(4-6), where st = st and l = l, folded w1]
  have polled: "polled E w k = Some (Inr (q, w1))" using k b q by (simp add: polled_def)
  show ?thesis
  proof (cases q)
    case Pending
    then have "S' = S" using assms(7) polled by simp
    with ok show ?thesis using k b q Pending by (simp add: poll_receive_def receive_poll_def deref_run)
  next
    case (Ready m)
    then have s: "S' = after_task w1 (TReceive s ctx) (pop_response m) S"
      using assms(7) polled w1 by (simp add: pop_response_def split: option.splits)
    have r: "text_ok (pop_response m)" by (simp add: pop_response_def split: option.split)
    have k1: "k < length (pending w1)" "pending w1 ! k = (TReceive s ctx, True)" "pending w1 = pending w"
      "subs w1 s = Some b" using k b w1 by simp_all
    obtain v where v: "task_finish (TReceive s ctx) (pop_response m) w1 = Inr ((), v)"
      "holders_ok S' (v\<lparr>pending := take k (pending w) @ drop (Suc k) (pending w)\<rparr>)"
      "borrows_ok (v\<lparr>pending := take k (pending w) @ drop (Suc k) (pending w)\<rparr>)"
      using finish_ok [OF ok k1(1,2) answers_pop r] unfolding s k1(3) by blast
    have "receive_result (pop_response m) ctx w1 = Inr ((), v)" using v(1) b(1) k1(4) by (simp add: deref_run bnd_run)
    then have "receive_poll (e_crates E) s ctx w = Some (Inr (True, v))"
      using b q Ready by (simp add: receive_poll_def deref_run sq_run)
    with v k show ?thesis by (simp add: poll_receive_def)
  qed
next
  case False
  have "polled E w k = None \<and> poll_receive (e_crates E) k w = Inr ((), w)"
  proof (cases "k < length (pending w) \<and> snd (pending w ! k)")
    case True
    with False show ?thesis
      by (cases "fst (pending w ! k)"; cases "pending w ! k"; simp add: polled_def poll_receive_def)
  qed (auto simp: polled_def poll_receive_def)
  with assms(5-7) show ?thesis by simp
qed

subsection \<open>One step of the whole system\<close>

text \<open>The steps that cannot free what a pending task borrows, whatever the program does.\<close>

definition keeps_borrows :: "sysop \<Rightarrow> bool" where
  "keeps_borrows x \<longleftrightarrow> background x
     \<or> (case x of Initiate a h \<Rightarrow> True | TaskStart k \<Rightarrow> True | TaskFinish k r \<Rightarrow> True
        | ReceivePolls k \<Rightarrow> True | _ \<Rightarrow> False)"

text \<open>The operations that may count one more reference to a box.\<close>

definition counts :: "sysop \<Rightarrow> bool" where
  "counts x \<longleftrightarrow> (case x of OMessage y \<Rightarrow> True | OConnectError y \<Rightarrow> True | ORequestError y \<Rightarrow> True | _ \<Rightarrow> False)"

lemma object_step:
  assumes "heap_typed w" "holders_ok S w" "spec E w x S = Some S'" "counts x \<Longrightarrow> room w" "\<not> keeps_borrows x"
  shows "\<exists>w'. sysstep E x w = Inr ((), w') \<and> holders_ok S' w'"
proof (cases x)
  case (OString y) with assms show ?thesis using string_step by blast
next
  case (OMessage y) with assms show ?thesis using message_step by (simp add: counts_def)
next
  case (OConnectError y) with assms show ?thesis using connect_error_step by (simp add: counts_def)
next
  case (ORequestError y) with assms show ?thesis using request_error_step by (simp add: counts_def)
next
  case (ORequest y) with assms show ?thesis using request_step by blast
next
  case (OConfig y) with assms show ?thesis using config_step by blast
next
  case (ORuntime y) with assms show ?thesis using runtime_step by blast
next
  case (OOptions y) with assms show ?thesis using options_step by blast
next
  case (OConnection y) with assms show ?thesis using connection_step by blast
next
  case (OSubscribtion y) with assms show ?thesis using subscribtion_step by blast
next
  case (OToken y) with assms show ?thesis using token_step by blast
next
  case (OReceiver y) with assms show ?thesis using receiver_step by blast
next
  case (OSender y) with assms show ?thesis using sender_step by blast
next
  case (ToString i j) with assms show ?thesis using to_string_step by blast
next
  case (NewMailbox i j) with assms show ?thesis using mailbox_step by blast
next
  case (GetToken i j) with assms show ?thesis using get_token_step by blast
next
  case (Cancel i) with assms show ?thesis using cancel_step by blast
next
  case (NewReceiver i s n) with assms show ?thesis using new_receiver_step by blast
next
  case (TryReceive i j)
  with assms show ?thesis using receive_steps(1) [OF assms(1,2)] by (auto split: if_splits)
next
  case (BlockingReceive i j)
  with assms show ?thesis using receive_steps(2) [OF assms(1,2)] by (auto split: if_splits)
next
  case (NewSender i d c n) with assms show ?thesis using new_sender_step by blast
next
  case (TrySend th i d v)
  then have "S' = S" "held (y_sn S) i" "d = DNull \<or> terminated w d" "readable w v"
    using assms(3) by (auto split: if_splits)
  with send_steps(1) [OF assms(2)] TrySend show ?thesis by blast
next
  case (SendNow th i d v)
  then have "S' = S" "held (y_sn S) i" "d = DNull \<or> terminated w d" "readable w v"
    using assms(3) by (auto split: if_splits)
  with send_steps(2) [OF assms(2)] SendNow show ?thesis by blast
next
  case (Buffer p b)
  with assms(2,3) show ?thesis by (simp add: cm_simps holders_defs)
next
  case (OHeader y) with assms show ?thesis using header_op_step by blast
qed (use assms(5) in \<open>simp_all add: keeps_borrows_def background_def\<close>)

lemma runtime_laws:
  assumes "subscriber_laws (e_crates E) queue closed" "channel_laws (e_crates E)" "can_unsubscribe (e_crates E)"
    and "conforms S w" "spec E w x S = Some S'" "keeps_borrows x"
  shows "\<exists>w'. sysstep E x w = Inr ((), w') \<and> holders_ok S' w' \<and> borrows_ok w'"
proof (cases "background x")
  case True
  then have "S' = S" using assms(5) by (cases x) (auto simp: background_def)
  with background_runs [OF assms(1-3) True] background_keeps [OF _ True] assms(4) show ?thesis
    by (fastforce simp: conforms_def)
next
  case False
  with assms(4-6) show ?thesis
    using initiate_step task_start_step task_finish_step poll_receive_step [OF assms(1-3)]
    by (cases x) (auto simp: keeps_borrows_def conforms_def simp del: sysstep.simps)
qed

text \<open>
  Progress and preservation: a step the rules allow runs, and what the objects own afterwards is what
  the rules say.
\<close>

lemma system_step:
  assumes "subscriber_laws (e_crates E) queue closed" "channel_laws (e_crates E)" "can_unsubscribe (e_crates E)"
    and "conforms S w" "spec E w x S = Some S'" "counts x \<Longrightarrow> room w"
  shows "\<exists>w'. sysstep E x w = Inr ((), w') \<and> heap_typed w' \<and> holders_ok S' w' \<and> (keeps_borrows x \<longrightarrow> borrows_ok w')"
proof -
  have ok: "heap_typed w" "holders_ok S w" using assms(4) by (simp_all add: conforms_def)
  obtain w' where w': "sysstep E x w = Inr ((), w')" "holders_ok S' w'" "keeps_borrows x \<longrightarrow> borrows_ok w'"
    using runtime_laws [OF assms(1-5)] object_step [OF ok assms(5,6)] by blast
  moreover have "heap_typed w'" using typed_opD [OF typed_sysstep ok(1) w'(1)] by blast
  ultimately show ?thesis by blast
qed

end
