(* ===== verification/Interleaving.thy ===== *)
theory Interleaving
  imports Iterators
begin

text \<open>
  The steps of the whole library as executions of the asynchronous operations (theory Async): what is
  not an initiation, a start or an end of a task leaves contexts, tasks and calls alone, whatever order
  a program uses the objects in. So what holds of those executions holds of every program.
\<close>

definition async_part :: "'z aw_scheme \<Rightarrow> (ptr \<rightharpoonup> handler) \<times> nat \<times> (task \<times> bool) list \<times> (handler \<times> completion) list" where
  "async_part w = (ctxs w, undestroyed w, pending w, calls w)"

lemma keeps_more_splits [keep_intros]:
  "(\<And>a. keeps f (g a)) \<Longrightarrow> (\<And>b. keeps f (h b)) \<Longrightarrow> keeps f (case x of Inl a \<Rightarrow> g a | Inr b \<Rightarrow> h b)"
  "keeps f m \<Longrightarrow> (\<And>a. keeps f (g a)) \<Longrightarrow> keeps f (case y of Pending \<Rightarrow> m | Ready a \<Rightarrow> g a)"
  "(\<And>d n. keeps f (k d n)) \<Longrightarrow> keeps f (case v of View d n \<Rightarrow> k d n)"
  by (auto split: sum.split poll.split string_view.split)

text \<open>The functions of the C API.\<close>

lemma keeps_async_strings [keep_intros]:
  "keeps async_part (string_to_owned_string t)" "keeps async_part (async_nats_owned_string_delete s)"
  "keeps async_part (as_str sl)" "keeps async_part (async_nats_message_delete p)" "keeps async_part (async_nats_message_clone p)"
  "keeps async_part (async_nats_connection_error_delete p)" "keeps async_part (async_nats_connection_error_clone p)"
  "keeps async_part (async_nats_connection_error_describtion p)" "keeps async_part (async_nats_request_error_delete p)"
  "keeps async_part (async_nats_request_error_clone p)" "keeps async_part (async_nats_request_error_describtion p)"
  "keeps async_part (deleted i j)" "keeps async_part (opt_destroy a)"
  unfolding string_to_owned_string_def async_nats_owned_string_delete_def as_str_def as_slice_def
    async_nats_message_delete_def async_nats_message_clone_def async_nats_connection_error_delete_def
    async_nats_connection_error_clone_def async_nats_connection_error_describtion_def async_nats_request_error_delete_def
    async_nats_request_error_clone_def async_nats_request_error_describtion_def deleted_def opt_destroy_def
  by (intro keep_intros keeps_effects; simp add: async_part_def)+

lemma keeps_async_builders [keep_intros]:
  "keeps async_part async_nats_request_new" "keeps async_part (async_nats_request_delete p)"
  "keeps async_part (async_nats_request_inbox p d)" "keeps async_part (async_nats_request_timeout p t)"
  "keeps async_part (async_nats_request_message p d n)"
  "keeps async_part (async_nats_tokio_runtime_config_new ap)" "keeps async_part (async_nats_tokio_runtime_config_delete p)"
  "keeps async_part (async_nats_tokio_runtime_config_thread_name p d)"
  "keeps async_part (async_nats_tokio_runtime_config_thread_count p c)"
  "keeps async_part (async_nats_tokio_runtime_new tokio p)" "keeps async_part (async_nats_tokio_runtime_delete p)"
  "keeps async_part async_nats_connection_config_new" "keeps async_part (async_nats_connection_config_delete p)"
  "keeps async_part (async_nats_connection_config_name p d)" "keeps async_part (async_nats_connection_config_addr parse p d)"
  "keeps async_part (async_nats_connection_clone p)" "keeps async_part (async_nats_connection_delete p)"
  "keeps async_part (async_nats_connection_mailbox new_inbox p)"
  unfolding async_nats_request_new_def async_nats_request_delete_def async_nats_request_inbox_def
    async_nats_request_timeout_def async_nats_request_message_def async_nats_tokio_runtime_config_new_def
    async_nats_tokio_runtime_config_delete_def async_nats_tokio_runtime_config_thread_name_def
    async_nats_tokio_runtime_config_thread_count_def async_nats_tokio_runtime_new_def
    async_nats_tokio_runtime_delete_def async_nats_connection_config_new_def
    async_nats_connection_config_delete_def async_nats_connection_config_name_def
    async_nats_connection_config_addr_def async_nats_connection_clone_def async_nats_connection_delete_def
    async_nats_connection_mailbox_def
  by (intro keep_intros keeps_effects; simp add: async_part_def)+

lemma keeps_grow: "(\<And>w. f (g w) = f w) \<Longrightarrow> keeps f (\<lambda>w. Inr (a w, g w))"
  by (simp add: keeps_def)

lemma keeps_async_channels [keep_intros]:
  "keeps async_part sd_channel_new" "keeps async_part (sd_try_send c)" "keeps async_part (inner_store p n)"
  "keeps async_part (hand_over y)" "keeps async_part (chan_modify c cf)"
  "keeps async_part (bytes_copy BYTES_try_send BYTES_try_send_update th b)"
  "keeps async_part (bytes_copy BYTES_send BYTES_send_update th b)"
  unfolding sd_channel_new_def sd_try_send_def inner_store_def hand_over_def chan_modify_def bytes_copy_def
  by (intro keep_intros keeps_effects keeps_grow; simp add: async_part_def)+

lemma keeps_async_subscribtions [keep_intros]:
  "keeps async_part (async_nats_subscribtion_delete p)" "keeps async_part (async_nats_subscribtion_get_cancellation_token p)"
  "keeps async_part (async_nats_subscribtion_cancellation_token_clone p)"
  "keeps async_part (async_nats_subscribtion_cancellation_token_delete p)"
  "keeps async_part (async_nats_subscribtion_cancellation_token_cancel p)"
  "keeps async_part (async_nats_named_receiver_new k p cap)" "keeps async_part (async_nats_named_receiver_clone k p)"
  "keeps async_part (async_nats_named_receiver_delete k p)" "keeps async_part (async_nats_named_receiver_try_recv k p)"
  "keeps async_part (async_nats_named_receiver_recv k p)"
  unfolding async_nats_subscribtion_delete_def async_nats_subscribtion_get_cancellation_token_def
    async_nats_subscribtion_cancellation_token_clone_def async_nats_subscribtion_cancellation_token_delete_def
    async_nats_subscribtion_cancellation_token_cancel_def async_nats_named_receiver_new_def AsyncNatsNamedReceiver_new_def
    async_nats_named_receiver_clone_def async_nats_named_receiver_delete_def async_nats_named_receiver_try_recv_def
    async_nats_named_receiver_recv_def chan_call_def
  by (intro keep_intros keeps_effects keeps_grow; simp add: async_part_def)+

lemma keeps_async_senders [keep_intros]:
  "keeps async_part (async_nats_named_sender_new t d p cap)" "keeps async_part (async_nats_named_sender_clone p)"
  "keeps async_part (async_nats_named_sender_delete p)" "keeps async_part (async_nats_named_sender_try_send t th p tp d n)"
  "keeps async_part (async_nats_named_sender_send t th p tp d n)" "keeps async_part (sender_task_recv t i)"
  "keeps async_part (sender_task_done t i ok)"
  unfolding async_nats_named_sender_new_def with_capacity_def async_nats_named_sender_clone_def
    async_nats_named_sender_delete_def async_nats_named_sender_try_send_def async_nats_named_sender_send_def
    sender_task_recv_def sender_task_done_def arc_clone_def arc_drop_def message_topic_def
  by (intro keep_intros keeps_effects keeps_grow; simp add: async_part_def)+

text \<open>The classes.\<close>

lemma keeps_async_classes [keep_intros]:
  "keeps async_part (hstep OwnedString_class x)" "keeps async_part (hstep Message_class x)" "keeps async_part (hstep HeadersView_class x)"
  "keeps async_part (hstep RequestBuilder_class x)" "keeps async_part (hstep TokioRuntimeConfig_class x)"
  "keeps async_part (hstep TokioRuntime_class x)" "keeps async_part (hstep ConnectionOptions_class x)"
  "keeps async_part (hstep Connection_class x)" "keeps async_part (hstep Subscribtion_class x)"
  "keeps async_part (hstep SubscribtionCancellationToken_class x)" "keeps async_part (hstep (Receiver_class k) x)"
  "keeps async_part (hstep Sender_class x)"
  by (cases x; simp add: class_defs del: bnd_ret; intro keep_intros keeps_effects impI conjI; simp add: async_part_def)+

lemma keeps_async_exceptions [keep_intros]:
  "keeps async_part (estep ConnectionError_class x)" "keeps async_part (estep RequestError_class x)"
  by (cases "(ConnectionError_class, x)" rule: estep.cases;
      simp add: exception_defs opt_move_assign_def del: bnd_ret; intro keep_intros keeps_effects impI conjI;
      simp add: async_part_def)+

lemma keeps_async_constructors [keep_intros]:
  "keeps async_part (RequestBuilder_ctor u i)" "keeps async_part (TokioRuntimeConfig_ctor ap i)"
  "keeps async_part (TokioRuntime_ctor tokio c i)" "keeps async_part (ConnectionOptions_ctor u i)"
  "keeps async_part (Connection_default u i)" "keeps async_part (TokioRuntime_use u i)" "keeps async_part (Connection_use u i)"
  "keeps async_part (Message_headers i j)" "keeps async_part (Receiver_ctor k i s cap)" "keeps async_part (Sender_ctor t i d c n)"
  unfolding RequestBuilder_ctor_def TokioRuntimeConfig_ctor_def TokioRuntime_ctor_def ConnectionOptions_ctor_def
    Connection_default_def TokioRuntime_use_def Connection_use_def Message_headers_def HeadersView_ctor_def
    HeadersView_init_def Receiver_ctor_def Subscribtion_release_raw_def Sender_ctor_def
  by (intro keep_intros keeps_effects; simp add: async_part_def)+

lemma keeps_async_request_set [keep_intros]: "keeps async_part (RequestBuilder_set a i)"
  by (cases a; simp add: RequestBuilder_inbox_def RequestBuilder_data_def RequestBuilder_timeout_def;
      intro keep_intros keeps_effects)

lemma keeps_async_config_set [keep_intros]: "keeps async_part (TokioRuntimeConfig_set b i)"
  by (cases b; simp add: TokioRuntimeConfig_thread_name_def TokioRuntimeConfig_thread_count_def;
      intro keep_intros keeps_effects)

lemma keeps_async_options_set [keep_intros]: "keeps async_part (ConnectionOptions_set parse e i)"
  by (cases e; simp add: ConnectionOptions_name_def ConnectionOptions_address_def; intro keep_intros keeps_effects)

lemma keeps_async_calls [keep_intros]:
  "keeps async_part (Subscribtion_get_cancellation_token i j)" "keeps async_part (SubscribtionCancellationToken_cancel i)"
  "keeps async_part (Connection_new_mailbox new_inbox i j)" "keeps async_part (Message_to_string debug i j)"
  "keeps async_part (Receiver_try_receive k i j)" "keeps async_part (Receiver_receive k i j)"
  "keeps async_part (Sender_try_send t th i tp v)" "keeps async_part (Sender_send t th i tp v)"
  unfolding Subscribtion_get_cancellation_token_def SubscribtionCancellationToken_cancel_def
    SubscribtionCancellationToken_from_raw_def Connection_new_mailbox_def OwnedString_ctor_def
    Message_to_string_def async_nats_message_to_string_def Receiver_try_receive_def Receiver_receive_def
    Message_from_raw_def Sender_try_send_def Sender_send_def
  by (intro keep_intros keeps_effects; simp add: async_part_def)+

lemma keeps_async_headers [keep_intros]: "keeps async_part (header_step E x)"
proof -
  have "async_part w' = async_part w" if "header_keep w' = header_keep w" for w w' :: "'z aw_scheme"
    by (subst same_header [OF that]) (simp add: async_part_def)
  then show ?thesis using keeps_header_step [of E x] unfolding keeps_def by blast
qed

lemma keeps_async_pump: "keeps async_part (pump_once c k i)"
proof -
  have "async_part w' = async_part w" if run: "pump_once c k i w = Inr (u, w')" for w w' u
  proof (cases "pump_step c k i w = Some (Inr w')")
    case True
    from pump_step_frame [OF this] show ?thesis by (auto simp: async_part_def)
  next
    case False
    with run show ?thesis by (auto simp: pump_once_def split: if_splits option.splits sum.splits)
  qed
  then show ?thesis unfolding keeps_def by blast
qed

text \<open>Everything but initiations and tasks.\<close>

definition of_tasks :: "sysop \<Rightarrow> bool" where
  "of_tasks x \<longleftrightarrow> (case x of Initiate a h \<Rightarrow> True | TaskStart k \<Rightarrow> True | TaskFinish k r \<Rightarrow> True
        | ReceivePolls k \<Rightarrow> True | _ \<Rightarrow> False)"

lemma keeps_async_ostep:
  "(\<And>n i. keeps f (new n i)) \<Longrightarrow> (\<And>a i. keeps f (setter a i)) \<Longrightarrow> (\<And>y. keeps f (hstep cls y)) \<Longrightarrow>
    keeps f (ostep new setter cls x)"
  by (cases x) simp_all

lemma keeps_async: "\<not> of_tasks x \<Longrightarrow> keeps async_part (sysstep E x)"
proof (cases x)
  case (OMessage y)
  then show ?thesis by (cases y; simp; intro keep_intros)
qed (simp add: of_tasks_def dropper_step_def arrive_def del: bnd_ret;
    intro keeps_async_ostep keep_intros keeps_async_pump keeps_effects;
    simp add: async_part_def run_dropper_def Let_def)+

fun initiated :: "sysop list \<Rightarrow> handler list" where
  "initiated [] = []"
| "initiated (Initiate a h # xs) = h # initiated xs"
| "initiated (_ # xs) = initiated xs"

abbreviation started_by :: "sysop \<Rightarrow> handler option" where
  "started_by x \<equiv> (case x of Initiate a h \<Rightarrow> Some h | _ \<Rightarrow> None)"

lemma initiated_Cons: "initiated (x # xs) = (case started_by x of None \<Rightarrow> [] | Some h \<Rightarrow> [h]) @ initiated xs"
  by (cases x) simp_all

lemma step_is_astep:
  assumes "heap_typed w" "sysstep E x w = Inr ((), w')" "\<And>k. x \<noteq> ReceivePolls k"
  shows "astep w (started_by x) w'"
proof (cases "of_tasks x")
  case False
  have "async_part w' = async_part w" using keepsD [OF keeps_async [OF False] assms(2)] .
  moreover have "brk w \<le> brk w'" using typed_opD [OF typed_sysstep assms(1,2)] by (simp add: heap_ext_def)
  ultimately have "astep w None w'" by (intro astep.other) (simp_all add: async_part_def)
  with False show ?thesis by (cases x) (simp_all add: of_tasks_def)
next
  case True
  have stay: "astep w None w" by (rule astep.other) simp_all
  show ?thesis
  proof (cases x)
    case (Initiate a h)
    with assms(2) show ?thesis by (simp add: astep.init)
  next
    case (TaskStart k)
    show ?thesis
    proof (cases "k < length (pending w) \<and> \<not> snd (pending w ! k)")
      case run: True
      then obtain v where v: "task_start (fst (pending w ! k)) w = Inr ((), v)"
        "w' = v\<lparr>pending := (pending w)[k := (fst (pending w ! k), True)]\<rparr>"
        using assms(2) TaskStart by (auto simp: start_task_def cm_simps split: sum.splits)
      have "pending w ! k = (fst (pending w ! k), False)" using run by (cases "pending w ! k") simp
      from astep.start [OF conjunct1 [OF run] this v(1)] show ?thesis using TaskStart v(2) by simp
    next
      case False
      then have "w' = w" using assms(2) TaskStart by (auto simp: start_task_def cm_simps split: if_splits)
      with stay TaskStart show ?thesis by simp
    qed
  next
    case (TaskFinish k r)
    show ?thesis
    proof (cases "k < length (pending w) \<and> snd (pending w ! k) \<and> \<not> receiving (fst (pending w ! k))
        \<and> answers (fst (pending w ! k)) r")
      case run: True
      then obtain v where v: "task_finish (fst (pending w ! k)) r w = Inr ((), v)"
        "w' = v\<lparr>pending := take k (pending w) @ drop (Suc k) (pending w)\<rparr>"
        using assms(2) TaskFinish by (auto simp: finish_task_def cm_simps split: sum.splits)
      have "pending w ! k = (fst (pending w ! k), True)" using run by (cases "pending w ! k") simp
      from astep.finish [OF conjunct1 [OF run] this _ v(1)] run show ?thesis using TaskFinish v(2) by simp
    next
      case False
      then have "w' = w" using assms(2) TaskFinish by (auto simp: finish_task_def cm_simps split: if_splits)
      with stay TaskFinish show ?thesis by simp
    qed
  qed (use True assms(3) in \<open>simp_all add: of_tasks_def\<close>)
qed

text \<open>A poll of a receiving task may be two steps: the poll, then the end of the task.\<close>

lemma step_is_apath:
  assumes "heap_typed w" "sysstep E x w = Inr ((), w')"
  shows "apath w (case started_by x of None \<Rightarrow> [] | Some h \<Rightarrow> [h]) w'"
proof (cases "\<exists>k. x = ReceivePolls k")
  case False
  have "apath w ([] @ (case started_by x of None \<Rightarrow> [] | Some h \<Rightarrow> [h])) w'"
    by (rule apath.step [OF apath.refl step_is_astep [OF assms]]) (use False in blast)
  then show ?thesis by simp
next
  case True
  then obtain k where x: "x = ReceivePolls k" by blast
  with assms(2) have "poll_receive (e_crates E) k w = Inr ((), w')" by simp
  then show ?thesis
  proof (cases rule: poll_receive_cases)
    case 1
    then show ?thesis using x apath.refl by simp
  next
    case (2 s ctx fin v)
    then show ?thesis using x receive_poll_executes [OF 2(1-3)] by simp
  qed
qed

lemma run_is_apath:
  assumes "sysrun E xs w = Inr ((), w')" "heap_typed w"
  shows "apath w (initiated xs) w'"
  using assms
proof (induction xs arbitrary: w)
  case Nil
  then show ?case by (simp add: apath.refl)
next
  case (Cons x xs)
  then obtain w1 where s: "sysstep E x w = Inr ((), w1)" "sysrun E xs w1 = Inr ((), w')"
    by (auto simp: sq_run split: sum.splits)
  have t: "heap_typed w1" using typed_opD [OF typed_sysstep Cons.prems(2) s(1)] by blast
  show ?case
    unfolding initiated_Cons using apath_append [OF Cons.IH [OF s(2) t] step_is_apath [OF Cons.prems(2) s(1)]] .
qed

end
