(* ===== verification/Library.thy ===== *)
theory Library
  imports Composition Interleaving
begin

text \<open>
  Programs over the whole library: which states they reach, that the library never faults in them, that
  it frees what it allocates, and that its tasks can always be run to their end.
\<close>

subsection \<open>Programs\<close>

text \<open>Before a program starts there is nothing: no box, no object, no task, no call.\<close>

definition no_objects :: "('s, 'c, 'm, 'q, 'z) xw_scheme \<Rightarrow> bool" where
  "no_objects w \<longleftrightarrow> sobjs w = Map.empty \<and> mobjs w = Map.empty \<and> hvobjs w = Map.empty \<and> hiobjs w = Map.empty
     \<and> vvobjs w = Map.empty \<and> ceobjs w = Map.empty \<and> reobjs w = Map.empty \<and> rqobjs w = Map.empty
     \<and> rcobjs w = Map.empty \<and> rtobjs w = Map.empty \<and> coobjs w = Map.empty \<and> cnobjs w = Map.empty
     \<and> sbobjs w = Map.empty \<and> tkobjs w = Map.empty \<and> rvobjs w = Map.empty \<and> snobjs w = Map.empty"

definition fresh_world :: "('s, 'c, 'm, 'q, 'z) xw_scheme \<Rightarrow> bool" where
  "fresh_world w \<longleftrightarrow> 0 < brk w \<and> boxes w = (\<lambda>_. {}) \<and> no_objects w \<and> pending w = [] \<and> calls w = [] \<and> undestroyed w = 0"

definition no_sys :: sys where
  "no_sys = \<lparr>y_msg = \<lambda>_. 0, y_ce = \<lambda>_. 0, y_re = \<lambda>_. 0, y_str = \<lambda>_. 0, y_rq = (Map.empty, Map.empty),
     y_rc = (Map.empty, Map.empty), y_rt = (Map.empty, Map.empty), y_co = (Map.empty, Map.empty),
     y_cn = (Map.empty, Map.empty), y_sb = (Map.empty, Map.empty), y_tk = (Map.empty, Map.empty),
     y_rv = (Map.empty, Map.empty), y_sn = (Map.empty, Map.empty)\<rparr>"

text \<open>
  The executions of a program that follows the rules: each step is allowed, and none frees what a
  pending task borrows.
\<close>

inductive reaches :: "('s, 'c, 'm, 'q) env \<Rightarrow> sys \<Rightarrow> ('s, 'c, 'm, 'q, 'z) xw_scheme \<Rightarrow> sysop list \<Rightarrow> sys
    \<Rightarrow> ('s, 'c, 'm, 'q, 'z) xw_scheme \<Rightarrow> bool" for E S0 w0 where
  none: "reaches E S0 w0 [] S0 w0"
| one_more: "reaches E S0 w0 xs S w \<Longrightarrow> spec E w x S = Some S' \<Longrightarrow> (counts x \<longrightarrow> room w) \<Longrightarrow>
    sysstep E x w = Inr ((), w') \<Longrightarrow> borrows_ok w' \<Longrightarrow> reaches E S0 w0 (xs @ [x]) S' w'"

definition crate_laws :: "('s, 'c, 'm, 'q) env \<Rightarrow> bool" where
  "crate_laws E \<longleftrightarrow> (\<exists>queue closed. subscriber_laws (e_crates E) queue closed)
     \<and> channel_laws (e_crates E) \<and> can_unsubscribe (e_crates E)"

lemma holds_none [simp]: "holds (\<lambda>_. None) = (\<lambda>_. 0)"
  by (simp add: holds_def fun_eq_iff)

lemma owns_nothing [simp]: "owns Map.empty Map.empty (Map.empty, Map.empty)"
  by (simp add: owns_def)

lemma no_boxes:
  assumes "boxes w = (\<lambda>_. {})"
  shows "strs w = Map.empty" "msgs w = Map.empty" "iters w = Map.empty" "cerrs w = Map.empty" "rerrs w = Map.empty"
    "reqs w = Map.empty" "rtcfgs w = Map.empty" "rts w = Map.empty" "cparams w = Map.empty" "conns w = Map.empty"
    "subs w = Map.empty" "tokens w = Map.empty" "ctxs w = Map.empty" "recvs w = Map.empty" "senders w = Map.empty"
proof -
  have "boxes w k = {}" for k using assms by simp
  from this [of KStr] this [of KMessage] this [of KIterator] this [of KConnectError] this [of KRequestError]
    this [of KRequest] this [of KRuntimeConfig] this [of KRuntime] this [of KParams] this [of KConnection]
    this [of KSubscribtion] this [of KToken] this [of KContext] this [of KReceiver] this [of KSender]
  show "strs w = Map.empty" "msgs w = Map.empty" "iters w = Map.empty" "cerrs w = Map.empty" "rerrs w = Map.empty"
    "reqs w = Map.empty" "rtcfgs w = Map.empty" "rts w = Map.empty" "cparams w = Map.empty" "conns w = Map.empty"
    "subs w = Map.empty" "tokens w = Map.empty" "ctxs w = Map.empty" "recvs w = Map.empty" "senders w = Map.empty"
    by simp_all
qed

lemma e_nothing [simp]: "e_ptrs Map.empty = Map.empty" "e_texts Map.empty = Map.empty"
  by (auto simp: e_ptrs_def e_texts_def fun_eq_iff)

lemma vv_nothing [simp]: "vv_owned Map.empty = Map.empty"
  by (simp add: vv_owned_def owner_def)

lemma fresh_conforms: "fresh_world w \<Longrightarrow> conforms no_sys w"
  by (simp add: conforms_def fresh_world_def no_objects_def no_boxes heap_typed_def borrows_ok_def holders_defs no_sys_def
      ref_inv_def)

lemma system_progress:
  assumes "crate_laws E" "conforms S w" "spec E w x S = Some S'" "counts x \<longrightarrow> room w"
  shows "\<exists>w'. sysstep E x w = Inr ((), w') \<and> heap_typed w' \<and> holders_ok S' w' \<and> (keeps_borrows x \<longrightarrow> borrows_ok w')"
  using assms system_step [of E _ _ S w x S'] unfolding crate_laws_def by blast

lemma reaches_conforms:
  assumes "reaches E S0 w0 xs S w" "crate_laws E" "conforms S0 w0"
  shows "conforms S w"
  using assms(1)
proof induction
  case (one_more xs S w x S' w')
  with system_progress [OF assms(2), of S w x S'] show ?case by (auto simp: conforms_def)
qed (rule assms(3))

lemma reaches_trans:
  "reaches E S w ys S' w' \<Longrightarrow> reaches E S0 w0 xs S w \<Longrightarrow> reaches E S0 w0 (xs @ ys) S' w'"
proof (induction rule: reaches.induct)
  case (one_more ys S1 w1 x S2 w2)
  then show ?case using reaches.one_more [of E S0 w0 "xs @ ys" S1 w1 x S2 w2] by simp
qed simp

lemma sysrun_snoc: "sysrun E (xs @ [x]) = sq (sysrun E xs) (sysstep E x)"
proof (induction xs)
  case Nil
  show ?case by (rule ext) (simp add: sq_run split: sum.split)
next
  case (Cons y ys)
  then show ?case by (simp add: fun_eq_iff sq_run split: sum.split)
qed

lemma reaches_run: "reaches E S0 w0 xs S w \<Longrightarrow> sysrun E xs w0 = Inr ((), w)"
  by (induction rule: reaches.induct) (simp_all add: sysrun_snoc sq_run del: sysrun.simps(2))

text \<open>What is left when a program has ended: no object, no raw pointer except those of C strings.\<close>

definition nothing_held :: "sys \<Rightarrow> bool" where
  "nothing_held S \<longleftrightarrow> y_msg S = (\<lambda>_. 0) \<and> y_ce S = (\<lambda>_. 0) \<and> y_re S = (\<lambda>_. 0) \<and> snd (y_rq S) = Map.empty
     \<and> snd (y_rc S) = Map.empty \<and> snd (y_rt S) = Map.empty \<and> snd (y_co S) = Map.empty \<and> snd (y_cn S) = Map.empty
     \<and> snd (y_sb S) = Map.empty \<and> snd (y_tk S) = Map.empty \<and> snd (y_rv S) = Map.empty \<and> snd (y_sn S) = Map.empty"

lemma owns_nothing_left: "owns h Map.empty t \<Longrightarrow> snd t = Map.empty \<Longrightarrow> h = Map.empty"
  unfolding owns_def by (rule ext) (metis option.distinct(1))

lemma refs_nothing_left:
  assumes "ref_inv (\<lambda>p. case h p of None \<Rightarrow> 0 | Some b \<Rightarrow> unat (cnt b)) Map.empty (\<lambda>_. 0)"
    and "\<And>p b. h p = Some b \<Longrightarrow> cnt b \<noteq> (0 :: u64)"
  shows "h = Map.empty"
proof
  fix p
  have "(case h p of None \<Rightarrow> 0 | Some b \<Rightarrow> unat (cnt b)) = 0"
    using assms(1) by (cases "p = null") (auto simp: ref_inv_def)
  with assms(2) show "h p = None" by (cases "h p") (auto simp: unat_eq_0)
qed

lemma conforms_no_leak:
  assumes "conforms S w" "no_objects w" "nothing_held S" "pending w = []" "k \<noteq> KStr"
  shows "boxes w k = {}"
proof -
  note D = assms(1) [unfolded conforms_def holders_defs] assms(2) [unfolded no_objects_def] assms(3) [unfolded nothing_held_def]
  have "msgs w = Map.empty" by (rule refs_nothing_left [where cnt = am_refs]) (use D in auto)
  moreover have "cerrs w = Map.empty" by (rule refs_nothing_left [where cnt = ce_refs]) (use D in auto)
  moreover have "rerrs w = Map.empty" by (rule refs_nothing_left [where cnt = re_refs]) (use D in auto)
  moreover have "iters w = Map.empty" by (rule refs_nothing_left [where cnt = hi_refcnt]) (use D in auto)
  moreover have "dom (ctxs w) = {}" using D assms(4) by simp
  moreover have "reqs w = Map.empty" "rtcfgs w = Map.empty" "rts w = Map.empty" "cparams w = Map.empty" "conns w = Map.empty"
    "subs w = Map.empty" "tokens w = Map.empty" "recvs w = Map.empty" "senders w = Map.empty"
    using D owns_nothing_left by metis+
  ultimately show ?thesis using assms(5) by (cases k) simp_all
qed

lemma conforms_strings:
  assumes "conforms S w" "no_objects w"
  shows "strs w p \<noteq> None \<longleftrightarrow> p \<noteq> null \<and> y_str S p \<noteq> 0" "y_str S p \<le> 1 \<or> p = null"
proof -
  note D = assms(1) [unfolded conforms_def holders_defs] assms(2) [unfolded no_objects_def]
  have e: "p \<noteq> null \<Longrightarrow> (case strs w p of None \<Rightarrow> 0 | Some _ \<Rightarrow> 1) = y_str S p" using D by auto
  have n: "strs w null = None" using D by (cases "strs w null") auto
  show "strs w p \<noteq> None \<longleftrightarrow> p \<noteq> null \<and> y_str S p \<noteq> 0" "y_str S p \<le> 1 \<or> p = null"
    using e n by (cases "strs w p"; cases "p = null"; force)+
qed

text \<open>Only a failed subscription makes a string whose address nobody is given.\<close>

lemma scope_no_raw: "scope k (s, \<lambda>_. 0) x = Some (s', r') \<Longrightarrow> r' = (\<lambda>_. 0)"
  by (cases x) (auto split: if_splits option.splits)

lemma spec_strings:
  assumes "spec E w x S = Some S'" "y_str S = (\<lambda>_. 0)" "\<And>k e. x \<noteq> TaskFinish k (RFailed e)"
  shows "y_str S' = (\<lambda>_. 0)"
proof (cases x)
  case (OString y)
  then show ?thesis using assms(1,2) scope_no_raw by fastforce
next
  case (TaskFinish k r)
  have "y_str (after_task w t r S) = y_str S" for t using assms(3) TaskFinish by (cases t; cases r) (auto split: option.splits)
  then show ?thesis using assms(1,2) TaskFinish by (auto split: if_splits)
next
  case (ReceivePolls k)
  then show ?thesis using assms(1,2) by (auto split: option.splits sum.splits prod.splits poll.splits)
next
  case (Initiate a h)
  then show ?thesis using assms(1,2) by (cases a) (auto split: if_splits)
qed (use assms(1,2) in \<open>auto simp: vspec_Some split: if_splits option.splits\<close>)

lemma reaches_strings:
  assumes "reaches E S0 w0 xs S w" "y_str S0 = (\<lambda>_. 0)" "\<And>k e. TaskFinish k (RFailed e) \<notin> set xs"
  shows "y_str S = (\<lambda>_. 0)"
  using assms(1,3)
proof induction
  case (one_more xs S w x S' w')
  then have "y_str S = (\<lambda>_. 0)" "\<And>k e. x \<noteq> TaskFinish k (RFailed e)" by auto
  with spec_strings [OF one_more.hyps(2)] show ?case by blast
qed (rule assms(2))

subsection \<open>Running the tasks to their end\<close>

text \<open>
  What the runtime and the server do for the tasks: \<open>ans\<close> is what the client responds to each task that
  does not receive, and \<open>m\<close> a message that arrives for the subscription of one that does.
\<close>

definition served_by :: "(task \<Rightarrow> response) \<Rightarrow> nats_message \<Rightarrow> sysop list \<Rightarrow> bool" where
  "served_by ans m xs \<longleftrightarrow> (\<forall>x \<in> set xs. (\<exists>k. x = TaskStart k \<or> x = ReceivePolls k \<or> x = Arrives k m)
     \<or> (\<exists>k t. x = TaskFinish k (ans t)))"

definition fair_answers :: "(task \<Rightarrow> response) \<Rightarrow> bool" where
  "fair_answers ans \<longleftrightarrow> (\<forall>t. answers t (ans t) \<and> text_ok (ans t))"

lemma served_by_simps [simp]:
  "served_by ans m []"
  "served_by ans m (xs @ ys) \<longleftrightarrow> served_by ans m xs \<and> served_by ans m ys"
  "served_by ans m (TaskStart k # xs) \<longleftrightarrow> served_by ans m xs"
  "served_by ans m (ReceivePolls k # xs) \<longleftrightarrow> served_by ans m xs"
  "served_by ans m (Arrives k m # xs) \<longleftrightarrow> served_by ans m xs"
  "served_by ans m (TaskFinish k (ans t) # xs) \<longleftrightarrow> served_by ans m xs"
  by (auto simp: served_by_def)

text \<open>One step that the rules allow, as an execution.\<close>

lemma reaches_step:
  assumes "crate_laws E" "conforms S w" "spec E w x S = Some S'" "keeps_borrows x" "\<not> counts x"
  shows "\<exists>w'. sysstep E x w = Inr ((), w') \<and> conforms S' w' \<and> reaches E S w [x] S' w'"
proof -
  obtain w' where w': "sysstep E x w = Inr ((), w')" "conforms S' w'"
    using system_progress [OF assms(1-3)] assms(4,5) unfolding conforms_def by blast
  moreover have "borrows_ok w'" using w'(2) by (simp add: conforms_def)
  ultimately have "reaches E S w ([] @ [x]) S' w'"
    by (intro reaches.one_more [OF reaches.none assms(3)]) (simp_all add: assms(5))
  with w' show ?thesis by auto
qed

lemma first_starts:
  assumes "crate_laws E" "conforms S w" "pending w = (t, False) # ts"
  shows "\<exists>w'. conforms S w' \<and> pending w' = (t, True) # ts \<and> reaches E S w [TaskStart 0] S w'"
proof -
  obtain w' where w': "sysstep E (TaskStart 0) w = Inr ((), w')" "conforms S w'" "reaches E S w [TaskStart 0] S w'"
    using reaches_step [OF assms(1,2), of "TaskStart 0" S] by (auto simp: keeps_borrows_def counts_def)
  moreover have "pending w' = (t, True) # ts"
    using w'(1) assms(3) by (auto simp: start_task_def cm_simps split: sum.splits)
  ultimately show ?thesis by blast
qed

lemma first_finishes:
  assumes "crate_laws E" "conforms S w" "pending w = (t, True) # ts" "\<not> receiving t" "answers t r" "text_ok r"
  shows "\<exists>S' w'. conforms S' w' \<and> pending w' = ts \<and> reaches E S w [TaskFinish 0 r] S' w'"
proof -
  obtain S' where S': "spec E w (TaskFinish 0 r) S = Some S'" using assms(3-6) by simp
  obtain w' where w': "sysstep E (TaskFinish 0 r) w = Inr ((), w')" "conforms S' w'" "reaches E S w [TaskFinish 0 r] S' w'"
    using reaches_step [OF assms(1,2) S'] by (auto simp: keeps_borrows_def counts_def background_def)
  moreover have "pending w' = ts"
    using w'(1) assms(3-6) by (auto simp: finish_task_def cm_simps split: sum.splits)
  ultimately show ?thesis by blast
qed

text \<open>
  A receiving task ends at the next poll after a message has arrived: the message is queued, or the
  subscription is closed already.
\<close>

lemma poll_ready:
  assumes "subscriber_laws c queue closed" "channel_laws c" "can_unsubscribe c"
    and "subs w s = Some b" "subscribers w (sb_sub b) = cr_arrive c m x"
    and "receive_poll c s ctx w = Some (Inr (fin, w'))"
  shows "fin"
proof -
  let ?t = "sub_abs c queue closed (subscribers w (sb_sub b)) (sds w (sb_sd b))"
  have "queue (cr_arrive c m x) \<noteq> [] \<or> closed (cr_arrive c m x)"
    using subscriber_lawsD(5,6) [OF assms(1), of m x] by simp
  then have "fst ?t \<noteq> [] \<or> fst (snd ?t)" using assms(5) by (simp add: sub_abs_def)
  then have ready: "fst (spec_poll ?t) \<noteq> Pending" by (cases ?t rule: spec_poll.cases) auto
  obtain b' st l p where p: "subs w s = Some b'" "subscribtion_pop c b' w = Some (Inr (p, w\<lparr>subscribers := st, sds := l\<rparr>))"
    and c: "case p of Pending \<Rightarrow> \<not> fin \<and> w' = w\<lparr>subscribers := st, sds := l\<rparr>
       | Ready m \<Rightarrow> fin \<and> task_finish (TReceive s ctx) (pop_response m) (w\<lparr>subscribers := st, sds := l\<rparr>) = Inr ((), w')"
    using receive_poll_steps [OF assms(6)] by blast
  have fin: "p = Pending \<or> fin" using c by (cases p) simp_all
  from p have "p = fst (spec_poll ?t)"
    using subscribtion_pop_run [OF assms(1-3), of b w] assms(4) by (metis Pair_inject option.inject sum.inject(2))
  with ready fin show ?thesis by simp
qed

lemma first_receives:
  assumes "crate_laws E" "conforms S w" "pending w = (TReceive s ctx, True) # ts"
  shows "\<exists>k S' w'. conforms S' w' \<and> pending w' = ts \<and> reaches E S w [Arrives k m, ReceivePolls 0] S' w'"
proof -
  obtain queue closed where laws: "subscriber_laws (e_crates E) queue closed" "channel_laws (e_crates E)"
    "can_unsubscribe (e_crates E)"
    using assms(1) by (auto simp: crate_laws_def)
  have "alive w (TReceive s ctx) True" using assms(2,3) by (auto simp: conforms_def borrows_ok_def)
  then obtain b where b: "s \<noteq> null" "subs w s = Some b" by auto
  let ?k = "sb_sub b"
  obtain w1 where w1: "sysstep E (Arrives ?k m) w = Inr ((), w1)" "conforms S w1" "reaches E S w [Arrives ?k m] S w1"
    using reaches_step [OF assms(1,2), of "Arrives ?k m" S] by (auto simp: keeps_borrows_def counts_def background_def)
  have same: "pending w1 = (TReceive s ctx, True) # ts" "subs w1 s = Some b"
    "subscribers w1 ?k = cr_arrive (e_crates E) m (subscribers w ?k)"
    using w1(1) assms(3) b by (auto simp: arrive_def)
  have "\<exists>S2. spec E w1 (ReceivePolls 0) S = Some S2" by (simp split: option.split sum.split poll.split)
  then obtain S2 where S2: "spec E w1 (ReceivePolls 0) S = Some S2" by blast
  obtain w2 where w2: "sysstep E (ReceivePolls 0) w1 = Inr ((), w2)" "conforms S2 w2" "reaches E S w1 [ReceivePolls 0] S2 w2"
    using reaches_step [OF assms(1) w1(2) S2] by (auto simp: keeps_borrows_def counts_def)
  obtain x where x: "receive_poll (e_crates E) s ctx w1 = Some (Inr x)"
    using w2(1) same(1) by (auto simp: poll_receive_def split: option.splits sum.splits)
  obtain fin v where v: "receive_poll (e_crates E) s ctx w1 = Some (Inr (fin, v))" using x by (metis surj_pair)
  have "fin" by (rule poll_ready [OF laws same(2,3) v])
  then have "pending w2 = ts" using w2(1) same(1) v by (auto simp: poll_receive_def)
  moreover have "reaches E S w ([Arrives ?k m] @ [ReceivePolls 0]) S2 w2" using reaches_trans [OF w2(3) w1(3)] .
  ultimately show ?thesis using w2(2) by auto
qed

lemma tasks_complete:
  assumes "crate_laws E" "conforms S w" "fair_answers ans"
  shows "\<exists>ys S' w'. served_by ans m ys \<and> reaches E S w ys S' w' \<and> pending w' = []"
  using assms(2)
proof (induction "length (pending w)" arbitrary: S w)
  case 0
  then show ?case using reaches.none [of E S w] by (intro exI [of _ "[]"]) auto
next
  case (Suc n)
  then obtain t st ts where p: "pending w = (t, st) # ts" by (cases "pending w") auto
  obtain xs w1 where w1: "reaches E S w xs S w1" "served_by ans m xs" "conforms S w1" "pending w1 = (t, True) # ts"
  proof (cases st)
    case True
    then show ?thesis using that [of "[]" w] reaches.none [of E S w] Suc.prems p by simp
  next
    case False
    then show ?thesis using first_starts [OF assms(1) Suc.prems, of t ts] p that [of "[TaskStart 0]"] by auto
  qed
  obtain zs S2 w2 where w2: "reaches E S w1 zs S2 w2" "served_by ans m zs" "conforms S2 w2" "pending w2 = ts"
  proof (cases "receiving t")
    case True
    then obtain s ctx where "t = TReceive s ctx" by (cases t) simp_all
    with first_receives [OF assms(1) w1(3), of s ctx ts m] w1(4) that show ?thesis by fastforce
  next
    case False
    with first_finishes [OF assms(1) w1(3,4) False, of "ans t"] assms(3) that [of "[TaskFinish 0 (ans t)]"] show ?thesis
      by (auto simp: fair_answers_def)
  qed
  obtain ys S3 w3 where w3: "served_by ans m ys" "reaches E S2 w2 ys S3 w3" "pending w3 = []"
    using Suc.hyps(1) [OF _ w2(3)] Suc.hyps(2) p w2(4) by auto
  have "reaches E S w ((xs @ zs) @ ys) S3 w3" using reaches_trans [OF w3(2) reaches_trans [OF w2(1) w1(1)]] .
  moreover have "served_by ans m ((xs @ zs) @ ys)" using w1(2) w2(2) w3(1) by simp
  ultimately show ?case using w3(3) by blast
qed

subsection \<open>Following a program\<close>

text \<open>An execution as a function of its steps, without operations on counted boxes.\<close>

fun follow :: "('s, 'c, 'm, 'q) env \<Rightarrow> sysop list \<Rightarrow> sys \<times> ('s, 'c, 'm, 'q, 'z) xw_scheme
    \<Rightarrow> (sys \<times> ('s, 'c, 'm, 'q, 'z) xw_scheme) option" where
  "follow E [] a = Some a"
| "follow E (x # xs) (S, w) =
     (case spec E w x S of None \<Rightarrow> None
      | Some S' \<Rightarrow> (case sysstep E x w of Inl e \<Rightarrow> None
          | Inr (_, w') \<Rightarrow> if borrows_ok w' \<and> \<not> counts x then follow E xs (S', w') else None))"

lemma follow_reaches: "follow E xs (S, w) = Some (S', w') \<Longrightarrow> reaches E S w xs S' w'"
proof (induction xs arbitrary: S w)
  case Nil
  then show ?case using reaches.none by simp
next
  case (Cons x xs)
  obtain S1 w1 where s: "spec E w x S = Some S1" "sysstep E x w = Inr ((), w1)" "borrows_ok w1" "\<not> counts x"
    "follow E xs (S1, w1) = Some (S', w')"
    using Cons.prems by (auto split: option.splits sum.splits if_splits)
  have "reaches E S w ([] @ [x]) S1 w1" using reaches.one_more [OF reaches.none s(1) _ s(2,3)] s(4) by blast
  from reaches_trans [OF Cons.IH [OF s(5)] this] show ?case by simp
qed

definition ex_env :: "(nats_message list \<times> bool, chan_view, nat, sender_message list \<times> bool) env" where
  "ex_env = \<lparr>e_tokio = \<lambda>_ _. Inr True, e_parse = Some, e_inbox = \<lambda>_. bs ''inbox'', e_debug = \<lambda>_. bs ''message'',
     e_name = ex_name, e_get = ex_get, e_chan = ex_chan, e_ops = ex_tokio, e_crates = ex_crates\<rparr>"

lemma ex_env_laws: "crate_laws ex_env"
  unfolding crate_laws_def using ex_crates_laws by (auto simp: ex_env_def)

definition ex_start :: "(nats_message list \<times> bool, chan_view, nat, sender_message list \<times> bool) xw" where
  "ex_start = ex_xw\<lparr>brk := 1, strs := Map.empty, sobjs := Map.empty, msgs := Map.empty, mobjs := Map.empty,
     hvobjs := Map.empty, iters := Map.empty, hiobjs := Map.empty, vvobjs := Map.empty, cerrs := Map.empty,
     ceobjs := Map.empty, rerrs := Map.empty, reobjs := Map.empty, reqs := Map.empty, rqobjs := Map.empty,
     rtcfgs := Map.empty, rcobjs := Map.empty, rts := Map.empty, rtobjs := Map.empty, cparams := Map.empty,
     coobjs := Map.empty, conns := Map.empty, cnobjs := Map.empty, subs := Map.empty, sbobjs := Map.empty,
     tokens := Map.empty, tkobjs := Map.empty, ctxs := Map.empty, undestroyed := 0, pending := [], calls := [],
     recvs := Map.empty, rvobjs := Map.empty, senders := Map.empty, snobjs := Map.empty\<rparr>"

lemma ex_start_fresh: "fresh_world ex_start"
proof -
  have "boxes ex_start k = {}" for k by (cases k) (simp_all add: ex_start_def)
  then show ?thesis by (simp add: fresh_world_def no_objects_def fun_eq_iff) (simp add: ex_start_def)
qed

lemma ex_start_simps [simp]:
  "brk ex_start = 1" "cbuf ex_start = [3 \<mapsto> bs ''topic'' @ [0], 4 \<mapsto> bs ''data'']" "wire ex_start = []"
  "strs ex_start = Map.empty" "sobjs ex_start = Map.empty" "msgs ex_start = Map.empty" "mobjs ex_start = Map.empty"
  "hvobjs ex_start = Map.empty" "hiobjs ex_start = Map.empty" "vvobjs ex_start = Map.empty" "ceobjs ex_start = Map.empty"
  "reobjs ex_start = Map.empty" "reqs ex_start = Map.empty" "rqobjs ex_start = Map.empty" "rtcfgs ex_start = Map.empty"
  "rcobjs ex_start = Map.empty" "rts ex_start = Map.empty" "rtobjs ex_start = Map.empty" "cparams ex_start = Map.empty"
  "coobjs ex_start = Map.empty" "conns ex_start = Map.empty" "cnobjs ex_start = Map.empty" "subs ex_start = Map.empty"
  "sbobjs ex_start = Map.empty" "tkobjs ex_start = Map.empty" "ctxs ex_start = Map.empty" "undestroyed ex_start = 0"
  "pending ex_start = []" "BYTES ex_start = (\<lambda>_. [])" "calls ex_start = []" "rvobjs ex_start = Map.empty" "snobjs ex_start = Map.empty"
  by (simp_all add: ex_start_def ex_xw_def rw.defs ex_rw_def dw.defs ex_dw_def aw.defs ex_aw_def sw.defs ex_sw_def)

text \<open>
  A program that makes a runtime and options, connects, publishes a message and destroys its objects,
  with the steps of the runtime in between.
\<close>

definition ex_session :: "sysop list" where
  "ex_session =
     [OConfig (VNew 0 None), ORuntime (VNew 1 0), OConfig (VOp (HDestroy 0)), OOptions (VNew 2 ()),
      Initiate (Connect 1 2) 5, TaskStart 0, TaskFinish 0 (RClient 7), OConnection (VOp (HAdopt 3 5)),
      Initiate (Publish 0 3 (View (DBuf 3) 5) (View (DBuf 4) 4)) 6, TaskStart 0, TaskFinish 0 ROk,
      OConnection (VOp (HDestroy 3)), OOptions (VOp (HDestroy 2)), ORuntime (VOp (HDestroy 1))]"

lemmas session_defs = no_sys_def vspec_def borrows_ok_def counts_def held_def raw_def ex_env_def cm_simps bs_def
  ConnectionOptions_ctor_def async_nats_connection_config_new_def ConnectionOptions_class_def ConnectionOptions_dtor_def
  async_nats_connection_config_delete_def TokioRuntimeConfig_ctor_def async_nats_tokio_runtime_config_new_def
  TokioRuntimeConfig_class_def TokioRuntimeConfig_dtor_def async_nats_tokio_runtime_config_delete_def
  TokioRuntime_ctor_def async_nats_tokio_runtime_new_def runtime_mk_def runtime_keep_def runtime_new_def
  runtime_config_default_def TokioRuntime_class_def TokioRuntime_dtor_def async_nats_tokio_runtime_delete_def
  Connection_class_def Connection_from_raw_def Connection_dtor_def async_nats_connection_delete_def
  cpp_api_defs c_api_defs start_task_def hand_over_def finish_task_def callback_defs slice_lossy_convert_def

lemma lossy_topic: "from_utf8_lossy [116, 111, 112, 105, 99] = [116, 111, 112, 105, 99]"
  by (rule lossy_valid_id, rule utf8_ascii) simp

lemma ex_session_runs:
  "\<exists>S w. follow ex_env ex_session (no_sys, ex_start) = Some (S, w) \<and> nothing_held S \<and> no_objects w \<and> pending w = []
    \<and> calls w = [(5, CConnection 5), (6, CVoid)]
    \<and> wire w = [WConnect [] None, WPublish 7 (bs ''topic'') None (bs ''data'')]"
  unfolding ex_session_def
  by (simp add: session_defs) (simp add: no_objects_def nothing_held_def params_default_def lossy_topic eval_nat_numeral)

subsection \<open>Properties\<close>






lemma good_answers_fair: "fair_answers good_answer"
  unfolding fair_answers_def
proof
  show "answers t (good_answer t) \<and> text_ok (good_answer t)" for t using good_answers [of t] by (cases t) simp_all
qed






end
