(* ===== verification/Shutdown.thy ===== *)
theory Shutdown
  imports Interleaving
begin

text \<open>
  The end of a runtime while operations are pending. When \<open>async_nats_tokio_runtime_delete\<close> drops a
  runtime, the tokio crate drops the tasks that have not finished: which ones it is does not show, so
  they are a parameter. A dropped task never reaches its callback, and nothing else calls the handler
  or frees its context.
\<close>

definition abandon :: "(task \<Rightarrow> bool) \<Rightarrow> 'z aw_scheme \<Rightarrow> 'z aw_scheme" where
  "abandon dropped w = w\<lparr>pending := filter (\<lambda>x. \<not> dropped (fst x)) (pending w)\<rparr>"

text \<open>\<open>L\<close> are the contexts without a task, with their handlers; the rest is as in \<open>async_inv\<close>.\<close>

definition stranded :: "(ptr \<rightharpoonup> handler) \<Rightarrow> 'z aw_scheme \<Rightarrow> bool" where
  "stranded L w \<longleftrightarrow> heap_ok (ctxs w) (brk w) \<and> distinct (map (ctx_of \<circ> fst) (pending w)) \<and> L \<subseteq>\<^sub>m ctxs w
     \<and> dom L \<inter> ctx_of ` fst ` set (pending w) = {} \<and> ctx_of ` fst ` set (pending w) \<union> dom L = dom (ctxs w)
     \<and> undestroyed w = length (calls w)"

lemma stranded_fresh:
  assumes "stranded L w"
  shows "brk w \<notin> dom L" "brk w \<notin> ctx_of ` fst ` set (pending w)"
proof -
  have "brk w \<notin> dom (ctxs w)" using assms heap_ok_fresh [of "ctxs w" "brk w"] by (auto simp: stranded_def)
  moreover have "ctx_of ` fst ` set (pending w) \<union> dom L = dom (ctxs w)" using assms by (simp add: stranded_def)
  ultimately show "brk w \<notin> dom L" "brk w \<notin> ctx_of ` fst ` set (pending w)" by blast+
qed

lemma stranded_initiate:
  assumes "initiate a h w = Inr ((), w')" "stranded L w"
  shows "stranded L w' \<and> mset (map fst (calls w')) + waiting w' = mset (map fst (calls w)) + waiting w + {#h#}"
proof -
  obtain t where t: "pending w' = pending w @ [(t, False)]" "ctx_of t = brk w"
    "ctxs w' = (ctxs w)(brk w \<mapsto> h)" "brk w' = Suc (brk w)" "calls w' = calls w" "undestroyed w' = undestroyed w"
    using initiate_effect [OF assms(1)] by blast
  note fresh = stranded_fresh [OF assms(2)]
  have le: "L \<subseteq>\<^sub>m ctxs w'" using assms(2) fresh(1) t(3) by (auto simp: stranded_def map_le_def)
  have "ctx_of ` fst ` set (pending w') = insert (brk w) (ctx_of ` fst ` set (pending w))" by (simp add: t)
  then have "stranded L w'"
    using assms(2) t fresh le unfolding stranded_def by (auto simp: heap_ok_new image_image)
  moreover have "waiting w' = waiting w + {#h#}"
    using t waiting_upd [OF fresh(2), where m = "ctxs w" and y = "Some h"] by (simp add: waiting_def)
  ultimately show ?thesis using t(5) by simp
qed

lemma stranded_finish:
  assumes "k < length (pending w)" "pending w ! k = (t, True)" "answers t r" "task_finish t r w = Inr ((), v)"
    and "stranded L w"
  shows "let w' = v\<lparr>pending := take k (pending w) @ drop (Suc k) (pending w)\<rparr> in
    stranded L w' \<and> mset (map fst (calls w')) + waiting w' = mset (map fst (calls w)) + waiting w"
proof -
  let ?xs = "take k (pending w) @ drop (Suc k) (pending w)"
  let ?w = "v\<lparr>pending := ?xs\<rparr>"
  obtain h c where e: "ctxs w (ctx_of t) = Some h" "ctxs v = (ctxs w)(ctx_of t := None)"
    "calls v = calls w @ [(h, c)]" "undestroyed v = Suc (undestroyed w)" "brk w \<le> brk v"
    using task_finish_effect [OF assms(4,3)] by blast
  have inv: "distinct (map (ctx_of \<circ> fst) (pending w))" using assms(5) by (simp add: stranded_def)
  note rest = remove_nth [OF assms(1) inv, unfolded assms(2)]
  have out: "ctx_of t \<notin> ctx_of ` fst ` set ?xs" using rest(2) by (simp add: image_comp)
  have dom: "ctx_of ` fst ` set (pending w) = insert (ctx_of t) (ctx_of ` fst ` set ?xs)"
    using rest(3) by (simp add: image_comp)
  have notL: "ctx_of t \<notin> dom L" using assms(5) dom by (auto simp: stranded_def)
  have le: "L \<subseteq>\<^sub>m ctxs v" using assms(5) notL e(2) by (auto simp: stranded_def map_le_def)
  have heap: "heap_ok (ctxs v) (brk v)" using assms(5) e(2,5) by (auto simp: stranded_def heap_ok_def)
  have "ctx_of ` fst ` set ?xs \<union> dom L = dom (ctxs w) - {ctx_of t}"
  proof -
    have "ctx_of ` fst ` set (pending w) \<union> dom L = dom (ctxs w)" using assms(5) by (simp add: stranded_def)
    then show ?thesis using out notL unfolding dom by blast
  qed
  moreover have "dom (ctxs v) = dom (ctxs w) - {ctx_of t}" by (simp add: e(2))
  moreover have "dom L \<inter> ctx_of ` fst ` set ?xs = {}"
  proof -
    have "dom L \<inter> ctx_of ` fst ` set (pending w) = {}" using assms(5) by (simp add: stranded_def)
    then show ?thesis unfolding dom by blast
  qed
  moreover have "undestroyed v = length (calls v)" using assms(5) e(3,4) by (simp add: stranded_def)
  ultimately have "stranded L ?w" using heap le rest(1) by (simp add: stranded_def del: set_append map_append)
  moreover have "waiting w = add_mset h (waiting ?w)"
    using rest(4) [of "\<lambda>x. the (ctxs w (ctx_of (fst x)))"]
      waiting_upd [OF out, where m = "ctxs w" and y = None] e(1,2)
    by (simp add: waiting_def)
  ultimately show ?thesis using e(3) by (simp add: Let_def)
qed

lemma stranded_step:
  assumes "astep w l w'" "stranded L w"
  shows "stranded L w' \<and> mset (map fst (calls w')) + waiting w'
    = mset (map fst (calls w)) + waiting w + (case l of None \<Rightarrow> {#} | Some h \<Rightarrow> {#h#})"
  using assms(1)
proof (cases rule: astep.cases)
  case (init a h)
  with stranded_initiate [OF init(2) assms(2)] show ?thesis by simp
next
  case (start k t v)
  obtain x where v: "v = wire_update (\<lambda>l. l @ x) w" using task_start_effect [OF start(5)] by blast
  have eq: "map (f \<circ> fst) ((pending w)[k := (t, True)]) = map (f \<circ> fst) (pending w)" for f :: "task \<Rightarrow> 'q"
    using start(3,4) by (simp add: map_update list_update_same_conv)
  have set: "fst ` set ((pending w)[k := (t, True)]) = fst ` set (pending w)"
    using eq [of id] by (metis id_o list.set_map)
  have "stranded L w'"
    using assms(2) eq [of ctx_of] set by (simp add: stranded_def start(2) v)
  moreover have "waiting w' = waiting w"
    using eq [of "\<lambda>t. the (ctxs w (ctx_of t))"] by (simp add: waiting_def start(2) v comp_def)
  ultimately show ?thesis using start(1) by (simp add: start(2) v)
next
  case (finish k t r v)
  with stranded_finish [OF finish(3-6) assms(2)] show ?thesis by (simp add: Let_def)
next
  case other
  then show ?thesis using assms(2) by (auto simp: stranded_def waiting_def heap_ok_def)
qed

lemma stranded_path:
  assumes "apath w ls w'" "stranded L w"
  shows "stranded L w' \<and> mset (map fst (calls w')) + waiting w' = mset (map fst (calls w)) + waiting w + mset ls"
  using assms
proof induction
  case (step w ls w1 l w2)
  then show ?case using stranded_step [OF step.hyps(2)] by (auto split: option.splits)
qed simp

text \<open>The contexts a shutdown strands.\<close>

definition left_alone :: "(task \<Rightarrow> bool) \<Rightarrow> 'z aw_scheme \<Rightarrow> (ptr \<rightharpoonup> handler)" where
  "left_alone dropped w = ctxs w |` {ctx_of t | t st. (t, st) \<in> set (pending w) \<and> dropped t}"

lemma abandon_stranded:
  assumes "async_inv w"
  shows "stranded (left_alone dropped w) (abandon dropped w)"
proof -
  let ?K = "{ctx_of t | t st. (t, st) \<in> set (pending w) \<and> dropped t}"
  let ?R = "ctx_of ` fst ` set (filter (\<lambda>x. \<not> dropped (fst x)) (pending w))"
  have all: "ctx_of ` fst ` set (pending w) = dom (ctxs w)" and dist: "distinct (map (ctx_of \<circ> fst) (pending w))"
    using assms by (simp_all add: async_inv_def)
  have K: "?K = ctx_of ` fst ` {x \<in> set (pending w). dropped (fst x)}" by force
  have R: "?R = ctx_of ` fst ` {x \<in> set (pending w). \<not> dropped (fst x)}" by auto
  have inj: "inj_on (ctx_of \<circ> fst) (set (pending w))" using dist by (simp add: distinct_map)
  have un: "?K \<union> ?R = dom (ctxs w)" unfolding K R all [symmetric] by blast
  moreover have disj: "?K \<inter> ?R = {}" unfolding K R using inj by (fastforce simp: inj_on_def)
  moreover have dl: "dom (left_alone dropped w) = dom (ctxs w) \<inter> ?K" unfolding left_alone_def by (rule dom_restrict)
  ultimately have "dom (left_alone dropped w) = ?K" "?R \<union> ?K = dom (ctxs w)" "?K \<inter> ?R = {}"
  proof -
    have "?K \<subseteq> dom (ctxs w)" using un by (rule subst) (rule Un_upper1)
    then show "dom (left_alone dropped w) = ?K" using dl by (simp only: Int_absorb1)
    show "?R \<union> ?K = dom (ctxs w)" using un by (simp only: Un_commute)
  qed (rule disj)
  moreover have "distinct (map (ctx_of \<circ> fst) (filter (\<lambda>x. \<not> dropped (fst x)) (pending w)))"
    using dist by (rule distinct_map_filter)
  moreover have "left_alone dropped w \<subseteq>\<^sub>m ctxs w" by (auto simp: left_alone_def map_le_def)
  ultimately show ?thesis using assms unfolding stranded_def abandon_def async_inv_def by simp
qed

subsection \<open>Properties\<close>



end
