(* ===== verification/Config.thy ===== *)
theory Config
  imports Api
begin

text \<open>
  rust/src/config.rs: the configuration object of an earlier interface, a list of server addresses in
  a box. Unlike the newer functions these test their pointer for null and panic. The parser of
  \<open>ServerAddr\<close>, code of the async\_nats crate, is a parameter.
\<close>

record AsyncNatsRuntimeConfig =
  endpoints :: "bytes list"

record kw = cw +
  cfgs :: "ptr \<rightharpoonup> AsyncNatsRuntimeConfig"

definition nats_runtime_config_new :: "('z kw_scheme, ptr) cm" where
  "nats_runtime_config_new = box_into_raw cfgs_update \<lparr>endpoints = []\<rparr>"

definition nats_runtime_config_free :: "ptr \<Rightarrow> ('z kw_scheme, unit) cm" where
  "nats_runtime_config_free cfg =
     (if cfg = null then fail (Panic ''cfg pointer is nullptr'')
      else bnd (box_from_raw cfgs cfgs_update cfg) (\<lambda>_. ret ()))"

definition nats_runtime_config_set_endpoint :: "(bytes \<Rightarrow> bytes option) \<Rightarrow> ptr \<Rightarrow> dptr \<Rightarrow> ('z kw_scheme, unit) cm" where
  "nats_runtime_config_set_endpoint parse cfg endpoint =
     (if cfg = null then fail (Panic ''cfg pointer is nullptr'')
      else bnd (deref cfgs cfg) (\<lambda>c.
           bnd (cstr_bytes endpoint) (\<lambda>b.
           bnd (expect (parse (from_utf8_lossy b)) ''called `Result::unwrap()` on an `Err` value'') (\<lambda>a.
           store cfgs_update cfg (c\<lparr>endpoints := endpoints c @ [a]\<rparr>)))))"

text \<open>A sequence of \<open>set_endpoint\<close> calls.\<close>

fun set_endpoints :: "(bytes \<Rightarrow> bytes option) \<Rightarrow> ptr \<Rightarrow> dptr list \<Rightarrow> ('z kw_scheme, unit) cm" where
  "set_endpoints parse cfg [] = ret ()"
| "set_endpoints parse cfg (d # ds) =
     sq (nats_runtime_config_set_endpoint parse cfg d) (set_endpoints parse cfg ds)"

lemma set_endpoint_run:
  assumes "cfg \<noteq> null" "cfgs w cfg = Some c" "cbuf w q = Some b" "0 \<in> set b"
    and "parse (from_utf8_lossy (takeWhile (\<lambda>x. x \<noteq> 0) b)) = Some a"
  shows "nats_runtime_config_set_endpoint parse cfg (DBuf q) w
    = Inr ((), cfgs_update (\<lambda>m. m(cfg \<mapsto> c\<lparr>endpoints := endpoints c @ [a]\<rparr>)) w)"
  using assms by (simp add: nats_runtime_config_set_endpoint_def cm_simps)

lemma set_endpoints_run:
  assumes "cfg \<noteq> null" "cfgs w cfg = Some c"
    and "list_all2 (\<lambda>q a. \<exists>b. cbuf w q = Some b \<and> 0 \<in> set b
      \<and> parse (from_utf8_lossy (takeWhile (\<lambda>x. x \<noteq> 0) b)) = Some a) qs as"
  shows "\<exists>w'. set_endpoints parse cfg (map DBuf qs) w = Inr ((), w')
    \<and> cfgs w' = (cfgs w)(cfg \<mapsto> c\<lparr>endpoints := endpoints c @ as\<rparr>) \<and> brk w' = brk w"
  using assms(2,3)
proof (induction qs arbitrary: w c "as")
  case Nil
  then show ?case by (simp add: fun_upd_idem)
next
  case (Cons q qs)
  then obtain a as' where as': "as = a # as'" by (auto simp: list_all2_Cons1)
  let ?c = "c\<lparr>endpoints := endpoints c @ [a]\<rparr>" and ?w = "cfgs_update (\<lambda>m. m(cfg \<mapsto> c\<lparr>endpoints := endpoints c @ [a]\<rparr>)) w"
  have "nats_runtime_config_set_endpoint parse cfg (DBuf q) w = Inr ((), ?w)"
    using Cons.prems as' assms(1) set_endpoint_run [of cfg w c q] by auto
  moreover have "\<exists>w'. set_endpoints parse cfg (map DBuf qs) ?w = Inr ((), w')
      \<and> cfgs w' = (cfgs ?w)(cfg \<mapsto> ?c\<lparr>endpoints := endpoints ?c @ as'\<rparr>) \<and> brk w' = brk ?w"
    using Cons.prems as' by (intro Cons.IH) auto
  ultimately show ?case by (auto simp: as' sq_run)
qed

text \<open>
  A configuration collects the endpoints given to it, in order, and is freed by one call; a null
  configuration is a panic for both functions, as is an endpoint that does not parse.
\<close>

theorem config_endpoints:
  assumes "heap_ok (cfgs w) (brk w)"
    and "list_all2 (\<lambda>q a. \<exists>b. cbuf w q = Some b \<and> 0 \<in> set b
      \<and> parse (from_utf8_lossy (takeWhile (\<lambda>x. x \<noteq> 0) b)) = Some a) qs as"
  shows "(\<exists>p w'. bnd nats_runtime_config_new (\<lambda>p. sq (set_endpoints parse p (map DBuf qs)) (ret p)) w = Inr (p, w')
      \<and> cfgs w' = (cfgs w)(p \<mapsto> \<lparr>endpoints = as\<rparr>)
      \<and> (\<exists>w''. nats_runtime_config_free p w' = Inr ((), w'') \<and> cfgs w'' = cfgs w))
    \<and> nats_runtime_config_set_endpoint parse null d w = Inl (Panic ''cfg pointer is nullptr'')
    \<and> nats_runtime_config_free null w = Inl (Panic ''cfg pointer is nullptr'')"
proof -
  let ?w = "cfgs_update (\<lambda>m. m(brk w \<mapsto> \<lparr>endpoints = []\<rparr>)) (w\<lparr>brk := Suc (brk w)\<rparr>)"
  have p: "brk w \<noteq> null" "cfgs w (brk w) = None"
    using assms(1) by (auto simp: heap_ok_pos dest: heap_ok_fresh heap_ok_pos)
  have "\<exists>w'. set_endpoints parse (brk w) (map DBuf qs) ?w = Inr ((), w')
      \<and> cfgs w' = (cfgs ?w)(brk w \<mapsto> \<lparr>endpoints = []\<rparr>\<lparr>endpoints := endpoints \<lparr>endpoints = []\<rparr> @ as\<rparr>) \<and> brk w' = brk ?w"
    using p assms(2) by (intro set_endpoints_run) auto
  then obtain w' where w': "set_endpoints parse (brk w) (map DBuf qs) ?w = Inr ((), w')"
    "cfgs w' = (cfgs w)(brk w \<mapsto> \<lparr>endpoints = as\<rparr>)"
    by auto
  then have "\<exists>w''. nats_runtime_config_free (brk w) w' = Inr ((), w'') \<and> cfgs w'' = cfgs w"
    using p by (simp add: nats_runtime_config_free_def cm_simps fun_upd_idem)
  with w' show ?thesis
    by (auto simp: nats_runtime_config_new_def nats_runtime_config_set_endpoint_def
        nats_runtime_config_free_def cm_simps)
qed

definition ex_kw :: kw where
  "ex_kw = \<lparr>brk = 5, cbuf = [3 \<mapsto> bs ''a'' @ [0]], strs = Map.empty, layout_errs = 0, sobjs = Map.empty,
     msgs = Map.empty, cfgs = Map.empty\<rparr>"

theorem config_endpoints_witness:
  "\<exists>p w'. bnd nats_runtime_config_new (\<lambda>p. sq (set_endpoints Some p [DBuf 3, DBuf 3]) (ret p)) ex_kw = Inr (p, w')
    \<and> cfgs w' p = Some \<lparr>endpoints = [from_utf8_lossy (bs ''a''), from_utf8_lossy (bs ''a'')]\<rparr>"
proof -
  have w: "heap_ok (cfgs ex_kw) (brk ex_kw)" "cbuf ex_kw 3 = Some (bs ''a'' @ [0])"
    "takeWhile (\<lambda>x. x \<noteq> 0) (bs ''a'' @ [0]) = bs ''a''"
    by (simp_all add: ex_kw_def heap_ok_empty bs_def)
  from config_endpoints [OF w(1), of Some "[3, 3]" "[from_utf8_lossy (bs ''a''), from_utf8_lossy (bs ''a'')]" DNull]
  show ?thesis using w(2,3) by auto
qed

end
