(* ===== verification/Examples.thy ===== *)
theory Examples
  imports Library
begin

text \<open>
  Programs that use the library: the examples of the repository (example/cpp20\_coroutine.cpp,
  custom\_allocator.cpp, nonblocking.cpp, requests.cpp) as computations over the world of the whole
  library, with the scopes of their objects, their exceptions, and the points where they wait for an
  operation. While a program waits, the runtime and the server take any steps.
\<close>

subsection \<open>Programs that wait and throw\<close>

text \<open>
  How a part of a program ends: with a value, with an exception, which is an object of its own until
  the handler of the exception has run, or not at all, because what it waits for has not happened.
\<close>

datatype thrown = AConnectionError oid | ARequestError oid

datatype 'a outcome = Done 'a | Threw thrown | Waiting

type_synonym ('w, 'a) prog = "('w, 'a outcome) cm"

definition gives :: "'a \<Rightarrow> ('w, 'a) prog" where
  "gives a = ret (Done a)"

definition lift :: "('w, 'a) cm \<Rightarrow> ('w, 'a) prog" where
  "lift m = bnd m (\<lambda>a. ret (Done a))"

definition obnd :: "('w, 'a) prog \<Rightarrow> ('a \<Rightarrow> ('w, 'b) prog) \<Rightarrow> ('w, 'b) prog" where
  "obnd m f = bnd m (\<lambda>r. case r of Done a \<Rightarrow> f a | Threw e \<Rightarrow> ret (Threw e) | Waiting \<Rightarrow> ret Waiting)"

definition osq :: "('w, 'a) prog \<Rightarrow> ('w, 'b) prog \<Rightarrow> ('w, 'b) prog" where
  "osq m n = obnd m (\<lambda>_. n)"

text \<open>The lifetime of a local object: its destructor runs however its scope is left.\<close>

definition scoped :: "('w, unit) prog \<Rightarrow> ('w, unit) cm \<Rightarrow> ('w, 'a) prog \<Rightarrow> ('w, 'a) prog" where
  "scoped ctor dtor body =
     osq ctor (bnd body (\<lambda>r. case r of Waiting \<Rightarrow> ret Waiting | _ \<Rightarrow> sq dtor (ret r)))"

text \<open>
  \<open>future.get()\<close> and \<open>co_await\<close>: the runtime steps, then the completion is there or is still awaited.
  The object that the handler makes of a raw pointer is moved to where the result is stored, so that it
  is made there; likewise the exception.
\<close>

definition await :: "('s, 'c, 'm, 'q) env \<Rightarrow> sysop list \<Rightarrow> handler \<Rightarrow> (('s, 'c, 'm, 'q, 'z) xw_scheme, completion) prog" where
  "await E xs h =
     sq (sysrun E xs) (gets (\<lambda>w. case map_of (calls w) h of None \<Rightarrow> Waiting | Some c \<Rightarrow> Done c))"

definition wrong_completion :: "('w, 'a) cm" where
  "wrong_completion = fail (AssertFail ''completion of another operation'')"

definition get_void :: "completion \<Rightarrow> (('s, 'c, 'm, 'q, 'z) xw_scheme, unit) prog" where
  "get_void c = (case c of CVoid \<Rightarrow> gives () | _ \<Rightarrow> wrong_completion)"

definition get_connection :: "oid \<Rightarrow> oid \<Rightarrow> completion \<Rightarrow> (('s, 'c, 'm, 'q, 'z) xw_scheme, unit) prog" where
  "get_connection i exc c =
     (case c of
        CConnection p \<Rightarrow> lift (Connection_from_raw i p)
      | CConnectError p \<Rightarrow> sq (ConnectionError_ctor exc p) (ret (Threw (AConnectionError exc)))
      | _ \<Rightarrow> wrong_completion)"

definition get_subscribtion :: "oid \<Rightarrow> completion \<Rightarrow> (('s, 'c, 'm, 'q, 'z) xw_scheme, unit) prog" where
  "get_subscribtion i c = (case c of CSubscribtion p \<Rightarrow> lift (Subscribtion_from_raw i p) | _ \<Rightarrow> wrong_completion)"

definition get_message :: "oid \<Rightarrow> completion \<Rightarrow> (('s, 'c, 'm, 'q, 'z) xw_scheme, unit) prog" where
  "get_message i c = (case c of CMessage p \<Rightarrow> lift (Message_from_raw i p) | _ \<Rightarrow> wrong_completion)"

definition get_reply :: "oid \<Rightarrow> oid \<Rightarrow> completion \<Rightarrow> (('s, 'c, 'm, 'q, 'z) xw_scheme, unit) prog" where
  "get_reply i exc c =
     (case c of
        CMessage p \<Rightarrow> lift (Message_from_raw i p)
      | CRequestError p \<Rightarrow> sq (RequestError_ctor exc p) (ret (Threw (ARequestError exc)))
      | _ \<Rightarrow> wrong_completion)"

text \<open>A string literal, a view of it, and a local \<open>std::string\<close> at a buffer of its own.\<close>

definition literal :: "string \<Rightarrow> dptr" where
  "literal s = DStatic (bs s @ [0])"

definition view_of :: "string \<Rightarrow> string_view" where
  "view_of s = View (literal s) (of_nat (length s))"

definition std_string :: "ptr \<Rightarrow> bytes \<Rightarrow> (('s, 'c, 'm, 'q, 'z) xw_scheme, unit) cm" where
  "std_string p b = modify (\<lambda>w. w\<lparr>cbuf := (cbuf w)(p \<mapsto> b)\<rparr>)"

definition std_string_dtor :: "ptr \<Rightarrow> (('s, 'c, 'm, 'q, 'z) xw_scheme, unit) cm" where
  "std_string_dtor p = modify (\<lambda>w. w\<lparr>cbuf := (cbuf w)(p := None)\<rparr>)"

text \<open>What a program prints: a message, or an error with its kind and text.\<close>

datatype line =
    PrintMessage bytes bytes
  | PrintRequest bytes bytes bytes
  | PrintReplying bytes
  | PrintText bytes
  | PrintConnectionError AsyncNatsConnectErrorKind bytes
  | PrintRequestError AsyncNatsRequestErrorKind bytes
  | PrintException bytes

text \<open>
  The handlers of \<open>main\<close>: the exit code and what is printed. With \<open>rq\<close> there is one for
  \<open>RequestError\<close>; without it that exception reaches the handler of \<open>std::exception\<close>, its base.
\<close>

definition catching :: "bool \<Rightarrow> (('s, 'c, 'm, 'q, 'z) xw_scheme, int \<times> line list) prog
    \<Rightarrow> (('s, 'c, 'm, 'q, 'z) xw_scheme, int \<times> line list) prog" where
  "catching rq body =
     bnd body (\<lambda>r. case r of
        Threw (AConnectionError e) \<Rightarrow>
          bnd (ConnectionError_kind e) (\<lambda>k.
          bnd (bnd (ConnectionError_what e) cstr_bytes) (\<lambda>s.
          sq (ConnectionError_dtor e) (gives (- 1, [PrintConnectionError k s]))))
      | Threw (ARequestError e) \<Rightarrow>
          (if rq
           then bnd (RequestError_kind e) (\<lambda>k.
                bnd (bnd (RequestError_what e) cstr_bytes) (\<lambda>s.
                sq (RequestError_dtor e) (gives (- 1, [PrintRequestError k s]))))
           else bnd (bnd (RequestError_what e) cstr_bytes) (\<lambda>s.
                sq (RequestError_dtor e) (gives (- 2, [PrintException s]))))
      | _ \<Rightarrow> ret r)"

subsection \<open>What the examples share\<close>

text \<open>
  The objects of an example and the handlers of its operations. \<open>sched h\<close> are the steps that happen
  while the program waits for the operation with handler \<open>h\<close>; \<open>ap\<close> is the available parallelism.
\<close>

abbreviation (input) "oConfig \<equiv> 0 :: oid"
abbreviation (input) "oRuntime \<equiv> 1 :: oid"
abbreviation (input) "oOptions \<equiv> 2 :: oid"
abbreviation (input) "oConnection \<equiv> 3 :: oid"
abbreviation (input) "oCopy \<equiv> 4 :: oid"
abbreviation (input) "oSub \<equiv> 5 :: oid"
abbreviation (input) "oMsg \<equiv> 6 :: oid"
abbreviation (input) "oError \<equiv> 7 :: oid"
abbreviation (input) "oMailbox \<equiv> 8 :: oid"
abbreviation (input) "oReceiver \<equiv> 9 :: oid"
abbreviation (input) "oSender \<equiv> 10 :: oid"
abbreviation (input) "oReply \<equiv> 11 :: oid"
abbreviation (input) "bMessage \<equiv> 1 :: ptr"
abbreviation (input) "bReply \<equiv> 2 :: ptr"
abbreviation (input) "hConnect \<equiv> 0 :: handler"
abbreviation (input) "hSubscribe \<equiv> 1 :: handler"
abbreviation (input) "hPublish \<equiv> 2 :: handler"
abbreviation (input) "hReceive \<equiv> 3 :: handler"
abbreviation (input) "hRequest \<equiv> 4 :: handler"

text \<open>\<open>TokioRuntime rt;\<close> with the default argument, a temporary configuration.\<close>

definition runtime_local :: "('s, 'c, 'm, 'q) env \<Rightarrow> usize option \<Rightarrow> (('s, 'c, 'm, 'q, 'z) xw_scheme, 'a) prog
    \<Rightarrow> (('s, 'c, 'm, 'q, 'z) xw_scheme, 'a) prog" where
  "runtime_local E ap =
     scoped
       (lift (sq (TokioRuntimeConfig_ctor ap oConfig)
             (sq (TokioRuntime_ctor (e_tokio E) oConfig oRuntime) (TokioRuntimeConfig_dtor oConfig))))
       (TokioRuntime_dtor oRuntime)"

definition options_local :: "('s, 'c, 'm, 'q) env \<Rightarrow> (('s, 'c, 'm, 'q, 'z) xw_scheme, 'a) prog
    \<Rightarrow> (('s, 'c, 'm, 'q, 'z) xw_scheme, 'a) prog" where
  "options_local E body =
     scoped (lift (ConnectionOptions_ctor () oOptions)) (ConnectionOptions_dtor oOptions)
       (osq (lift (sq (ConnectionOptions_name oOptions (bs ''test_app''))
              (ConnectionOptions_address (e_parse E) oOptions (bs ''nats://localhost:4222'')))) body)"

definition connection_local :: "('s, 'c, 'm, 'q) env \<Rightarrow> (handler \<Rightarrow> sysop list)
    \<Rightarrow> (('s, 'c, 'm, 'q, 'z) xw_scheme, 'a) prog \<Rightarrow> (('s, 'c, 'm, 'q, 'z) xw_scheme, 'a) prog" where
  "connection_local E sched =
     scoped
       (osq (lift (connect oRuntime oOptions hConnect))
         (obnd (await E (sched hConnect) hConnect) (get_connection oConnection oError)))
       (Connection_dtor oConnection)"

text \<open>\<open>Connection conn\<close> as a parameter of a coroutine: a copy that lives in its frame.\<close>

definition copy_local :: "(('s, 'c, 'm, 'q, 'z) xw_scheme, 'a) prog \<Rightarrow> (('s, 'c, 'm, 'q, 'z) xw_scheme, 'a) prog" where
  "copy_local = scoped (lift (Connection_copy_ctor oCopy oConnection)) (Connection_dtor oCopy)"

definition subscribtion_local :: "('s, 'c, 'm, 'q) env \<Rightarrow> (handler \<Rightarrow> sysop list) \<Rightarrow> oid \<Rightarrow> dptr
    \<Rightarrow> (('s, 'c, 'm, 'q, 'z) xw_scheme, 'a) prog \<Rightarrow> (('s, 'c, 'm, 'q, 'z) xw_scheme, 'a) prog" where
  "subscribtion_local E sched conn subj =
     scoped
       (osq (lift (Connection_subcribe conn hSubscribe subj))
         (obnd (await E (sched hSubscribe) hSubscribe) (get_subscribtion oSub)))
       (Subscribtion_dtor oSub)"

definition string_local :: "ptr \<Rightarrow> bytes \<Rightarrow> (('s, 'c, 'm, 'q, 'z) xw_scheme, 'a) prog
    \<Rightarrow> (('s, 'c, 'm, 'q, 'z) xw_scheme, 'a) prog" where
  "string_local p b = scoped (lift (std_string p b)) (std_string_dtor p)"

definition publish_await :: "('s, 'c, 'm, 'q) env \<Rightarrow> (handler \<Rightarrow> sysop list) \<Rightarrow> nat \<Rightarrow> oid \<Rightarrow> string_view \<Rightarrow> string_view
    \<Rightarrow> (('s, 'c, 'm, 'q, 'z) xw_scheme, unit) prog" where
  "publish_await E sched thread conn subj data =
     osq (lift (Connection_publish thread conn hPublish subj data))
       (obnd (await E (sched hPublish) hPublish) get_void)"

definition received_local :: "('s, 'c, 'm, 'q) env \<Rightarrow> (handler \<Rightarrow> sysop list)
    \<Rightarrow> (('s, 'c, 'm, 'q, 'z) xw_scheme, 'a) prog \<Rightarrow> (('s, 'c, 'm, 'q, 'z) xw_scheme, 'a) prog" where
  "received_local E sched =
     scoped
       (osq (lift (Subscribtion_receive oSub hReceive))
         (obnd (await E (sched hReceive) hReceive) (get_message oMsg)))
       (Message_dtor oMsg)"

definition print_message :: "oid \<Rightarrow> (('s, 'c, 'm, 'q, 'z) xw_scheme, line list) prog" where
  "print_message m =
     lift (bnd (bnd (Message_topic m) view_bytes) (\<lambda>t.
           bnd (bnd (Message_data m) view_bytes) (\<lambda>d. ret [PrintMessage t d])))"

subsection \<open>The examples\<close>

text \<open>
  cpp20\_coroutine.cpp. The coroutine's frame, with the copy of the connection, lives until the coroutine
  ends, while \<open>main\<close> runs the context; \<open>co_return\<close> is the value \<open>[]\<close> or the printed line.
\<close>

definition example_task :: "('s, 'c, 'm, 'q) env \<Rightarrow> (handler \<Rightarrow> sysop list) \<Rightarrow> nat \<Rightarrow> oid
    \<Rightarrow> (('s, 'c, 'm, 'q, 'z) xw_scheme, line list) prog" where
  "example_task E sched thread conn =
     subscribtion_local E sched conn (literal ''test'')
       (string_local bMessage (bs ''Hello world!'')
         (osq (publish_await E sched thread conn (view_of ''test'') (View (DBuf bMessage) 12))
           (received_local E sched
             (obnd (lift (Message_bool oMsg)) (\<lambda>ok.
              if \<not> ok then gives [] else print_message oMsg)))))"

definition cpp20_coroutine :: "('s, 'c, 'm, 'q) env \<Rightarrow> usize option \<Rightarrow> (handler \<Rightarrow> sysop list) \<Rightarrow> nat
    \<Rightarrow> (('s, 'c, 'm, 'q, 'z) xw_scheme, int \<times> line list) prog" where
  "cpp20_coroutine E ap sched thread =
     catching False
       (runtime_local E ap (options_local E (connection_local E sched
         (obnd (copy_local (example_task E sched thread oCopy)) (\<lambda>out. gives (0, out))))))"

text \<open>custom\_allocator.cpp: the coroutine itself connects; what it throws reaches \<open>main\<close> through the future.\<close>

definition allocator_task :: "('s, 'c, 'm, 'q) env \<Rightarrow> (handler \<Rightarrow> sysop list) \<Rightarrow> nat
    \<Rightarrow> (('s, 'c, 'm, 'q, 'z) xw_scheme, line list) prog" where
  "allocator_task E sched thread =
     options_local E (connection_local E sched (example_task E sched thread oConnection))"

definition custom_allocator :: "('s, 'c, 'm, 'q) env \<Rightarrow> usize option \<Rightarrow> (handler \<Rightarrow> sysop list) \<Rightarrow> nat
    \<Rightarrow> (('s, 'c, 'm, 'q, 'z) xw_scheme, int \<times> line list) prog" where
  "custom_allocator E ap sched thread =
     catching False (runtime_local E ap (obnd (allocator_task E sched thread) (\<lambda>out. gives (0, out))))"

text \<open>
  nonblocking.cpp: a mailbox as subject, a receiver that takes over the subscription, and a sender.
\<close>

definition mailbox_local :: "('s, 'c, 'm, 'q) env \<Rightarrow> (('s, 'c, 'm, 'q, 'z) xw_scheme, 'a) prog
    \<Rightarrow> (('s, 'c, 'm, 'q, 'z) xw_scheme, 'a) prog" where
  "mailbox_local E = scoped (lift (Connection_new_mailbox (e_inbox E) oConnection oMailbox)) (OwnedString_dtor oMailbox)"

definition receiver_wait :: "('s, 'c, 'm, 'q) env \<Rightarrow> sysop list \<Rightarrow> (('s, 'c, 'm, 'q, 'z) xw_scheme, unit) prog" where
  "receiver_wait E xs =
     sq (sysrun E xs) (bnd (Receiver_receive (e_chan E) oReceiver oMsg) (\<lambda>there. ret (if there then Done () else Waiting)))"

definition nonblocking :: "('s, 'c, 'm, 'q) env \<Rightarrow> usize option \<Rightarrow> (handler \<Rightarrow> sysop list) \<Rightarrow> nat
    \<Rightarrow> (('s, 'c, 'm, 'q, 'z) xw_scheme, int \<times> line list) prog" where
  "nonblocking E ap sched thread =
     catching False
       (runtime_local E ap (options_local E (connection_local E sched (mailbox_local E
         (obnd (lift (OwnedString_c_str oMailbox)) (\<lambda>subj.
          subscribtion_local E sched oConnection subj
            (scoped (lift (Receiver_ctor (e_chan E) oReceiver oSub Receiver_default_capacity))
                (Receiver_dtor (e_chan E) oReceiver)
              (obnd (lift (OwnedString_c_str oMailbox)) (\<lambda>topic.
               scoped (lift (Sender_ctor_default (e_ops E) oSender topic oConnection)) (Sender_dtor oSender)
                 (string_local bMessage (bs ''Hello world!'')
                   (osq (lift (Sender_send (e_ops E) thread oSender DNull (View (DBuf bMessage) 12)))
                     (scoped (receiver_wait E (sched hReceive)) (Message_dtor oMsg)
                       (obnd (print_message oMsg) (\<lambda>out. gives (0, out)))))))))))))))"

text \<open>
  requests.cpp: a request whose future is awaited last, after the program has received the request and
  replied to it. \<open>return 1\<close> leaves the scopes of all objects and drops the future.
\<close>

definition reply_text :: "bytes \<Rightarrow> bytes" where
  "reply_text d = bs ''Hello, '' @ d @ bs ''!''"

definition requests_main :: "('s, 'c, 'm, 'q) env \<Rightarrow> (handler \<Rightarrow> sysop list) \<Rightarrow> nat
    \<Rightarrow> (('s, 'c, 'm, 'q, 'z) xw_scheme, int \<times> line list) prog" where
  "requests_main E sched thread =
     options_local E (connection_local E sched (mailbox_local E
       (obnd (lift (OwnedString_c_str oMailbox)) (\<lambda>subj.
        subscribtion_local E sched oConnection subj
          (string_local bMessage (bs ''world'')
            (osq (lift (Connection_request oConnection hRequest subj (View (DBuf bMessage) 5)))
              (received_local E sched
                (obnd (lift (Message_reply_to oMsg)) (\<lambda>reply_to.
                 case reply_to of None \<Rightarrow> gives (1, [])
                 | Some r \<Rightarrow>
                     obnd (lift (bnd (Message_topic oMsg) view_bytes)) (\<lambda>t.
                     obnd (lift (bnd (Message_data oMsg) view_bytes)) (\<lambda>d.
                     obnd (lift (view_bytes r)) (\<lambda>rb.
                     string_local bReply (reply_text d)
                       (osq (publish_await E sched thread oConnection r
                             (View (DBuf bReply) (of_nat (length (reply_text d)))))
                         (scoped (obnd (await E (sched hRequest) hRequest) (get_reply oReply oError)) (Message_dtor oReply)
                           (obnd (print_message oReply) (\<lambda>out.
                            gives (0, [PrintRequest t d rb, PrintReplying rb] @ out)))))))))))))))))"

definition requests :: "('s, 'c, 'm, 'q) env \<Rightarrow> usize option \<Rightarrow> (handler \<Rightarrow> sysop list) \<Rightarrow> nat
    \<Rightarrow> (('s, 'c, 'm, 'q, 'z) xw_scheme, int \<times> line list) prog" where
  "requests E ap sched thread = catching True (runtime_local E ap (requests_main E sched thread))"

end
