(* ===== verification/Clients.thy ===== *)
theory Clients
  imports Examples
begin

text \<open>
  What holds of the example programs under every schedule: logic of computations that may wait, and the
  correctness of the programs that await one operation after the other.
\<close>

subsection \<open>The runtime while a program waits\<close>

text \<open>
  The steps of the runtime and the server; with \<open>fails\<close>, operations may be answered by a failure that
  has only a text.
\<close>

fun is_failure :: "response \<Rightarrow> bool" where
  "is_failure (RFailed e) = True"
| "is_failure r = False"

definition runtime_step :: "bool \<Rightarrow> sysop \<Rightarrow> bool" where
  "runtime_step fails x \<longleftrightarrow> background x
     \<or> (case x of TaskStart k \<Rightarrow> True | TaskFinish k r \<Rightarrow> text_ok r \<and> (is_failure r \<longrightarrow> fails) | ReceivePolls k \<Rightarrow> True | _ \<Rightarrow> False)"

text \<open>What only the program changes.\<close>

definition scenery :: "('s, 'c, 'm, 'q, 'z) xw_scheme \<Rightarrow> (oid \<rightharpoonup> ptr) \<times> (oid \<rightharpoonup> ptr) \<times> (oid \<rightharpoonup> ptr) \<times> (oid \<rightharpoonup> ptr)
    \<times> (oid \<rightharpoonup> HeaderVectorView) \<times> (oid \<rightharpoonup> error_obj) \<times> (oid \<rightharpoonup> error_obj) \<times> (ptr \<rightharpoonup> bytes)" where
  "scenery w = (sobjs w, mobjs w, hvobjs w, hiobjs w, vvobjs w, ceobjs w, reobjs w, cbuf w)"

lemma background_scenery:
  assumes "sysstep E x w = Inr ((), w')" "background x"
  shows "scenery w' = scenery w" "pending w' = pending w" "calls w' = calls w" "ctxs w' = ctxs w" "conns w' = conns w"
  by (subst background_same [OF assms], simp add: scenery_def)+

lemma settle_made_keep:
  assumes "answers t r"
  shows "scenery (settle c x (made t r w)) = scenery w" "pending (settle c x (made t r w)) = pending w"
    "calls (settle c x (made t r w)) = calls w @ [(the (ctxs w c), x)]"
    "ctxs (settle c x (made t r w)) = (ctxs w)(c := None)"
  using assms by (cases t; cases r; simp only: answers.simps response.case simp_thms; simp add: settle_def scenery_def split: option.split)+

text \<open>What a completed call leaves behind for the program.\<close>

fun ends :: "bool \<Rightarrow> api_call \<Rightarrow> sys \<Rightarrow> completion \<Rightarrow> sys \<Rightarrow> bool" where
  "ends fails (Connect _ _) S c S' \<longleftrightarrow>
     (\<exists>p b. p \<noteq> null \<and> c = CConnection p \<and> S' = S\<lparr>y_cn := raw p b (y_cn S)\<rparr>)
     \<or> (\<exists>p. p \<noteq> null \<and> c = CConnectError p \<and> S' = S\<lparr>y_ce := more p (y_ce S)\<rparr>)"
| "ends fails (Subscribe _ _) S c S' \<longleftrightarrow>
     (\<exists>p b. p \<noteq> null \<and> c = CSubscribtion p \<and> S' = S\<lparr>y_sb := raw p b (y_sb S)\<rparr>)
     \<or> (\<exists>p. fails \<and> c = CSubscribtion null \<and> S' = S\<lparr>y_str := more p (y_str S)\<rparr>)"
| "ends fails (Receive _) S c S' \<longleftrightarrow>
     (\<exists>p. p \<noteq> null \<and> c = CMessage p \<and> S' = S\<lparr>y_msg := more p (y_msg S)\<rparr>) \<or> (c = CMessage null \<and> S' = S)"
| "ends fails (Request _ _ _) S c S' \<longleftrightarrow>
     (\<exists>p. p \<noteq> null \<and> c = CMessage p \<and> S' = S\<lparr>y_msg := more p (y_msg S)\<rparr>)
     \<or> (\<exists>p. p \<noteq> null \<and> c = CRequestError p \<and> S' = S\<lparr>y_re := more p (y_re S)\<rparr>)"
| "ends fails (SendRequest _ _ _) S c S' \<longleftrightarrow>
     (\<exists>p. p \<noteq> null \<and> c = CMessage p \<and> S' = S\<lparr>y_msg := more p (y_msg S)\<rparr>)
     \<or> (\<exists>p. p \<noteq> null \<and> c = CRequestError p \<and> S' = S\<lparr>y_re := more p (y_re S)\<rparr>)"
| "ends fails _ S c S' \<longleftrightarrow> c = CVoid \<and> S' = S"

fun spawned :: "api_call \<Rightarrow> task \<Rightarrow> bool" where
  "spawned (Connect _ _) t \<longleftrightarrow> (\<exists>a b c. t = TConnect a b c)"
| "spawned (Subscribe _ _) t \<longleftrightarrow> (\<exists>a b c. t = TSubscribe a b c)"
| "spawned (Receive _) t \<longleftrightarrow> (\<exists>a b. t = TReceive a b)"
| "spawned (Request _ _ _) t \<longleftrightarrow> (\<exists>a b c d e. t = TRequest a b c d e)"
| "spawned (SendRequest _ _ _) t \<longleftrightarrow> (\<exists>a b c d. t = TSendRequest a b c d)"
| "spawned (Publish _ _ _ _) t \<longleftrightarrow> (\<exists>a b c d. t = TPublish a b c d)"
| "spawned (PublishReply _ _ _ _ _) t \<longleftrightarrow> (\<exists>a b c d e. t = TPublishReply a b c d e)"

lemma initiate_spawned:
  assumes "initiate a h w = Inr ((), w')"
  shows "\<exists>t. pending w' = pending w @ [(t, False)] \<and> ctxs w' (ctx_of t) = Some h \<and> spawned a t"
  using assms
  by (cases a) (auto simp: cpp_api_defs c_api_defs slice_lossy_convert_def cstr_lossy_convert_def cm_simps
      split: cm_splits)

lemma answered_ends:
  assumes "spawned a t" "answers t r" "alive w t st" "0 < brk w" "is_failure r \<longrightarrow> fails"
  shows "ends fails a S (result_of t r w) (after_task w t r S)"
proof (cases a)
  case (Subscribe i s)
  then obtain conn tp ctx where t: "t = TSubscribe conn tp ctx" using assms(1) by auto
  then obtain b where b: "conns w conn = Some b" using assms(3) by auto
  show ?thesis
  proof (cases r)
    case (RSubscriber k)
    show ?thesis unfolding t Subscribe RSubscriber result_of.simps after_task.simps ends.simps b option.case
      by (intro disjI1 exI conjI, rule nat.distinct(2), (rule HOL.refl)+)
  next
    case (RFailed e)
    then have f: fails using assms(5) by simp
    show ?thesis unfolding t Subscribe RFailed result_of.simps after_task.simps ends.simps
      by (intro disjI2 exI conjI, rule f, (rule HOL.refl)+)
  qed (use assms(2) t in simp_all)
next
  case (Connect rt o')
  then obtain x y z where t: "t = TConnect x y z" using assms(1) by auto
  have p: "brk w \<noteq> null" using assms(4) by simp
  show ?thesis
  proof (cases r)
    case (RClient k)
    show ?thesis unfolding t Connect RClient result_of.simps after_task.simps ends.simps
      by (intro disjI1 exI conjI, rule p, (rule HOL.refl)+)
  next
    case (RConnectError k e)
    show ?thesis unfolding t Connect RConnectError result_of.simps after_task.simps ends.simps
      by (intro disjI2 exI conjI, rule p, (rule HOL.refl)+)
  qed (use assms(2) t in simp_all)
next
  case (Receive i)
  then obtain x y where t: "t = TReceive x y" using assms(1) by auto
  show ?thesis using assms(2,4) unfolding t Receive by (cases r; simp)
next
  case (Request i s d)
  then obtain x y z u v where t: "t = TRequest x y z u v" using assms(1) by auto
  show ?thesis using assms(2,4) unfolding t Request by (cases r; simp)
next
  case (SendRequest i s q)
  then obtain x y z u where t: "t = TSendRequest x y z u" using assms(1) by auto
  show ?thesis using assms(2,4) unfolding t SendRequest by (cases r; simp)
next
  case (Publish th i s d)
  then obtain x y z u where t: "t = TPublish x y z u" using assms(1) by auto
  show ?thesis using assms(2) unfolding t Publish by (cases r; simp)
next
  case (PublishReply th i s q d)
  then obtain x y z u v where t: "t = TPublishReply x y z u v" using assms(1) by auto
  show ?thesis using assms(2) unfolding t PublishReply by (cases r; simp)
qed

lemma background_step:
  assumes "crate_laws E" "conforms S w" "background x"
  shows "\<exists>w'. sysstep E x w = Inr ((), w') \<and> conforms S w' \<and> pending w' = pending w \<and> calls w' = calls w
    \<and> ctxs w' = ctxs w \<and> scenery w' = scenery w"
proof -
  have spec: "spec E w x S = Some S" using assms(3) by (cases x) (simp_all add: background_def)
  obtain w' where w': "sysstep E x w = Inr ((), w')" "conforms S w'"
    using reaches_step [OF assms(1,2) spec] assms(3)
    by (auto simp: keeps_borrows_def counts_def background_def split: sysop.splits)
  with background_scenery [OF w'(1) assms(3)] show ?thesis by auto
qed

lemma quiet_step:
  assumes "crate_laws E" "conforms S w" "pending w = []" "runtime_step fails x"
  shows "\<exists>w'. sysstep E x w = Inr ((), w') \<and> conforms S w' \<and> pending w' = [] \<and> calls w' = calls w
    \<and> scenery w' = scenery w"
proof (cases "background x")
  case True
  with background_step [OF assms(1,2)] assms(3) show ?thesis by auto
next
  case False
  then have "sysstep E x w = Inr ((), w)"
    using assms(3,4) by (cases x)
      (simp_all add: runtime_step_def start_task_def finish_task_def poll_receive_def cm_simps)
  with assms(2,3) show ?thesis by blast
qed

lemma finish_outcome:
  assumes "conforms S w" "pending w = [(t, True)]" "ctxs w (ctx_of t) = Some h" "answers t r" "text_ok r"
  shows "\<exists>v. task_finish t r w = Inr ((), v) \<and> conforms (after_task w t r S) (v\<lparr>pending := []\<rparr>)
    \<and> calls v = calls w @ [(h, result_of t r w)] \<and> scenery v = scenery w"
proof -
  have c: "heap_typed w" "holders_ok S w" "borrows_ok w" using assms(1) by (simp_all add: conforms_def)
  obtain v where v: "task_finish t r w = Inr ((), v)" "holders_ok (after_task w t r S) (v\<lparr>pending := []\<rparr>)"
    "borrows_ok (v\<lparr>pending := []\<rparr>)"
    using finish_ok [OF c, of 0 t r] assms(2,4,5) by auto
  have "heap_typed v" using typed_opD [OF typed_task_finish c(1) v(1)] by blast
  then have "heap_typed (v\<lparr>pending := []\<rparr>)" using heap_same [of v "v\<lparr>pending := []\<rparr>"] by simp
  moreover have "v = settle (ctx_of t) (result_of t r w) (made t r w)"
    using task_finish_made [OF v(1) assms(4) typed_pos [OF c(1)]] .
  ultimately show ?thesis using v assms(3) by (simp add: conforms_def settle_made_keep [OF assms(4)])
qed

text \<open>One pending task of a call: it is still there, or it has ended with a completion of the call.\<close>

definition pending_or_ended :: "bool \<Rightarrow> api_call \<Rightarrow> handler \<Rightarrow> sys \<Rightarrow> ('s, 'c, 'm, 'q, 'z) xw_scheme \<Rightarrow> ('s, 'c, 'm, 'q, 'z) xw_scheme
    \<Rightarrow> bool" where
  "pending_or_ended fails a h S w w' \<longleftrightarrow> scenery w' = scenery w
     \<and> ((\<exists>t st. pending w' = [(t, st)] \<and> spawned a t \<and> ctxs w' (ctx_of t) = Some h \<and> calls w' = calls w \<and> conforms S w')
      \<or> (\<exists>c S'. ends fails a S c S' \<and> pending w' = [] \<and> calls w' = calls w @ [(h, c)] \<and> conforms S' w'))"

lemma ended_finish:
  assumes "conforms S w" "pending w = [(t, True)]" "ctxs w (ctx_of t) = Some h" "spawned a t" "answers t r" "text_ok r"
    "is_failure r \<longrightarrow> fails"
  shows "\<exists>v. task_finish t r w = Inr ((), v) \<and> pending_or_ended fails a h S w (v\<lparr>pending := []\<rparr>)"
proof -
  obtain v where v: "task_finish t r w = Inr ((), v)" "conforms (after_task w t r S) (v\<lparr>pending := []\<rparr>)"
    "calls v = calls w @ [(h, result_of t r w)]" "scenery v = scenery w"
    using finish_outcome [OF assms(1-3,5,6)] by blast
  have "alive w t True" using assms(1,2) by (auto simp: conforms_def borrows_ok_def)
  then have "ends fails a S (result_of t r w) (after_task w t r S)"
    using answered_ends [OF assms(4,5)] typed_pos [of w] assms(1,7) by (auto simp: conforms_def)
  moreover have "scenery (v\<lparr>pending := []\<rparr>) = scenery v" by (simp add: scenery_def)
  ultimately have "pending_or_ended fails a h S w (v\<lparr>pending := []\<rparr>)" using v unfolding pending_or_ended_def by auto
  with v(1) show ?thesis by blast
qed

lemma task_step:
  assumes "crate_laws E" "conforms S w" "pending w = [(t, st)]" "spawned a t" "ctxs w (ctx_of t) = Some h" "runtime_step fails x"
  shows "\<exists>w'. sysstep E x w = Inr ((), w') \<and> pending_or_ended fails a h S w w'"
proof -
  have stays: "pending_or_ended fails a h S w w" using assms(2-5) unfolding pending_or_ended_def by blast
  consider "background x" | k where "x = TaskStart k" | k r where "x = TaskFinish k r" | k where "x = ReceivePolls k"
    using assms(6) by (cases x) (auto simp: runtime_step_def)
  then show ?thesis
  proof cases
    case 1
    then show ?thesis using background_step [OF assms(1,2)] assms(3-5) unfolding pending_or_ended_def by fastforce
  next
    case TaskStart: (2 k)
    show ?thesis
    proof (cases "k = 0 \<and> \<not> st")
      case True
      then obtain w' where w': "sysstep E x w = Inr ((), w')" "conforms S w'"
        using reaches_step [OF assms(1,2), of x S] TaskStart by (auto simp: keeps_borrows_def counts_def)
      then obtain v where v: "task_start t w = Inr ((), v)" "w' = v\<lparr>pending := [(t, True)]\<rparr>"
        using TaskStart True assms(3) by (auto simp: start_task_def cm_simps split: sum.splits)
      obtain xs where "v = wire_update (\<lambda>l. l @ xs) w" using task_start_effect [OF v(1)] by blast
      then have "pending_or_ended fails a h S w w'"
        using w'(2) v(2) assms(4,5) by (auto simp: pending_or_ended_def scenery_def)
      with w'(1) show ?thesis by blast
    next
      case False
      then have "sysstep E x w = Inr ((), w)" using TaskStart assms(3) by (auto simp: start_task_def cm_simps)
      with stays show ?thesis by blast
    qed
  next
    case TaskFinish: (3 k r)
    show ?thesis
    proof (cases "k = 0 \<and> st \<and> \<not> receiving t \<and> answers t r")
      case True
      then obtain v where "task_finish t r w = Inr ((), v)" "pending_or_ended fails a h S w (v\<lparr>pending := []\<rparr>)"
        using ended_finish [OF assms(2) _ assms(5,4)] assms(3,6) TaskFinish by (auto simp: runtime_step_def background_def)
      with True show ?thesis using TaskFinish assms(3) by (simp add: finish_task_def cm_simps)
    next
      case False
      then have "sysstep E x w = Inr ((), w)" using TaskFinish assms(3) by (auto simp: finish_task_def cm_simps)
      with stays show ?thesis by blast
    qed
  next
    case ReceivePolls: (4 k)
    have "\<exists>S'. spec E w x S = Some S'" unfolding ReceivePolls by (simp split: option.split sum.split poll.split)
    then obtain w' where w': "sysstep E x w = Inr ((), w')"
      using reaches_step [OF assms(1,2)] ReceivePolls by (fastforce simp: keeps_borrows_def counts_def)
    have "poll_receive (e_crates E) k w = Inr ((), w')" using w' ReceivePolls by simp
    then show ?thesis
    proof (cases rule: poll_receive_cases)
      case 1
      with stays w' show ?thesis by blast
    next
      case (2 s ctx fin v)
      then have t: "t = TReceive s ctx" "st" "k = 0" using assms(3) by auto
      obtain b l p q where p: "subs w s = Some b"
        "case p of Pending \<Rightarrow> \<not> fin \<and> v = w\<lparr>subscribers := q, sds := l\<rparr>
       | Ready m \<Rightarrow> fin \<and> task_finish (TReceive s ctx) (pop_response m) (w\<lparr>subscribers := q, sds := l\<rparr>) = Inr ((), v)"
        using receive_poll_steps [OF 2(3)] by blast
      let ?w = "w\<lparr>subscribers := q, sds := l\<rparr>"
      have ok: "conforms S ?w" using subscribers_keep [where w = w and S = S and st = q and l = l] assms(2) by (simp add: conforms_def)
      have same: "scenery ?w = scenery w" by (simp add: scenery_def)
      have "pending_or_ended fails a h S w w'"
      proof (cases p)
        case Pending
        then have "w' = ?w" using p(2) 2(4) by simp
        then show ?thesis using ok same assms(3-5) by (auto simp: pending_or_ended_def)
      next
        case (Ready m)
        then have f: "fin" "task_finish t (pop_response m) ?w = Inr ((), v)" using p(2) t(1) by auto
        have r: "answers t (pop_response m)" "text_ok (pop_response m)" "is_failure (pop_response m) \<longrightarrow> fails"
          using answers_pop t(1) by (auto simp: pop_response_def split: option.split)
        obtain u where "task_finish t (pop_response m) ?w = Inr ((), u)" "pending_or_ended fails a h S ?w (u\<lparr>pending := []\<rparr>)"
          using ended_finish [OF ok _ _ assms(4) r] assms(3,5) t(2) by auto
        with f have "pending_or_ended fails a h S ?w w'" using 2(4) assms(3) t(3) by simp
        then show ?thesis by (simp add: pending_or_ended_def same)
      qed
      with w' show ?thesis by blast
    qed
  qed
qed

lemma quiet_run:
  assumes "crate_laws E" "conforms S w" "pending w = []" "\<forall>x \<in> set xs. runtime_step fails x"
  shows "\<exists>w'. sysrun E xs w = Inr ((), w') \<and> conforms S w' \<and> pending w' = [] \<and> calls w' = calls w
    \<and> scenery w' = scenery w"
  using assms(2-)
proof (induction xs arbitrary: w)
  case (Cons x xs)
  obtain w1 where w1: "sysstep E x w = Inr ((), w1)" "conforms S w1" "pending w1 = []" "calls w1 = calls w"
    "scenery w1 = scenery w"
    using quiet_step [OF assms(1) Cons.prems(1,2), of fails x] Cons.prems(3) by auto
  with Cons.IH [OF w1(2,3)] Cons.prems(3) show ?case by (auto simp: sq_run)
qed simp

lemma call_run:
  assumes "crate_laws E" "conforms S w" "pending w = [(t, st)]" "spawned a t" "ctxs w (ctx_of t) = Some h"
    and "\<forall>x \<in> set xs. runtime_step fails x"
  shows "\<exists>w'. sysrun E xs w = Inr ((), w') \<and> pending_or_ended fails a h S w w'"
  using assms(2-)
proof (induction xs arbitrary: w t st)
  case Nil
  then show ?case by (auto simp: pending_or_ended_def)
next
  case (Cons x xs)
  obtain w1 where w1: "sysstep E x w = Inr ((), w1)" "pending_or_ended fails a h S w w1"
    using task_step [OF assms(1) Cons.prems(1-4), of fails x] Cons.prems(5) by auto
  have xs: "\<forall>x \<in> set xs. runtime_step fails x" and same: "scenery w1 = scenery w"
    using Cons.prems(5) w1(2) by (simp_all add: pending_or_ended_def)
  consider t st where "pending w1 = [(t, st)]" "spawned a t" "ctxs w1 (ctx_of t) = Some h" "calls w1 = calls w" "conforms S w1"
    | c S' where "ends fails a S c S'" "pending w1 = []" "calls w1 = calls w @ [(h, c)]" "conforms S' w1"
    using w1(2) unfolding pending_or_ended_def by blast
  then show ?case
  proof cases
    case 1
    obtain w' where "sysrun E xs w1 = Inr ((), w')" "pending_or_ended fails a h S w1 w'"
      using Cons.IH [OF 1(5,1,2,3) xs] by blast
    then have "sysrun E (x # xs) w = Inr ((), w')" "pending_or_ended fails a h S w w'"
      using w1(1) 1(4) same by (simp_all add: sq_run pending_or_ended_def)
    then show ?thesis by blast
  next
    case 2
    obtain w' where w': "sysrun E xs w1 = Inr ((), w')" "conforms S' w'" "pending w' = []" "calls w' = calls w1"
      "scenery w' = scenery w1"
      using quiet_run [OF assms(1) 2(4,2) xs] by blast
    then have "sysrun E (x # xs) w = Inr ((), w')" using w1(1) by (simp add: sq_run)
    moreover have "pending_or_ended fails a h S w w'"
      unfolding pending_or_ended_def using w' 2 same by metis
    ultimately show ?thesis by blast
  qed
qed

subsection \<open>A logic of programs that wait and throw\<close>

text \<open>From \<open>P\<close> the program does not fault; it waits, or ends in \<open>Q\<close>, or throws into \<open>X\<close>.\<close>

definition triple :: "('w \<Rightarrow> bool) \<Rightarrow> ('w, 'a) prog \<Rightarrow> ('a \<Rightarrow> 'w \<Rightarrow> bool) \<Rightarrow> (thrown \<Rightarrow> 'w \<Rightarrow> bool) \<Rightarrow> bool" where
  "triple P m Q X \<longleftrightarrow> (\<forall>w. P w \<longrightarrow> (\<exists>r w'. m w = Inr (r, w')
     \<and> (case r of Done a \<Rightarrow> Q a w' | Threw e \<Rightarrow> X e w' | Waiting \<Rightarrow> True)))"

lemma tripleI:
  "(\<And>w. P w \<Longrightarrow> \<exists>r w'. m w = Inr (r, w') \<and> (case r of Done a \<Rightarrow> Q a w' | Threw e \<Rightarrow> X e w' | Waiting \<Rightarrow> True))
    \<Longrightarrow> triple P m Q X"
  by (simp add: triple_def)

lemma tripleD:
  "triple P m Q X \<Longrightarrow> P w \<Longrightarrow>
    \<exists>r w'. m w = Inr (r, w') \<and> (case r of Done a \<Rightarrow> Q a w' | Threw e \<Rightarrow> X e w' | Waiting \<Rightarrow> True)"
  by (simp add: triple_def)

lemma triple_lift: "(\<And>w. P w \<Longrightarrow> \<exists>a w'. m w = Inr (a, w') \<and> Q a w') \<Longrightarrow> triple P (lift m) Q X"
  by (rule tripleI) (fastforce simp: lift_def bnd_run)

lemma triple_gives: "(\<And>w. P w \<Longrightarrow> Q a w) \<Longrightarrow> triple P (gives a) Q X"
  by (rule tripleI) (simp add: gives_def)

lemma triple_obnd:
  assumes "triple P m R X" "\<And>a. triple (R a) (f a) Q X"
  shows "triple P (obnd m f) Q X"
proof (rule tripleI)
  fix w
  assume "P w"
  then obtain r w' where m: "m w = Inr (r, w')" "case r of Done a \<Rightarrow> R a w' | Threw e \<Rightarrow> X e w' | Waiting \<Rightarrow> True"
    using tripleD [OF assms(1)] by blast
  show "\<exists>r w'. obnd m f w = Inr (r, w') \<and> (case r of Done a \<Rightarrow> Q a w' | Threw e \<Rightarrow> X e w' | Waiting \<Rightarrow> True)"
  proof (cases r)
    case (Done a)
    then show ?thesis using tripleD [OF assms(2), of a w'] m by (simp add: obnd_def bnd_run)
  qed (use m in \<open>simp_all add: obnd_def bnd_run\<close>)
qed

lemma triple_osq: "triple P m (\<lambda>_. R) X \<Longrightarrow> triple R n Q X \<Longrightarrow> triple P (osq m n) Q X"
  unfolding osq_def by (rule triple_obnd)

lemma triple_pre: "triple P m Q X \<Longrightarrow> (\<And>w. P' w \<Longrightarrow> P w) \<Longrightarrow> triple P' m Q X"
  by (simp add: triple_def)

lemma triple_post:
  assumes "triple P m Q X" "\<And>a w. Q a w \<Longrightarrow> Q' a w" "\<And>e w. X e w \<Longrightarrow> X' e w"
  shows "triple P m Q' X'"
proof (rule tripleI)
  fix w
  assume "P w"
  then obtain r w' where m: "m w = Inr (r, w')" "case r of Done a \<Rightarrow> Q a w' | Threw e \<Rightarrow> X e w' | Waiting \<Rightarrow> True"
    using tripleD [OF assms(1)] by blast
  show "\<exists>r w'. m w = Inr (r, w') \<and> (case r of Done a \<Rightarrow> Q' a w' | Threw e \<Rightarrow> X' e w' | Waiting \<Rightarrow> True)"
    using m assms(2,3) by (intro exI [of _ r] exI [of _ w']) (cases r; simp)
qed

lemma triple_ex: "(\<And>x. triple (P x) m Q X) \<Longrightarrow> triple (\<lambda>w. \<exists>x. P x w) m Q X"
  by (auto simp: triple_def)

lemma triple_scoped:
  assumes "triple P ctor (\<lambda>_. I) X" "triple I body J Y"
    and "\<And>a w. J a w \<Longrightarrow> \<exists>w'. dtor w = Inr ((), w') \<and> Q a w'" "\<And>e w. Y e w \<Longrightarrow> \<exists>w'. dtor w = Inr ((), w') \<and> X e w'"
  shows "triple P (scoped ctor dtor body) Q X"
  unfolding scoped_def
proof (rule triple_osq [OF assms(1)], rule tripleI)
  fix w
  assume "I w"
  then obtain r w' where m: "body w = Inr (r, w')" "case r of Done a \<Rightarrow> J a w' | Threw e \<Rightarrow> Y e w' | Waiting \<Rightarrow> True"
    using tripleD [OF assms(2)] by blast
  show "\<exists>r w'. bnd body (\<lambda>r. case r of Waiting \<Rightarrow> ret Waiting | _ \<Rightarrow> sq dtor (ret r)) w = Inr (r, w')
      \<and> (case r of Done a \<Rightarrow> Q a w' | Threw e \<Rightarrow> X e w' | Waiting \<Rightarrow> True)"
  proof (cases r)
    case (Done a)
    then show ?thesis using assms(3) [of a w'] m by (auto simp: bnd_run sq_run)
  next
    case (Threw e)
    then show ?thesis using assms(4) [of e w'] m by (auto simp: bnd_run sq_run)
  qed (use m in \<open>simp add: bnd_run\<close>)
qed

end
