(* ===== verification/Scenes.thy ===== *)
theory Scenes
  imports Clients
begin

text \<open>
  Parts of a program that await operations one after the other: the states between two operations, and that
  each part of the examples, a local object with its scope or an awaited operation, runs without a fault
  under every schedule and owns afterwards what it owned before.
\<close>

subsection \<open>States of a program between two operations\<close>

definition owning :: "AsyncNatsTokioRuntime vstate \<Rightarrow> AsyncNatsConnetionParams vstate \<Rightarrow> AsyncNatsConnection vstate
    \<Rightarrow> AsyncNatsSubscribtion vstate \<Rightarrow> sys" where
  "owning R P C B = no_sys\<lparr>y_rt := R, y_co := P, y_cn := C, y_sb := B\<rparr>"

abbreviation vals :: "(oid \<rightharpoonup> 'b option) \<Rightarrow> 'b vstate" where
  "vals m \<equiv> (m, Map.empty)"

text \<open>
  \<open>S\<close> is what the program owns, \<open>M\<close> its \<open>Message\<close> objects, \<open>X\<close> the exception being thrown, \<open>K\<close> its buffers;
  the handlers below \<open>n\<close> may have been called.
\<close>

definition scene :: "sys \<Rightarrow> (oid \<rightharpoonup> ptr) \<Rightarrow> (oid \<rightharpoonup> error_obj) \<Rightarrow> (ptr \<rightharpoonup> bytes) \<Rightarrow> handler
    \<Rightarrow> ('s, 'c, 'm, 'q, 'z) xw_scheme \<Rightarrow> bool" where
  "scene S M X K n w \<longleftrightarrow> conforms S w \<and> pending w = [] \<and> (\<forall>x \<in> set (calls w). fst x < n)
     \<and> scenery w = (Map.empty, M, Map.empty, Map.empty, Map.empty, X, Map.empty, K)"

lemma scene_objects:
  assumes "scene S M X K n w"
  shows "mobjs w = M" "ceobjs w = X" "cbuf w = K" "sobjs w = Map.empty" "hvobjs w = Map.empty" "hiobjs w = Map.empty"
    "vvobjs w = Map.empty" "reobjs w = Map.empty"
  using assms by (simp_all add: scene_def scenery_def)

lemma scene_step:
  assumes "crate_laws E" "scene S M X K n w" "spec E w x S = Some S'" "\<not> of_tasks x" "counts x \<longrightarrow> room w"
    and "\<And>w'. sysstep E x w = Inr ((), w') \<Longrightarrow>
      scenery w' = (Map.empty, M', Map.empty, Map.empty, Map.empty, X', Map.empty, K')"
  shows "\<exists>w'. sysstep E x w = Inr ((), w') \<and> scene S' M' X' K' n w'"
proof -
  have c: "conforms S w" "pending w = []" using assms(2) by (simp_all add: scene_def)
  obtain w' where w': "sysstep E x w = Inr ((), w')" "heap_typed w'" "holders_ok S' w'"
    using system_progress [OF assms(1) c(1) assms(3,5)] by blast
  have "async_part w' = async_part w" using keepsD [OF keeps_async [OF assms(4)] w'(1)] .
  then have "pending w' = []" "calls w' = calls w" using c(2) by (simp_all add: async_part_def)
  with w' assms(2) assms(6) [OF w'(1)] show ?thesis by (auto simp: scene_def conforms_def borrows_ok_def)
qed

text \<open>The operations of the classes whose objects own their boxes alone leave the scenery.\<close>

lemma keep_scenery:
  "config_keep w' = config_keep w \<Longrightarrow> scenery w' = scenery w" "runtime_keep w' = runtime_keep w \<Longrightarrow> scenery w' = scenery w"
  "options_keep w' = options_keep w \<Longrightarrow> scenery w' = scenery w"
  "connection_keep w' = connection_keep w \<Longrightarrow> scenery w' = scenery w"
  "subscribtion_keep w' = subscribtion_keep w \<Longrightarrow> scenery w' = scenery w"
  by (drule same_config same_runtime same_options same_connection same_subscribtion, erule ssubst, simp add: scenery_def)+

definition plain :: "sysop \<Rightarrow> bool" where
  "plain x \<longleftrightarrow> (case x of OConfig _ \<Rightarrow> True | ORuntime _ \<Rightarrow> True | OOptions _ \<Rightarrow> True | OConnection _ \<Rightarrow> True
     | OSubscribtion _ \<Rightarrow> True | _ \<Rightarrow> False)"

lemma plain_scenery:
  assumes "conforms S w" "spec E w x S = Some S'" "plain x" "sysstep E x w = Inr ((), w')"
  shows "scenery w' = scenery w"
proof -
  have ok: "heap_typed w" "holders_ok S w" using assms(1) by (simp_all add: conforms_def)
  have rel: "vrel rtcfgs rcobjs config_keep (config_keep w) (y_rc S) w" "vrel rts rtobjs runtime_keep (runtime_keep w) (y_rt S) w"
    "vrel cparams coobjs options_keep (options_keep w) (y_co S) w"
    "vrel conns cnobjs connection_keep (connection_keep w) (y_cn S) w"
    "vrel subs sbobjs subscribtion_keep (subscribtion_keep w) (y_sb S) w"
    using ok by (simp_all add: vrel_def typed_own holders_ok_def values_ok_def)
  show ?thesis
  proof (cases x)
    case (OConfig y)
    then obtain t' where "vstep False (\<lambda>ap. Inr (Some (runtime_config_default ap))) config_st (y_rc S) y = Some (Inr t')" using assms(2) by (auto simp: vspec_Some)
    from rc.vstep_refines [OF rel(1) this] have "config_keep w' = config_keep w"
      using assms(4) OConfig by (auto simp: vrel_def)
    then show ?thesis by (rule keep_scenery(1))
  next
    case (ORuntime y)
    then obtain t' where "vstep False (runtime_mk (e_tokio E) (runtime_keep w)) (\<lambda>_. Inr) (y_rt S) y = Some (Inr t')" using assms(2) by (auto simp: vspec_Some)
    from rt.vstep_refines [OF rel(2) this] have "runtime_keep w' = runtime_keep w"
      using assms(4) ORuntime by (auto simp: vrel_def)
    then show ?thesis by (rule keep_scenery(2))
  next
    case (OOptions y)
    then obtain t' where "vstep False (\<lambda>_. Inr (Some params_default)) (options_st (e_parse E)) (y_co S) y = Some (Inr t')" using assms(2) by (auto simp: vspec_Some)
    from co.vstep_refines [OF rel(3) this] have "options_keep w' = options_keep w"
      using assms(4) OOptions by (auto simp: vrel_def)
    then show ?thesis by (rule keep_scenery(3))
  next
    case (OConnection y)
    then obtain t' where "vstep True no_new no_set (y_cn S) y = Some (Inr t')" using assms(2) by (auto simp: vspec_Some)
    from cn.vstep_refines [OF rel(4) this] have "connection_keep w' = connection_keep w"
      using assms(4) OConnection by (auto simp: vrel_def)
    then show ?thesis by (rule keep_scenery(4))
  next
    case (OSubscribtion y)
    then obtain t' where "vstep False no_new no_set (y_sb S) (VOp y) = Some (Inr t')" using assms(2) by (auto simp: vspec_Some)
    from sb.vop_refines [OF rel(5) this] have "subscribtion_keep w' = subscribtion_keep w"
      using assms(4) OSubscribtion by (auto simp: vrel_def)
    then show ?thesis by (rule keep_scenery(5))
  qed (use assms(3) in \<open>simp_all add: plain_def\<close>)
qed

lemma plain_step:
  assumes "crate_laws E" "scene S M X K n w" "spec E w x S = Some S'" "plain x"
  shows "\<exists>w'. sysstep E x w = Inr ((), w') \<and> scene S' M X K n w'"
proof (rule scene_step [OF assms(1-3)])
  show "\<not> of_tasks x" "counts x \<longrightarrow> room w" using assms(4) by (cases x; simp add: plain_def of_tasks_def counts_def)+
  show "scenery w' = (Map.empty, M, Map.empty, Map.empty, Map.empty, X, Map.empty, K)" if "sysstep E x w = Inr ((), w')" for w'
    using plain_scenery [OF _ assms(3,4) that] assms(2) by (simp add: scene_def)
qed

lemma scene_mono: "scene S M X K n w \<Longrightarrow> n \<le> n' \<Longrightarrow> scene S M X K n' w"
  by (force simp: scene_def)

subsection \<open>A call and its completion\<close>

lemma osq_obnd: "osq m (obnd n f) = obnd (osq m n) f"
  by (auto simp: osq_def obnd_def bnd_def fun_eq_iff split: sum.splits outcome.splits)

lemma map_of_fresh: "\<forall>x \<in> set xs. fst x < (n :: nat) \<Longrightarrow> map_of xs n = None"
  by (induction xs) auto

lemma call_outcome:
  fixes E :: "('s, 'c, 'm, 'q) env"
  assumes "crate_laws E" "\<And>w :: ('s, 'c, 'm, 'q, 'z) xw_scheme. scene S M X K h w \<Longrightarrow> callable S w a" "after_call a S = S"
    and "\<forall>x \<in> set xs. runtime_step fails x"
  shows "triple (scene S M X K h) (osq (lift (initiate a h)) (await E xs h))
    (\<lambda>c w. \<exists>S'. ends fails a S c S' \<and> scene S' M X K (Suc h) (w :: ('s, 'c, 'm, 'q, 'z) xw_scheme)) Y"
proof (rule tripleI)
  fix w :: "('s, 'c, 'm, 'q, 'z) xw_scheme"
  assume w: "scene S M X K h w"
  then have c: "conforms S w" "pending w = []" "\<forall>x \<in> set (calls w). fst x < h" by (simp_all add: scene_def)
  have spec: "spec E w (Initiate a h) S = Some S" using assms(2) [OF w] assms(3) by simp
  obtain w1 where w1: "sysstep E (Initiate a h) w = Inr ((), w1)" "conforms S w1"
    using reaches_step [OF assms(1) c(1) spec] by (auto simp: keeps_borrows_def counts_def)
  then have i: "initiate a h w = Inr ((), w1)" by simp
  obtain t where t: "pending w1 = [(t, False)]" "ctxs w1 (ctx_of t) = Some h" "spawned a t"
    using initiate_spawned [OF i] c(2) by auto
  have s1: "scenery w1 = scenery w" by (subst same_call [OF keepsD [OF keeps_initiate i]]) (simp add: scenery_def)
  have calls1: "calls w1 = calls w" using initiate_effect [OF i] by blast
  obtain w2 where w2: "sysrun E xs w1 = Inr ((), w2)" "pending_or_ended fails a h S w1 w2"
    using call_run [OF assms(1) w1(2) t(1,3,2) assms(4)] by blast
  have run: "osq (lift (initiate a h)) (await E xs h) w
      = Inr (case map_of (calls w2) h of None \<Rightarrow> Waiting | Some c \<Rightarrow> Done c, w2)"
    using i w2(1) by (simp add: osq_def obnd_def lift_def await_def bnd_run sq_run)
  consider "calls w2 = calls w"
    | c S' where "ends fails a S c S'" "pending w2 = []" "calls w2 = calls w @ [(h, c)]" "conforms S' w2"
    using w2(2) calls1 unfolding pending_or_ended_def by auto
  then show "\<exists>r w'. osq (lift (initiate a h)) (await E xs h) w = Inr (r, w')
      \<and> (case r of Done c \<Rightarrow> \<exists>S'. ends fails a S c S' \<and> scene S' M X K (Suc h) w' | Threw e \<Rightarrow> Y e w' | Waiting \<Rightarrow> True)"
  proof cases
    case 1
    then show ?thesis using run c(3) by (simp add: map_of_fresh)
  next
    case (2 c S')
    have "map_of (calls w2) h = Some c" using 2(3) c(3) by (simp add: map_add_def map_of_fresh)
    moreover have "scene S' M X K (Suc h) w2"
      using 2 w s1 w2(2) c(3) by (auto simp: scene_def pending_or_ended_def less_Suc_eq)
    ultimately show ?thesis using run 2(1) by auto
  qed
qed

subsection \<open>Parts of a program that own afterwards what they owned before\<close>

text \<open>A part may throw the exception of a failed connection.\<close>

definition throws :: "sys \<Rightarrow> (oid \<rightharpoonup> ptr) \<Rightarrow> (ptr \<rightharpoonup> bytes) \<Rightarrow> handler \<Rightarrow> thrown \<Rightarrow> ('s, 'c, 'm, 'q, 'z) xw_scheme \<Rightarrow> bool" where
  "throws S M K n e w \<longleftrightarrow> e = AConnectionError oError
     \<and> (\<exists>p. p \<noteq> null \<and> scene S M [oError \<mapsto> \<lparr>eo_e = p, eo_str = None\<rparr>] K n w)"

definition neutral :: "sys \<Rightarrow> (oid \<rightharpoonup> ptr) \<Rightarrow> (ptr \<rightharpoonup> bytes) \<Rightarrow> handler \<Rightarrow> handler
    \<Rightarrow> (('s, 'c, 'm, 'q, 'z) xw_scheme, 'a) prog \<Rightarrow> bool" where
  "neutral S M K n n' m \<longleftrightarrow> triple (scene S M Map.empty K n) m (\<lambda>_. scene S M Map.empty K n') (throws S M K n')"

text \<open>\<open>T v\<close> and \<open>M v\<close> are what is owned inside the scope of a local, for some \<open>v\<close>.\<close>

definition within :: "('v \<Rightarrow> sys) \<Rightarrow> ('v \<Rightarrow> oid \<rightharpoonup> ptr) \<Rightarrow> (ptr \<rightharpoonup> bytes) \<Rightarrow> handler \<Rightarrow> handler
    \<Rightarrow> (('s, 'c, 'm, 'q, 'z) xw_scheme, 'a) prog \<Rightarrow> bool" where
  "within T M K n n' m \<longleftrightarrow> triple (\<lambda>w. \<exists>v. scene (T v) (M v) Map.empty K n w) m
     (\<lambda>_ w. \<exists>v. scene (T v) (M v) Map.empty K n' w) (\<lambda>e w. \<exists>v. throws (T v) (M v) K n' e w)"

lemma neutral_within: "(\<And>v. neutral (T v) (M v) K n n' m) \<Longrightarrow> within T M K n n' m"
  unfolding within_def neutral_def by (rule triple_ex, rule triple_post) blast+

lemma neutral_scoped:
  assumes "triple (scene S M Map.empty K n) ctor (\<lambda>_ w. \<exists>v. scene (T v) (M' v) Map.empty K' n1 w) (throws S M K n1)"
    and "within T M' K' n1 n' body" "n1 \<le> n'"
    and "\<And>v X w. scene (T v) (M' v) X K' n' w \<Longrightarrow> card (dom X) \<le> 1 \<Longrightarrow> \<exists>w'. dtor w = Inr ((), w') \<and> scene S M X K n' w'"
  shows "neutral S M K n n' (scoped ctor dtor body)"
proof -
  have ctor: "triple (scene S M Map.empty K n) ctor (\<lambda>_ w. \<exists>v. scene (T v) (M' v) Map.empty K' n1 w) (throws S M K n')"
    by (rule triple_post [OF assms(1)]) (auto simp: throws_def intro: scene_mono [OF _ assms(3)])
  show ?thesis
    unfolding neutral_def
  proof (rule triple_scoped [OF ctor assms(2) [unfolded within_def]])
    show "\<exists>w'. dtor w = Inr ((), w') \<and> scene S M Map.empty K n' w'" if "\<exists>v. scene (T v) (M' v) Map.empty K' n' w" for w
      using that assms(4) [of _ Map.empty] by auto
    show "\<exists>w'. dtor w = Inr ((), w') \<and> throws S M K n' e w'" if "\<exists>v. throws (T v) (M' v) K' n' e w" for e w
    proof -
      note thrown = that
      obtain v p where "e = AConnectionError oError" "p \<noteq> null"
        "scene (T v) (M' v) [oError \<mapsto> \<lparr>eo_e = p, eo_str = None\<rparr>] K' n' w"
        using thrown unfolding throws_def by blast
      with assms(4) [OF this(3)] show ?thesis by (auto simp: throws_def)
    qed
  qed
qed

lemma neutral_obnd:
  assumes "neutral S M K n n1 m" "\<And>a. neutral S M K n1 n' (f a)" "n1 \<le> n'"
  shows "neutral S M K n n' (obnd m f)"
proof -
  have "triple (scene S M Map.empty K n) m (\<lambda>_. scene S M Map.empty K n1) (throws S M K n')"
    by (rule triple_post [OF assms(1) [unfolded neutral_def]]) (auto simp: throws_def intro: scene_mono [OF _ assms(3)])
  then show ?thesis unfolding neutral_def by (rule triple_obnd) (rule assms(2) [unfolded neutral_def])
qed

lemma neutral_osq: "neutral S M K n n1 m \<Longrightarrow> neutral S M K n1 n' k \<Longrightarrow> n1 \<le> n' \<Longrightarrow> neutral S M K n n' (osq m k)"
  unfolding osq_def by (rule neutral_obnd)

lemma neutral_gives: "neutral S M K n n (gives a)"
  unfolding neutral_def by (rule triple_gives)

subsection \<open>The locals of the examples\<close>

lemmas owning_defs = owning_def no_sys_def vspec_def

lemma runtime_created:
  fixes E :: "('s, 'c, 'm, 'q) env" and w :: "('s, 'c, 'm, 'q, 'z) xw_scheme"
  assumes "crate_laws E" "runtime_new (e_tokio E) (runtime_config_default ap) = Inr rt"
    and "scene (owning (vals Map.empty) P C B) M X K n w"
  shows "\<exists>w'. sq (TokioRuntimeConfig_ctor ap oConfig) (sq (TokioRuntime_ctor (e_tokio E) oConfig oRuntime)
      (TokioRuntimeConfig_dtor oConfig)) w = Inr ((), w') \<and> scene (owning (vals [oRuntime \<mapsto> Some rt]) P C B) M X K n w'"
proof -
  let ?S1 = "(owning (vals Map.empty) P C B)\<lparr>y_rc := vals [oConfig \<mapsto> Some (runtime_config_default ap)]\<rparr>"
  let ?S2 = "(owning (vals [oRuntime \<mapsto> Some rt]) P C B)\<lparr>y_rc := vals [oConfig \<mapsto> Some (runtime_config_default ap)]\<rparr>"
  have "spec E w (OConfig (VNew oConfig ap)) (owning (vals Map.empty) P C B) = Some ?S1" by (simp add: owning_defs)
  from plain_step [OF assms(1,3) this] obtain w1 where w1: "sysstep E (OConfig (VNew oConfig ap)) w = Inr ((), w1)" "scene ?S1 M X K n w1"
    by (auto simp: plain_def simp del: sysstep.simps)
  have "owns (rtcfgs w1) (rcobjs w1) (y_rc ?S1)"
    using w1(2) unfolding scene_def conforms_def holders_ok_def values_ok_def by blast
  then obtain c b where "rcobjs w1 oConfig = Some c" "c \<noteq> null" "rtcfgs w1 c = Some b"
    "fst (y_rc ?S1) oConfig = Some (Some b)"
    by (rule owns_held) (simp add: held_def)
  then have "runtime_mk (e_tokio E) (runtime_keep w1) oConfig = Inr (Some rt)"
    using assms(2) by (simp add: runtime_mk_def runtime_keep_def)
  then have "spec E w1 (ORuntime (VNew oRuntime oConfig)) ?S1 = Some ?S2" by (simp add: owning_defs)
  from plain_step [OF assms(1) w1(2) this] obtain w2 where w2: "sysstep E (ORuntime (VNew oRuntime oConfig)) w1 = Inr ((), w2)" "scene ?S2 M X K n w2"
    by (auto simp: plain_def simp del: sysstep.simps)
  have "spec E w2 (OConfig (VOp (HDestroy oConfig))) ?S2 = Some (owning (vals [oRuntime \<mapsto> Some rt]) P C B)"
    by (simp add: owning_defs)
  from plain_step [OF assms(1) w2(2) this] obtain w3 where w3: "sysstep E (OConfig (VOp (HDestroy oConfig))) w2 = Inr ((), w3)"
    "scene (owning (vals [oRuntime \<mapsto> Some rt]) P C B) M X K n w3"
    by (auto simp: plain_def simp del: sysstep.simps)
  have "TokioRuntimeConfig_ctor ap oConfig w = Inr ((), w1)" "TokioRuntime_ctor (e_tokio E) oConfig oRuntime w1 = Inr ((), w2)"
    "TokioRuntimeConfig_dtor oConfig w2 = Inr ((), w3)"
    using w1(1) w2(1) w3(1) by (simp_all add: TokioRuntimeConfig_class_def)
  then show ?thesis using w3(2) by (simp add: sq_run)
qed

lemma neutral_runtime:
  fixes E :: "('s, 'c, 'm, 'q) env" and body :: "(('s, 'c, 'm, 'q, 'z) xw_scheme, 'a) prog"
  assumes "crate_laws E" "runtime_new (e_tokio E) (runtime_config_default ap) = Inr rt"
    and "neutral (owning (vals [oRuntime \<mapsto> Some rt]) P C B) M K n n' body" "n \<le> n'"
  shows "neutral (owning (vals Map.empty) P C B) M K n n' (runtime_local E ap body)"
  unfolding runtime_local_def
proof (rule neutral_scoped [where T = "\<lambda>_ :: unit. owning (vals [oRuntime \<mapsto> Some rt]) P C B"])
  show "triple (scene (owning (vals Map.empty) P C B) M Map.empty K n)
      (lift (sq (TokioRuntimeConfig_ctor ap oConfig) (sq (TokioRuntime_ctor (e_tokio E) oConfig oRuntime)
        (TokioRuntimeConfig_dtor oConfig))))
      (\<lambda>_ w. \<exists>_ :: unit. scene (owning (vals [oRuntime \<mapsto> Some rt]) P C B) M Map.empty K n (w :: ('s, 'c, 'm, 'q, 'z) xw_scheme))
      (throws (owning (vals Map.empty) P C B) M K n)"
    by (rule triple_lift) (use runtime_created [OF assms(1,2)] in blast)
  show "\<exists>w'. TokioRuntime_dtor oRuntime w = Inr ((), w') \<and> scene (owning (vals Map.empty) P C B) M X K n' w'"
    if "scene (owning (vals [oRuntime \<mapsto> Some rt]) P C B) M X K n' w" for X and w :: "('s, 'c, 'm, 'q, 'z) xw_scheme"
    using plain_step [OF assms(1) that, of "ORuntime (VOp (HDestroy oRuntime))"]
    by (simp add: owning_defs plain_def TokioRuntime_class_def)
qed (use assms(3,4) in \<open>simp_all add: neutral_within\<close>)

text \<open>An operation of one class, as the function it is.\<close>

lemma plain_op:
  fixes E :: "('s, 'c, 'm, 'q) env" and m :: "(('s, 'c, 'm, 'q, 'z) xw_scheme, unit) cm"
  assumes "crate_laws E" "\<And>w :: ('s, 'c, 'm, 'q, 'z) xw_scheme. spec E w x S = Some S'" "plain x" "m = sysstep E x"
    and "scene S M X K n w"
  shows "\<exists>w'. m w = Inr ((), w') \<and> scene S' M X K n w'"
  using plain_step [OF assms(1,5,2,3)] assms(4) by simp

lemma options_set:
  fixes E :: "('s, 'c, 'm, 'q) env" and w :: "('s, 'c, 'm, 'q, 'z) xw_scheme"
  assumes "crate_laws E" "e_parse E (through_c_str url) = Some addr"
    and "scene (owning R (vals [oOptions \<mapsto> Some p]) C B) M X K n w"
  shows "\<exists>p' w'. sq (ConnectionOptions_name oOptions nm) (ConnectionOptions_address (e_parse E) oOptions url) w = Inr ((), w')
    \<and> scene (owning R (vals [oOptions \<mapsto> Some p']) C B) M X K n w'"
proof -
  obtain w1 where w1: "ConnectionOptions_name oOptions nm w = Inr ((), w1)"
    "scene (owning R (vals [oOptions \<mapsto> Some (p\<lparr>cp_name := Some (through_c_str nm)\<rparr>)]) C B) M X K n w1"
    using plain_op [OF assms(1) _ _ _ assms(3), of "OOptions (VSet oOptions (OptName nm))"]
    by (auto simp: owning_defs plain_def)
  obtain p' w2 where "ConnectionOptions_address (e_parse E) oOptions url w1 = Inr ((), w2)"
    "scene (owning R (vals [oOptions \<mapsto> Some p']) C B) M X K n w2"
    using plain_op [OF assms(1) _ _ _ w1(2), of "OOptions (VSet oOptions (OptAddress url))"] assms(2)
    by (fastforce simp: owning_defs plain_def)
  with w1(1) show ?thesis by (auto simp: sq_run)
qed

lemma neutral_options:
  fixes E :: "('s, 'c, 'm, 'q) env" and body :: "(('s, 'c, 'm, 'q, 'z) xw_scheme, 'a) prog"
  assumes "crate_laws E" "e_parse E (through_c_str (bs ''nats://localhost:4222'')) = Some addr"
    and "\<And>p. neutral (owning R (vals [oOptions \<mapsto> Some p]) C B) M K n n' body" "n \<le> n'"
  shows "neutral (owning R (vals Map.empty) C B) M K n n' (options_local E body)"
  unfolding options_local_def
proof (rule neutral_scoped [where T = "\<lambda>p. owning R (vals [oOptions \<mapsto> Some p]) C B"])
  let ?S = "owning R (vals Map.empty) C B"
  let ?T = "\<lambda>p. owning R (vals [oOptions \<mapsto> Some p]) C B"
  show "triple (scene ?S M Map.empty K n) (lift (ConnectionOptions_ctor () oOptions))
      (\<lambda>_ w. \<exists>p. scene (?T p) M Map.empty K n (w :: ('s, 'c, 'm, 'q, 'z) xw_scheme)) (throws ?S M K n)"
  proof (rule triple_lift)
    fix w :: "('s, 'c, 'm, 'q, 'z) xw_scheme"
    assume "scene ?S M Map.empty K n w"
    then have "\<exists>w'. ConnectionOptions_ctor () oOptions w = Inr ((), w') \<and> scene (?T params_default) M Map.empty K n w'"
      by (rule plain_op [OF assms(1), where x = "OOptions (VNew oOptions ())", rotated -1])
        (auto simp: owning_defs plain_def fun_eq_iff)
    then show "\<exists>a w'. ConnectionOptions_ctor () oOptions w = Inr (a, w') \<and> (\<exists>p. scene (?T p) M Map.empty K n w')"
      by blast
  qed
  show "\<exists>w'. ConnectionOptions_dtor oOptions w = Inr ((), w') \<and> scene ?S M X K n' w'"
    if "scene (?T p) M X K n' w" for p X and w :: "('s, 'c, 'm, 'q, 'z) xw_scheme"
    by (rule plain_op [OF assms(1) _ _ _ that, where x = "OOptions (VOp (HDestroy oOptions))"])
      (simp_all add: owning_defs plain_def ConnectionOptions_class_def)
  show "within ?T (\<lambda>_. M) K n n' (osq (lift (sq (ConnectionOptions_name oOptions (bs ''test_app''))
        (ConnectionOptions_address (e_parse E) oOptions (bs ''nats://localhost:4222'')))) body)"
    unfolding within_def
  proof (rule triple_osq)
    show "triple (\<lambda>w :: ('s, 'c, 'm, 'q, 'z) xw_scheme. \<exists>p. scene (?T p) M Map.empty K n w)
        (lift (sq (ConnectionOptions_name oOptions (bs ''test_app''))
          (ConnectionOptions_address (e_parse E) oOptions (bs ''nats://localhost:4222''))))
        (\<lambda>_ w. \<exists>p. scene (?T p) M Map.empty K n w) (\<lambda>e w. \<exists>p. throws (?T p) M K n' e w)"
      by (rule triple_ex, rule triple_lift) (use options_set [OF assms(1,2)] in blast)
  qed (rule neutral_within [OF assms(3), unfolded within_def])
qed (rule assms(4))

lemma neutral_copy:
  fixes E :: "('s, 'c, 'm, 'q) env" and body :: "(('s, 'c, 'm, 'q, 'z) xw_scheme, 'a) prog"
  assumes "crate_laws E" "neutral (owning R P (vals [oConnection \<mapsto> Some c, oCopy \<mapsto> Some c]) B) M K n n' body" "n \<le> n'"
  shows "neutral (owning R P (vals [oConnection \<mapsto> Some c]) B) M K n n' (copy_local body)"
  unfolding copy_local_def
proof (rule neutral_scoped [where T = "\<lambda>_ :: unit. owning R P (vals [oConnection \<mapsto> Some c, oCopy \<mapsto> Some c]) B"])
  let ?S = "owning R P (vals [oConnection \<mapsto> Some c]) B"
  let ?T = "owning R P (vals [oConnection \<mapsto> Some c, oCopy \<mapsto> Some c]) B"
  show "triple (scene ?S M Map.empty K n) (lift (Connection_copy_ctor oCopy oConnection))
      (\<lambda>_ w. \<exists>_ :: unit. scene ?T M Map.empty K n (w :: ('s, 'c, 'm, 'q, 'z) xw_scheme)) (throws ?S M K n)"
  proof (rule triple_lift)
    fix w :: "('s, 'c, 'm, 'q, 'z) xw_scheme"
    assume "scene ?S M Map.empty K n w"
    then have "\<exists>w'. Connection_copy_ctor oCopy oConnection w = Inr ((), w') \<and> scene ?T M Map.empty K n w'"
      by (rule plain_op [OF assms(1), where x = "OConnection (VOp (HCopy oCopy oConnection))", rotated -1])
        (auto simp: owning_defs plain_def Connection_class_def fun_eq_iff)
    then show "\<exists>a w'. Connection_copy_ctor oCopy oConnection w = Inr (a, w') \<and> (\<exists>_ :: unit. scene ?T M Map.empty K n w')"
      by blast
  qed
  show "\<exists>w'. Connection_dtor oCopy w = Inr ((), w') \<and> scene ?S M X K n' w'"
    if "scene ?T M X K n' w" for X and w :: "('s, 'c, 'm, 'q, 'z) xw_scheme"
    by (rule plain_op [OF assms(1) _ _ _ that, where x = "OConnection (VOp (HDestroy oCopy))"])
      (auto simp: owning_defs plain_def Connection_class_def fun_eq_iff)
qed (use assms(2,3) in \<open>simp_all add: neutral_within\<close>)

lemma buffer_step:
  fixes w :: "('s, 'c, 'm, 'q, 'z) xw_scheme"
  assumes "scene S M X K n w"
  shows "scene S M X (K(p := b)) n (w\<lparr>cbuf := (cbuf w)(p := b)\<rparr>)"
proof -
  have "conforms S (w\<lparr>cbuf := (cbuf w)(p := b)\<rparr>)"
    using assms background_frame(2) [of S w] heap_same [of w "w\<lparr>cbuf := (cbuf w)(p := b)\<rparr>"]
    by (auto simp: scene_def conforms_def borrows_ok_def)
  then show ?thesis using assms by (simp add: scene_def scenery_def)
qed

lemma neutral_string:
  fixes body :: "(('s, 'c, 'm, 'q, 'z) xw_scheme, 'a) prog"
  assumes "neutral S M (K(p \<mapsto> b)) n n' body" "K p = None" "n \<le> n'"
  shows "neutral S M K n n' (string_local p b body)"
  unfolding string_local_def
proof (rule neutral_scoped [where T = "\<lambda>_ :: unit. S"])
  show "triple (scene S M Map.empty K n) (lift (std_string p b))
      (\<lambda>_ w. \<exists>_ :: unit. scene S M Map.empty (K(p \<mapsto> b)) n (w :: ('s, 'c, 'm, 'q, 'z) xw_scheme)) (throws S M K n)"
    by (rule triple_lift) (simp add: std_string_def buffer_step)
  show "\<exists>w'. std_string_dtor p w = Inr ((), w') \<and> scene S M X K n' w'"
    if "scene S M X (K(p \<mapsto> b)) n' w" for X and w :: "('s, 'c, 'm, 'q, 'z) xw_scheme"
    using buffer_step [OF that, of p None] assms(2) by (simp add: std_string_dtor_def fun_upd_idem)
qed (use assms(1,3) in \<open>simp_all add: neutral_within\<close>)

subsection \<open>The operations the examples await\<close>

text \<open>Few references: the counters have room for one more.\<close>

lemma holds_le_card: "finite (dom m) \<Longrightarrow> holds m p \<le> card (dom m)"
  unfolding holds_def by (rule card_mono) auto

lemma scene_room:
  assumes "scene S M X K n w" "card (dom M) \<le> 1" "card (dom X) \<le> 1"
    and "\<forall>p. y_msg S p \<le> 1 \<and> y_ce S p \<le> 1 \<and> y_re S p \<le> 1"
  shows "room w"
proof -
  note obj = scene_objects [OF assms(1)]
  have inv: "ref_inv (msg_refs w) M (\<lambda>p. holds Map.empty p + y_msg S p)"
    "ref_inv (rc_refs cerrs ce_refs w) (e_ptrs X) (y_ce S)" "ref_inv (rc_refs rerrs re_refs w) (e_ptrs Map.empty) (y_re S)"
    using assms(1) obj by (simp_all add: scene_def conforms_def holders_ok_def msgs_ok_def msg_inv_def
        connect_errors_ok_def request_errors_ok_def)
  have dom: "dom (e_ptrs X) = dom X" by (auto simp: e_ptrs_def)
  have fin: "finite (dom M)" "finite (dom X)" using inv(1,2) dom by (simp_all add: ref_inv_def)
  have le: "holds M p \<le> 1" "holds (e_ptrs X) p \<le> 1" for p
    using holds_le_card [of M p] holds_le_card [of "e_ptrs X" p] fin dom assms(2,3) by simp_all
  have "msg_refs w p \<le> 2 \<and> rc_refs cerrs ce_refs w p \<le> 2 \<and> rc_refs rerrs re_refs w p \<le> 2" for p
  proof (cases "p = null")
    case True
    then show ?thesis using inv by (simp add: ref_inv_def)
  next
    case False
    then have "msg_refs w p = holds M p + y_msg S p" "rc_refs cerrs ce_refs w p = holds (e_ptrs X) p + y_ce S p"
      "rc_refs rerrs re_refs w p = y_re S p"
      using inv by (simp_all add: ref_inv_def)
    moreover have "y_msg S p \<le> 1" "y_ce S p \<le> 1" "y_re S p \<le> 1" using assms(4) by simp_all
    ultimately show ?thesis using le [of p] by linarith
  qed
  moreover have "(2 :: nat) < 2 ^ 64 - 1" by simp
  ultimately show ?thesis unfolding room_def by (meson order_le_less_trans)
qed

text \<open>Nothing is referred to but by objects.\<close>

definition settled :: "sys \<Rightarrow> bool" where
  "settled S \<longleftrightarrow> y_msg S = (\<lambda>_. 0) \<and> y_ce S = (\<lambda>_. 0) \<and> y_re S = (\<lambda>_. 0)"

lemma scene_adopts_error:
  fixes E :: "('s, 'c, 'm, 'q) env" and w :: "('s, 'c, 'm, 'q, 'z) xw_scheme"
  assumes "crate_laws E" "scene (S\<lparr>y_ce := more p (y_ce S)\<rparr>) M Map.empty K n w" "p \<noteq> null" "settled S" "card (dom M) \<le> 1"
  shows "\<exists>w'. ConnectionError_ctor i p w = Inr ((), w') \<and> scene S M [i \<mapsto> \<lparr>eo_e = p, eo_str = None\<rparr>] K n w'"
proof -
  have old: "S\<lparr>y_ce := \<lambda>_. 0\<rparr> = S" using assms(4) by (cases S) (simp add: settled_def)
  have one: "(more p (\<lambda>_. 0))(p := 0) = (\<lambda>_. 0)" by (simp add: more_def fun_eq_iff)
  have spec: "spec E w (OConnectError (EOp (HAdopt i p))) (S\<lparr>y_ce := more p (y_ce S)\<rparr>) = Some S"
    using assms(3,4) scene_objects(2) [OF assms(2)] old one by (simp add: e_shape_def settled_def more_def)
  have room: "room w"
    by (rule scene_room [OF assms(2)]) (use assms(4,5) in \<open>simp_all add: settled_def more_def\<close>)
  have "\<exists>w'. sysstep E (OConnectError (EOp (HAdopt i p))) w = Inr ((), w')
      \<and> scene S M [i \<mapsto> \<lparr>eo_e = p, eo_str = None\<rparr>] K n w'"
  proof (rule scene_step [OF assms(1,2) spec])
    show "scenery w' = (Map.empty, M, Map.empty, Map.empty, Map.empty, [i \<mapsto> \<lparr>eo_e = p, eo_str = None\<rparr>], Map.empty, K)"
      if "sysstep E (OConnectError (EOp (HAdopt i p))) w = Inr ((), w')" for w'
      using that scene_objects [OF assms(2)]
      by (auto simp: ConnectionError_class_def ConnectionError_ctor_def cm_simps scenery_def)
  qed (simp_all add: of_tasks_def room)
  then show ?thesis by (simp add: ConnectionError_class_def)
qed

lemma scene_adopts_message:
  fixes E :: "('s, 'c, 'm, 'q) env" and w :: "('s, 'c, 'm, 'q, 'z) xw_scheme"
  assumes "crate_laws E" "scene (if p = null then S else S\<lparr>y_msg := more p (y_msg S)\<rparr>) Map.empty Map.empty K n w" "settled S"
  shows "\<exists>w'. Message_from_raw i p w = Inr ((), w') \<and> scene S [i \<mapsto> p] Map.empty K n w'"
proof -
  have old: "S\<lparr>y_msg := \<lambda>_. 0\<rparr> = S" using assms(3) by (cases S) (simp add: settled_def)
  have one: "(more p (\<lambda>_. 0))(p := 0) = (\<lambda>_. 0)" by (simp add: more_def fun_eq_iff)
  have spec: "spec E w (OMessage (OnMessage (HAdopt i p))) (if p = null then S else S\<lparr>y_msg := more p (y_msg S)\<rparr>) = Some S"
    using assms(3) scene_objects(1,5) [OF assms(2)] old one by (simp add: nonnull_def settled_def more_def)
  have room: "room w"
    by (rule scene_room [OF assms(2)]) (use assms(3) in \<open>simp_all add: settled_def more_def\<close>)
  have "\<exists>w'. sysstep E (OMessage (OnMessage (HAdopt i p))) w = Inr ((), w') \<and> scene S [i \<mapsto> p] Map.empty K n w'"
  proof (rule scene_step [OF assms(1,2) spec])
    show "scenery w' = (Map.empty, [i \<mapsto> p], Map.empty, Map.empty, Map.empty, Map.empty, Map.empty, K)"
      if "sysstep E (OMessage (OnMessage (HAdopt i p))) w = Inr ((), w')" for w'
      using that scene_objects [OF assms(2)] by (auto simp: Message_class_def Message_from_raw_def cm_simps scenery_def)
  qed (simp_all add: of_tasks_def room)
  then show ?thesis by (simp add: Message_class_def)
qed

lemma scene_drops_message:
  fixes E :: "('s, 'c, 'm, 'q) env" and w :: "('s, 'c, 'm, 'q, 'z) xw_scheme"
  assumes "crate_laws E" "scene S [i \<mapsto> p] X K n w" "settled S" "card (dom X) \<le> 1"
  shows "\<exists>w'. Message_dtor i w = Inr ((), w') \<and> scene S Map.empty X K n w'"
proof -
  have spec: "spec E w (OMessage (OnMessage (HDestroy i))) S = Some S"
    using assms(3) scene_objects(1,5) [OF assms(2)] by (simp add: nonnull_def)
  have room: "room w"
    by (rule scene_room [OF assms(2)]) (use assms(3,4) in \<open>simp_all add: settled_def\<close>)
  have "\<exists>w'. sysstep E (OMessage (OnMessage (HDestroy i))) w = Inr ((), w') \<and> scene S Map.empty X K n w'"
  proof (rule scene_step [OF assms(1,2) spec])
    show "scenery w' = (Map.empty, Map.empty, Map.empty, Map.empty, Map.empty, X, Map.empty, K)"
      if "sysstep E (OMessage (OnMessage (HDestroy i))) w = Inr ((), w')" for w'
      using that scene_objects [OF assms(2)]
      by (auto simp: Message_class_def Message_dtor_def async_nats_message_delete_def cm_simps scenery_def fun_eq_iff
          split: if_splits option.splits)
  qed (simp_all add: of_tasks_def room)
  then show ?thesis by (simp add: Message_class_def)
qed

lemma settled_owning [simp]: "settled (owning R P C B)"
  by (simp add: settled_def owning_def no_sys_def)

text \<open>An operation and what the program makes of its completion.\<close>

lemma awaited:
  fixes E :: "('s, 'c, 'm, 'q) env"
  assumes "crate_laws E" "\<And>w :: ('s, 'c, 'm, 'q, 'z) xw_scheme. scene S M X K h w \<Longrightarrow> callable S w a" "after_call a S = S"
    and "\<forall>x \<in> set xs. runtime_step fails x"
    and "\<And>c S'. ends fails a S c S' \<Longrightarrow> triple (scene S' M X K (Suc h)) (get c) Q Y"
  shows "triple (scene S M X K h) (osq (lift (initiate a h)) (obnd (await E xs h) get)) Q
    (Y :: thrown \<Rightarrow> ('s, 'c, 'm, 'q, 'z) xw_scheme \<Rightarrow> bool)"
  unfolding osq_obnd
proof (rule triple_obnd [OF call_outcome [OF assms(1-4)]])
  show "triple (\<lambda>w. \<exists>S'. ends fails a S c S' \<and> scene S' M X K (Suc h) w) (get c) Q Y" for c
    by (rule triple_ex) (use assms(5) in \<open>auto simp: triple_def\<close>)
qed

lemma connected:
  fixes E :: "('s, 'c, 'm, 'q) env" and r :: AsyncNatsTokioRuntime and p :: AsyncNatsConnetionParams
  assumes "crate_laws E" "\<forall>x \<in> set xs. runtime_step True x"
  defines "S \<equiv> owning (vals [oRuntime \<mapsto> Some r]) (vals [oOptions \<mapsto> Some p]) (vals Map.empty) (vals Map.empty)"
  defines "T \<equiv> \<lambda>v. owning (vals [oRuntime \<mapsto> Some r]) (vals [oOptions \<mapsto> Some p]) (vals [oConnection \<mapsto> Some v]) (vals Map.empty)"
  shows "triple (scene S Map.empty Map.empty K hConnect)
    (osq (lift (connect oRuntime oOptions hConnect)) (obnd (await E xs hConnect) (get_connection oConnection oError)))
    (\<lambda>_ w. \<exists>v. scene (T v) Map.empty Map.empty K 1 w)
    (throws S Map.empty K 1 :: thrown \<Rightarrow> ('s, 'c, 'm, 'q, 'z) xw_scheme \<Rightarrow> bool)"
proof -
  have get: "triple (scene S' Map.empty Map.empty K (Suc hConnect)) (get_connection oConnection oError c)
      (\<lambda>_ w. \<exists>v. scene (T v) Map.empty Map.empty K 1 w)
      (throws S Map.empty K 1 :: thrown \<Rightarrow> ('s, 'c, 'm, 'q, 'z) xw_scheme \<Rightarrow> bool)"
    if ends: "ends True (Connect oRuntime oOptions) S c S'" for c S'
  proof -
    consider q b where "q \<noteq> null" "c = CConnection q" "S' = S\<lparr>y_cn := raw q b (y_cn S)\<rparr>"
      | q where "q \<noteq> null" "c = CConnectError q" "S' = S\<lparr>y_ce := more q (y_ce S)\<rparr>"
      using ends by auto
    then show ?thesis
    proof cases
      case 1
      show ?thesis
        unfolding 1(2) get_connection_def completion.case
      proof (rule triple_lift)
        fix w :: "('s, 'c, 'm, 'q, 'z) xw_scheme"
        assume w: "scene S' Map.empty Map.empty K (Suc hConnect) w"
        have "\<exists>w'. Connection_from_raw oConnection q w = Inr ((), w') \<and> scene (T b) Map.empty Map.empty K (Suc hConnect) w'"
          by (rule plain_op [OF assms(1) _ _ _ w, where x = "OConnection (VOp (HAdopt oConnection q))"])
            (auto simp: 1 S_def T_def owning_defs plain_def Connection_class_def raw_def fun_eq_iff)
        then show "\<exists>a w'. Connection_from_raw oConnection q w = Inr (a, w') \<and> (\<exists>v. scene (T v) Map.empty Map.empty K 1 w')"
          by auto
      qed
    next
      case 2
      show ?thesis
        unfolding 2(2) get_connection_def completion.case
      proof (rule tripleI)
        fix w :: "('s, 'c, 'm, 'q, 'z) xw_scheme"
        assume w: "scene S' Map.empty Map.empty K (Suc hConnect) w"
        from scene_adopts_error [OF assms(1) w [unfolded 2(3)] 2(1)] obtain w' where
          "ConnectionError_ctor oError q w = Inr ((), w')"
          "scene S Map.empty [oError \<mapsto> \<lparr>eo_e = q, eo_str = None\<rparr>] K (Suc hConnect) w'"
          by (auto simp: S_def)
        then show "\<exists>r w'. sq (ConnectionError_ctor oError q) (ret (Threw (AConnectionError oError))) w = Inr (r, w')
            \<and> (case r of Done a \<Rightarrow> \<exists>v. scene (T v) Map.empty Map.empty K 1 w' | Threw e \<Rightarrow> throws S Map.empty K 1 e w'
               | Waiting \<Rightarrow> True)"
          using 2(1) by (auto simp: sq_run throws_def)
      qed
    qed
  qed
  have "triple (scene S Map.empty Map.empty K hConnect)
    (osq (lift (initiate (Connect oRuntime oOptions) hConnect)) (obnd (await E xs hConnect) (get_connection oConnection oError)))
    (\<lambda>_ w. \<exists>v. scene (T v) Map.empty Map.empty K 1 w)
    (throws S Map.empty K 1 :: thrown \<Rightarrow> ('s, 'c, 'm, 'q, 'z) xw_scheme \<Rightarrow> bool)"
    by (rule awaited [OF assms(1) _ _ assms(2) get]) (simp_all add: S_def owning_defs held_def)
  then show ?thesis by simp
qed

lemma neutral_connection:
  fixes E :: "('s, 'c, 'm, 'q) env" and body :: "(('s, 'c, 'm, 'q, 'z) xw_scheme, 'a) prog"
  assumes "crate_laws E" "\<forall>x \<in> set (sched hConnect). runtime_step True x" "1 \<le> n'"
    and "\<And>v. neutral (owning (vals [oRuntime \<mapsto> Some r]) (vals [oOptions \<mapsto> Some p]) (vals [oConnection \<mapsto> Some v])
      (vals Map.empty)) Map.empty K 1 n' body"
  shows "neutral (owning (vals [oRuntime \<mapsto> Some r]) (vals [oOptions \<mapsto> Some p]) (vals Map.empty) (vals Map.empty))
    Map.empty K hConnect n' (connection_local E sched body)"
  unfolding connection_local_def
proof (rule neutral_scoped [OF connected [OF assms(1,2)] neutral_within [OF assms(4)] assms(3)])
  fix v X and w :: "('s, 'c, 'm, 'q, 'z) xw_scheme"
  assume w: "scene (owning (vals [oRuntime \<mapsto> Some r]) (vals [oOptions \<mapsto> Some p]) (vals [oConnection \<mapsto> Some v])
    (vals Map.empty)) Map.empty X K n' w"
  show "\<exists>w'. Connection_dtor oConnection w = Inr ((), w')
    \<and> scene (owning (vals [oRuntime \<mapsto> Some r]) (vals [oOptions \<mapsto> Some p]) (vals Map.empty) (vals Map.empty)) Map.empty X K n' w'"
    by (rule plain_op [OF assms(1) _ _ _ w, where x = "OConnection (VOp (HDestroy oConnection))"])
      (auto simp: owning_defs plain_def Connection_class_def fun_eq_iff)
qed

lemma neutral_subscribtion:
  fixes E :: "('s, 'c, 'm, 'q) env" and body :: "(('s, 'c, 'm, 'q, 'z) xw_scheme, 'a) prog"
  assumes "crate_laws E" "\<forall>x \<in> set (sched hSubscribe). runtime_step False x" "2 \<le> n'" "held C conn"
    and "\<And>v. neutral (owning R P C (vals [oSub \<mapsto> Some v])) Map.empty K 2 n' body"
  shows "neutral (owning R P C (vals Map.empty)) Map.empty K hSubscribe n' (subscribtion_local E sched conn (literal s) body)"
  unfolding subscribtion_local_def
proof (rule neutral_scoped [where T = "\<lambda>v. owning R P C (vals [oSub \<mapsto> Some v])" and M' = "\<lambda>_. Map.empty"])
  let ?S = "owning R P C (vals Map.empty)"
  let ?T = "\<lambda>v. owning R P C (vals [oSub \<mapsto> Some v])"
  have get: "triple (scene S' Map.empty Map.empty K (Suc hSubscribe)) (get_subscribtion oSub c)
      (\<lambda>_ w. \<exists>v. scene (?T v) Map.empty Map.empty K 2 w)
      (throws ?S Map.empty K 2 :: thrown \<Rightarrow> ('s, 'c, 'm, 'q, 'z) xw_scheme \<Rightarrow> bool)"
    if ends: "ends False (Subscribe conn (literal s)) ?S c S'" for c S'
  proof -
    obtain q b where q: "q \<noteq> null" "c = CSubscribtion q" "S' = ?S\<lparr>y_sb := raw q b (y_sb ?S)\<rparr>" using ends by auto
    show ?thesis
      unfolding q(2) get_subscribtion_def completion.case
    proof (rule triple_lift)
      fix w :: "('s, 'c, 'm, 'q, 'z) xw_scheme"
      assume w: "scene S' Map.empty Map.empty K (Suc hSubscribe) w"
      have "\<exists>w'. Subscribtion_from_raw oSub q w = Inr ((), w') \<and> scene (?T b) Map.empty Map.empty K (Suc hSubscribe) w'"
        by (rule plain_op [OF assms(1) _ _ _ w, where x = "OSubscribtion (HAdopt oSub q)"])
          (auto simp: q owning_defs plain_def Subscribtion_class_def raw_def fun_eq_iff)
      then show "\<exists>a w'. Subscribtion_from_raw oSub q w = Inr (a, w') \<and> (\<exists>v. scene (?T v) Map.empty Map.empty K 2 w')"
        by (auto simp: eval_nat_numeral)
    qed
  qed
  have "triple (scene ?S Map.empty Map.empty K hSubscribe)
    (osq (lift (initiate (Subscribe conn (literal s)) hSubscribe)) (obnd (await E (sched hSubscribe) hSubscribe) (get_subscribtion oSub)))
    (\<lambda>_ w. \<exists>v. scene (?T v) Map.empty Map.empty K 2 w)
    (throws ?S Map.empty K 2 :: thrown \<Rightarrow> ('s, 'c, 'm, 'q, 'z) xw_scheme \<Rightarrow> bool)"
    by (rule awaited [OF assms(1) _ _ assms(2) get])
      (use assms(4) in \<open>simp_all add: owning_defs held_def terminated_def literal_def\<close>)
  then show "triple (scene ?S Map.empty Map.empty K hSubscribe)
    (osq (lift (Connection_subcribe conn hSubscribe (literal s)))
      (obnd (await E (sched hSubscribe) hSubscribe) (get_subscribtion oSub)))
    (\<lambda>_ w. \<exists>v. scene (?T v) Map.empty Map.empty K 2 w)
    (throws ?S Map.empty K 2 :: thrown \<Rightarrow> ('s, 'c, 'm, 'q, 'z) xw_scheme \<Rightarrow> bool)" by simp
  show "\<exists>w'. Subscribtion_dtor oSub w = Inr ((), w') \<and> scene ?S Map.empty X K n' w'"
    if "scene (?T v) Map.empty X K n' w" for v X and w :: "('s, 'c, 'm, 'q, 'z) xw_scheme"
    by (rule plain_op [OF assms(1) _ _ _ that, where x = "OSubscribtion (HDestroy oSub)"])
      (auto simp: owning_defs plain_def Subscribtion_class_def fun_eq_iff)
qed (rule neutral_within [OF assms(5)], rule assms(3))

lemma neutral_publish:
  fixes E :: "('s, 'c, 'm, 'q) env"
  assumes "crate_laws E" "\<forall>x \<in> set (sched hPublish). runtime_step True x" "held (y_cn S) conn"
    and "\<And>w :: ('s, 'c, 'm, 'q, 'z) xw_scheme. cbuf w = K \<Longrightarrow> readable w subj \<and> readable w data"
  shows "neutral S Map.empty K hPublish 3
    (publish_await E sched thread conn subj data :: (('s, 'c, 'm, 'q, 'z) xw_scheme, unit) prog)"
proof -
  have get: "triple (scene S' Map.empty Map.empty K (Suc hPublish)) (get_void c) (\<lambda>_. scene S Map.empty Map.empty K 3)
      (throws S Map.empty K 3 :: thrown \<Rightarrow> ('s, 'c, 'm, 'q, 'z) xw_scheme \<Rightarrow> bool)"
    if "ends True (Publish thread conn subj data) S c S'" for c S'
    using that by (simp add: get_void_def triple_gives eval_nat_numeral)
  have callable: "callable S w (Publish thread conn subj data)" if "scene S Map.empty Map.empty K hPublish w"
    for w :: "('s, 'c, 'm, 'q, 'z) xw_scheme"
    using assms(3) assms(4) [OF scene_objects(3) [OF that]] by simp
  have "triple (scene S Map.empty Map.empty K hPublish)
    (osq (lift (initiate (Publish thread conn subj data) hPublish)) (obnd (await E (sched hPublish) hPublish) get_void))
    (\<lambda>_. scene S Map.empty Map.empty K 3)
    (throws S Map.empty K 3 :: thrown \<Rightarrow> ('s, 'c, 'm, 'q, 'z) xw_scheme \<Rightarrow> bool)"
    by (rule awaited [OF assms(1) callable _ assms(2) get]) simp_all
  then show ?thesis by (simp add: neutral_def publish_await_def)
qed

lemma neutral_received:
  fixes E :: "('s, 'c, 'm, 'q) env" and body :: "(('s, 'c, 'm, 'q, 'z) xw_scheme, 'a) prog"
  assumes "crate_laws E" "\<forall>x \<in> set (sched hReceive). runtime_step True x" "4 \<le> n'" "held (y_sb S) oSub" "settled S"
    and "\<And>p. neutral S [oMsg \<mapsto> p] K 4 n' body"
  shows "neutral S Map.empty K hReceive n' (received_local E sched body)"
  unfolding received_local_def
proof (rule neutral_scoped [where T = "\<lambda>_. S" and M' = "\<lambda>p. [oMsg \<mapsto> p]"])
  have get: "triple (scene S' Map.empty Map.empty K (Suc hReceive)) (get_message oMsg c)
      (\<lambda>_ w. \<exists>p. scene S [oMsg \<mapsto> p] Map.empty K 4 w)
      (throws S Map.empty K 4 :: thrown \<Rightarrow> ('s, 'c, 'm, 'q, 'z) xw_scheme \<Rightarrow> bool)"
    if ends: "ends True (Receive oSub) S c S'" for c S'
  proof -
    obtain p where p: "c = CMessage p" "S' = (if p = null then S else S\<lparr>y_msg := more p (y_msg S)\<rparr>)"
      using ends by force
    show ?thesis
      unfolding p(1) get_message_def completion.case
      by (rule triple_lift)
        (use scene_adopts_message [OF assms(1) _ assms(5), of p] p(2) in \<open>fastforce simp: eval_nat_numeral\<close>)
  qed
  have "triple (scene S Map.empty Map.empty K hReceive)
    (osq (lift (initiate (Receive oSub) hReceive)) (obnd (await E (sched hReceive) hReceive) (get_message oMsg)))
    (\<lambda>_ w. \<exists>p. scene S [oMsg \<mapsto> p] Map.empty K 4 w)
    (throws S Map.empty K 4 :: thrown \<Rightarrow> ('s, 'c, 'm, 'q, 'z) xw_scheme \<Rightarrow> bool)"
    by (rule awaited [OF assms(1) _ _ assms(2) get]) (use assms(4) in simp_all)
  then show "triple (scene S Map.empty Map.empty K hReceive)
    (osq (lift (Subscribtion_receive oSub hReceive)) (obnd (await E (sched hReceive) hReceive) (get_message oMsg)))
    (\<lambda>_ w. \<exists>p. scene S [oMsg \<mapsto> p] Map.empty K 4 w)
    (throws S Map.empty K 4 :: thrown \<Rightarrow> ('s, 'c, 'm, 'q, 'z) xw_scheme \<Rightarrow> bool)" by simp
  show "\<exists>w'. Message_dtor oMsg w = Inr ((), w') \<and> scene S Map.empty X K n' w'"
    if "scene S [oMsg \<mapsto> p] X K n' w" "card (dom X) \<le> 1" for p X and w :: "('s, 'c, 'm, 'q, 'z) xw_scheme"
    by (rule scene_drops_message [OF assms(1) that(1) assms(5) that(2)])
qed (rule neutral_within [OF assms(6)], rule assms(3))

end
