(* ===== verification/Coroutines.thy ===== *)
theory Coroutines
  imports Scenes
begin

text \<open>
  The coroutine examples under every schedule: they never fault, and when they end they have freed
  everything.
\<close>

subsection \<open>Printing a message\<close>

lemma scene_message:
  assumes "scene S [i \<mapsto> p] X K n w" "p \<noteq> null"
  obtains m where "msgs w p = Some m"
proof -
  have "msg_inv (y_msg S) w" "mobjs w = [i \<mapsto> p]"
    using assms(1) scene_objects(1) [OF assms(1)] by (simp_all add: scene_def conforms_def holders_ok_def msgs_ok_def)
  moreover have "holds [i \<mapsto> p] p = 1"
  proof -
    have "{j. [i \<mapsto> p] j = Some p} = {i}" by (auto split: if_splits)
    then show ?thesis unfolding holds_def by simp
  qed
  ultimately have "msg_refs w p \<noteq> 0" using assms(2) by (simp add: msg_inv_def ref_inv_def)
  then show ?thesis using that by (cases "msgs w p") (auto simp: rc_refs_def)
qed

lemma view_prefix:
  assumes "mem_at w d = Inr b"
  shows "view_bytes (View d (of_nat (length b))) w = Inr (take (unat (of_nat (length b) :: 64 word)) b, w)"
proof (cases "(of_nat (length b) :: 64 word) = 0")
  case False
  have "unat (of_nat (length b) :: 64 word) \<le> length b" by (simp add: unat_of_nat)
  with False assms show ?thesis by (simp add: cm_simps)
qed (simp add: cm_simps)

lemma neutral_print:
  fixes S :: sys
  shows "neutral S [oMsg \<mapsto> p] K n n (obnd (lift (Message_bool oMsg)) (\<lambda>ok.
      if \<not> ok then gives [] else print_message oMsg) :: (('s, 'c, 'm, 'q, 'z) xw_scheme, line list) prog)"
  unfolding neutral_def
proof (rule tripleI)
  fix w :: "('s, 'c, 'm, 'q, 'z) xw_scheme"
  assume w: "scene S [oMsg \<mapsto> p] Map.empty K n w"
  note m = scene_objects(1) [OF w]
  have "\<exists>out. obnd (lift (Message_bool oMsg)) (\<lambda>ok. if \<not> ok then gives [] else print_message oMsg) w = Inr (Done out, w)"
  proof (cases "p = null")
    case True
    then show ?thesis using m by (simp add: obnd_def lift_def gives_def Message_bool_def cm_simps)
  next
    case False
    then obtain b where b: "msgs w p = Some b" by (rule scene_message [OF w])
    have "Message_topic oMsg w = Inr (View (DMsg p FSubject) (of_nat (length (subject (am_msg b)))), w)"
      "Message_data oMsg w = Inr (View (DMsg p FPayload) (of_nat (length (payload (am_msg b)))), w)"
      using m False b by (simp_all add: accessor_defs cm_simps)
    moreover have "mem_at w (DMsg p FSubject) = Inr (subject (am_msg b))" "mem_at w (DMsg p FPayload) = Inr (payload (am_msg b))"
      using b by (simp_all add: cm_simps)
    ultimately show ?thesis
      using m False by (simp add: obnd_def lift_def Message_bool_def print_message_def bnd_run view_prefix obj_get_def
          del: view_bytes.simps)
  qed
  then show "\<exists>r w'. obnd (lift (Message_bool oMsg)) (\<lambda>ok. if \<not> ok then gives [] else print_message oMsg) w = Inr (r, w')
      \<and> (case r of Done a \<Rightarrow> scene S [oMsg \<mapsto> p] Map.empty K n w' | Threw e \<Rightarrow> throws S [oMsg \<mapsto> p] K n e w' | Waiting \<Rightarrow> True)"
    using w by auto
qed

subsection \<open>The coroutine\<close>

definition any_schedule :: "(handler \<Rightarrow> sysop list) \<Rightarrow> bool" where
  "any_schedule sched \<longleftrightarrow> (\<forall>h. \<forall>x \<in> set (sched h). runtime_step (h \<noteq> hSubscribe) x)"

lemma neutral_example_task:
  fixes E :: "('s, 'c, 'm, 'q) env"
  assumes "crate_laws E" "any_schedule sched" "held C conn" "K bMessage = None"
  shows "neutral (owning R P C (vals Map.empty)) Map.empty K hSubscribe 4
    (example_task E sched thread conn :: (('s, 'c, 'm, 'q, 'z) xw_scheme, line list) prog)"
proof -
  have steps: "\<forall>x \<in> set (sched hSubscribe). runtime_step False x" "\<forall>x \<in> set (sched hPublish). runtime_step True x"
    "\<forall>x \<in> set (sched hReceive). runtime_step True x"
    using assms(2) [unfolded any_schedule_def, rule_format, of _ hSubscribe]
      assms(2) [unfolded any_schedule_def, rule_format, of _ hPublish]
      assms(2) [unfolded any_schedule_def, rule_format, of _ hReceive] by simp_all
  let ?K = "K(bMessage \<mapsto> bs ''Hello world!'')"
  have views: "readable w (view_of ''test'') \<and> readable w (View (DBuf bMessage) 12)" if "cbuf w = ?K"
    for w :: "('s, 'c, 'm, 'q, 'z) xw_scheme"
    using that by (simp add: view_of_def literal_def bs_def)
  show ?thesis
    unfolding example_task_def
  proof (rule neutral_subscribtion [where sched = sched, OF assms(1) steps(1) _ assms(3)])
    fix v
    let ?S = "owning R P C (vals [oSub \<mapsto> Some v])"
    have received: "neutral ?S Map.empty ?K hReceive 4 (received_local E sched (obnd (lift (Message_bool oMsg)) (\<lambda>ok.
        if \<not> ok then gives [] else print_message oMsg)) :: (('s, 'c, 'm, 'q, 'z) xw_scheme, line list) prog)"
      by (rule neutral_received [where sched = sched, OF assms(1) steps(3) _ _ _ neutral_print])
        (simp_all add: owning_defs held_def settled_def)
    have "neutral ?S Map.empty ?K hPublish 3 (publish_await E sched thread conn (view_of ''test'')
        (View (DBuf bMessage) 12) :: (('s, 'c, 'm, 'q, 'z) xw_scheme, unit) prog)"
      by (rule neutral_publish [where sched = sched, OF assms(1) steps(2) _ views]) (use assms(3) in \<open>simp_all add: owning_defs\<close>)
    from this received have "neutral ?S Map.empty ?K hPublish 4 (osq (publish_await E sched thread conn (view_of ''test'')
        (View (DBuf bMessage) 12)) (received_local E sched (obnd (lift (Message_bool oMsg)) (\<lambda>ok.
        if \<not> ok then gives [] else print_message oMsg))) :: (('s, 'c, 'm, 'q, 'z) xw_scheme, line list) prog)"
      by (rule neutral_osq) simp
    then show "neutral ?S Map.empty K 2 4 (string_local bMessage (bs ''Hello world!'')
        (osq (publish_await E sched thread conn (view_of ''test'') (View (DBuf bMessage) 12))
          (received_local E sched (obnd (lift (Message_bool oMsg)) (\<lambda>ok.
            if \<not> ok then gives [] else print_message oMsg)))) :: (('s, 'c, 'm, 'q, 'z) xw_scheme, line list) prog)"
      by (rule neutral_string [where K = K and p = bMessage]) (use assms(4) in simp_all)
  qed simp
qed


subsection \<open>The exception of a failed connection\<close>

lemma until_nul: "0 \<notin> set b \<Longrightarrow> takeWhile (\<lambda>c. c \<noteq> 0) (b @ [0]) = b"
  by (induction b) auto

lemma scene_error:
  assumes "scene S M [i \<mapsto> \<lparr>eo_e = p, eo_str = t\<rparr>] K n w" "p \<noteq> null"
  obtains e where "cerrs w p = Some e" "0 \<notin> set (ce_text e)"
proof -
  have inv: "ref_inv (rc_refs cerrs ce_refs w) (e_ptrs [i \<mapsto> \<lparr>eo_e = p, eo_str = t\<rparr>]) (y_ce S)"
    and texts: "\<forall>q e. cerrs w q = Some e \<longrightarrow> 0 \<notin> set (ce_text e)"
    using assms(1) scene_objects(2) [OF assms(1)] by (simp_all add: scene_def conforms_def holders_ok_def connect_errors_ok_def)
  have "holds [i \<mapsto> p] p = 1"
  proof -
    have "{j. [i \<mapsto> p] j = Some p} = {i}" by (auto split: if_splits)
    then show ?thesis unfolding holds_def by simp
  qed
  then have "rc_refs cerrs ce_refs w p \<noteq> 0" using inv assms(2) by (simp add: ref_inv_def)
  then show ?thesis using that texts by (cases "cerrs w p") (auto simp: rc_refs_def)
qed

lemma caught:
  fixes E :: "('s, 'c, 'm, 'q) env" and w :: "('s, 'c, 'm, 'q, 'z) xw_scheme"
  assumes "crate_laws E" "scene S Map.empty [oError \<mapsto> \<lparr>eo_e = p, eo_str = None\<rparr>] K n w" "p \<noteq> null" "settled S"
  shows "\<exists>k s w'. catching rq (ret (Threw (AConnectionError oError))) w = Inr (Done (- 1, [PrintConnectionError k s]), w')
    \<and> scene S Map.empty Map.empty K n w'"
proof -
  let ?t = "\<lparr>eo_e = p, eo_str = None\<rparr>"
  obtain e where e: "cerrs w p = Some e" "0 \<notin> set (ce_text e)" by (rule scene_error [OF assms(2,3)])
  note ob = scene_objects [OF assms(2)]
  have pos: "brk w \<noteq> null" using typed_pos [of w] assms(2) by (simp add: scene_def conforms_def)
  have old: "S\<lparr>y_ce := y_ce S\<rparr> = S" by simp
  have room: "room w" by (rule scene_room [OF assms(2)]) (use assms(4) in \<open>simp_all add: settled_def\<close>)
  have spec1: "spec E w (OConnectError (EWhat oError)) S = Some S"
    using assms(3) ob(2) by (simp add: e_shape_def)
  obtain d w1 where w1: "ConnectionError_what oError w = Inr (d, w1)" "ceobjs w1 = [oError \<mapsto> ?t\<lparr>eo_str := Some (brk w)\<rparr>]"
    "scenery w1 = (Map.empty, Map.empty, Map.empty, Map.empty, Map.empty, ceobjs w1, Map.empty, K)"
    "cstr_bytes d w1 = Inr (ce_text e, w1)"
    using e ob assms(3) pos
    by (simp add: ConnectionError_what_def async_nats_connection_error_describtion_def string_to_owned_string_def
        cm_simps cstr_ptr_def scenery_def fun_eq_iff until_nul)
  have step1: "sysstep E (OConnectError (EWhat oError)) w = Inr ((), w1)"
    using w1(1) by (simp add: ConnectionError_class_def bnd_run)
  have s1: "scene S Map.empty (ceobjs w1) K n w1"
    using scene_step [OF assms(1,2) spec1 _ _ , of Map.empty "ceobjs w1" K] step1 w1(3) room by (auto simp: of_tasks_def)
  have spec2: "spec E w1 (OConnectError (EOp (HDestroy oError))) S = Some S"
    using w1(2) by (simp add: e_shape_def)
  have room1: "room w1"
    by (rule scene_room [OF s1]) (use assms(4) w1(2) in \<open>simp_all add: settled_def\<close>)
  have "\<exists>w2. sysstep E (OConnectError (EOp (HDestroy oError))) w1 = Inr ((), w2) \<and> scene S Map.empty Map.empty K n w2"
  proof (rule scene_step [OF assms(1) s1 spec2])
    show "scenery w2 = (Map.empty, Map.empty, Map.empty, Map.empty, Map.empty, Map.empty, Map.empty, K)"
      if "sysstep E (OConnectError (EOp (HDestroy oError))) w1 = Inr ((), w2)" for w2
      using that scene_objects [OF s1] w1(2)
      by (auto simp: ConnectionError_class_def ConnectionError_dtor_def async_nats_connection_error_delete_def
          opt_destroy_def async_nats_owned_string_delete_def cm_simps scenery_def fun_eq_iff split: if_splits option.splits)
  qed (simp_all add: of_tasks_def room1)
  then obtain w2 where w2: "ConnectionError_dtor oError w1 = Inr ((), w2)" "scene S Map.empty Map.empty K n w2"
    by (auto simp: ConnectionError_class_def)
  have "ConnectionError_kind oError w = Inr (connect_error_kind_of (ce_kind e), w)"
    using e(1) ob(2) assms(3) by (simp add: ConnectionError_kind_def async_nats_connection_error_kind_def cm_simps)
  then have "catching rq (ret (Threw (AConnectionError oError))) w
      = Inr (Done (- 1, [PrintConnectionError (connect_error_kind_of (ce_kind e)) (ce_text e)]), w2)"
    using w1(1,4) w2(1) by (simp add: catching_def bnd_run sq_run gives_def)
  with w2(2) show ?thesis by blast
qed

subsection \<open>What a program prints\<close>

definition yields :: "('a \<Rightarrow> bool) \<Rightarrow> ('w, 'a) prog \<Rightarrow> bool" where
  "yields V m \<longleftrightarrow> (\<forall>w a w'. m w = Inr (Done a, w') \<longrightarrow> V a)"

lemma yields_obnd: "(\<And>a. yields V (f a)) \<Longrightarrow> yields V (obnd m f)"
  unfolding yields_def obnd_def bnd_run by (auto split: sum.splits prod.splits outcome.splits)

lemma yields_gives: "V a \<Longrightarrow> yields V (gives a)"
  by (simp add: yields_def gives_def)

lemma yields_scoped: "yields V body \<Longrightarrow> yields V (scoped ctor dtor body)"
  unfolding scoped_def osq_def
  by (rule yields_obnd) (auto simp: yields_def bnd_run sq_run split: sum.splits prod.splits outcome.splits)

lemma yields_result:
  assumes "yields W m" "\<And>a. W a \<Longrightarrow> yields V (f a)"
  shows "yields V (obnd m f)"
  unfolding yields_def
proof (intro allI impI)
  fix w b w'
  assume "obnd m f w = Inr (Done b, w')"
  then obtain a w1 where a: "m w = Inr (Done a, w1)" "f a w1 = Inr (Done b, w')"
    by (auto simp: obnd_def bnd_run split: sum.splits prod.splits outcome.splits)
  then have "W a" using assms(1) unfolding yields_def by blast
  with assms(2) a(2) show "V b" unfolding yields_def by blast
qed

lemma yields_locals:
  "yields V body \<Longrightarrow> yields V (runtime_local E ap body)" "yields V body \<Longrightarrow> yields V (options_local E body)"
  "yields V body \<Longrightarrow> yields V (connection_local E sched body)" "yields V body \<Longrightarrow> yields V (copy_local body)"
  "yields V body \<Longrightarrow> yields V (subscribtion_local E sched conn subj body)"
  "yields V body \<Longrightarrow> yields V (string_local p b body)" "yields V body \<Longrightarrow> yields V (received_local E sched body)"
  by (simp_all add: runtime_local_def options_local_def connection_local_def copy_local_def subscribtion_local_def
      string_local_def received_local_def osq_def yields_scoped yields_obnd)

text \<open>Nothing, or one message.\<close>

definition printed :: "line list \<Rightarrow> bool" where
  "printed out \<longleftrightarrow> out = [] \<or> (\<exists>t d. out = [PrintMessage t d])"

lemma yields_print: "yields printed (print_message m)"
  by (auto simp: yields_def print_message_def printed_def lift_def bnd_run split: sum.splits prod.splits)

lemma yields_example_task: "yields printed (example_task E sched thread conn)"
  unfolding example_task_def osq_def
  by (intro yields_locals yields_obnd) (simp add: yields_print yields_gives printed_def)

lemma yields_allocator_task: "yields printed (allocator_task E sched thread)"
  unfolding allocator_task_def by (intro yields_locals yields_example_task)

definition succeeded :: "int \<times> line list \<Rightarrow> bool" where
  "succeeded a \<longleftrightarrow> fst a = 0 \<and> printed (snd a)"

lemma yields_success: "yields printed m \<Longrightarrow> yields succeeded (obnd m (\<lambda>out. gives (0, out)))"
  by (erule yields_result) (simp add: succeeded_def yields_gives)

lemma caught_all:
  fixes E :: "('s, 'c, 'm, 'q) env" and body :: "(('s, 'c, 'm, 'q, 'z) xw_scheme, int \<times> line list) prog"
  assumes "crate_laws E" "neutral S Map.empty K n n' body" "settled S" "yields V body" "scene S Map.empty Map.empty K n w"
  shows "\<exists>r w'. catching rq body w = Inr (r, w') \<and> (\<forall>e. r \<noteq> Threw e)
    \<and> (\<forall>a. r = Done a \<longrightarrow> scene S Map.empty Map.empty K n' w' \<and> (V a \<or> (\<exists>k s. a = (- 1, [PrintConnectionError k s]))))"
proof -
  obtain r w1 where r: "body w = Inr (r, w1)"
    "case r of Done a \<Rightarrow> scene S Map.empty Map.empty K n' w1 | Threw e \<Rightarrow> throws S Map.empty K n' e w1 | Waiting \<Rightarrow> True"
    using tripleD [OF assms(2) [unfolded neutral_def] assms(5)] by blast
  have run: "catching rq body w = catching rq (ret r) w1" using r(1) by (simp add: catching_def bnd_run)
  show ?thesis
  proof (cases r)
    case (Threw e)
    then show ?thesis using r(2) caught [OF assms(1) _ _ assms(3)] unfolding run throws_def by fastforce
  next
    case (Done a)
    then have "V a" using assms(4) r(1) unfolding yields_def by blast
    moreover have "catching rq body w = Inr (r, w1)" using run Done by (simp add: catching_def bnd_run)
    ultimately show ?thesis using Done r(2) by (intro exI [of _ r] exI [of _ w1]) simp
  qed (use run in \<open>simp add: catching_def bnd_run\<close>)
qed

subsection \<open>The programs\<close>

lemma fresh_scene: "fresh_world w \<Longrightarrow> scene no_sys Map.empty Map.empty (cbuf w) 0 w"
  using fresh_conforms [of w] by (simp add: scene_def scenery_def fresh_world_def no_objects_def)

lemma owning_nothing: "owning (vals Map.empty) (vals Map.empty) (vals Map.empty) (vals Map.empty) = no_sys"
  by (simp add: owning_def no_sys_def)

lemma settled_nothing: "settled no_sys"
  by (simp add: settled_def no_sys_def)

lemma scene_freed:
  assumes "scene no_sys Map.empty Map.empty K n w"
  shows "no_objects w \<and> boxes w = (\<lambda>_. {})"
proof -
  have c: "conforms no_sys w" "pending w = []" using assms by (simp_all add: scene_def)
  have "values_ok no_sys w" using c(1) by (simp add: conforms_def holders_ok_def)
  then have objs: "no_objects w"
    using scene_objects [OF assms] unfolding values_ok_def no_objects_def no_sys_def owns_def
    by (auto simp: fun_eq_iff)
  have "boxes w k = {}" for k
  proof (cases "k = KStr")
    case True
    then show ?thesis using conforms_strings(1) [OF c(1) objs] by (auto simp: no_sys_def)
  next
    case False
    then show ?thesis using conforms_no_leak [OF c(1) objs _ c(2)] by (simp add: nothing_held_def no_sys_def)
  qed
  with objs show ?thesis by auto
qed

lemma program_safe:
  fixes E :: "('s, 'c, 'm, 'q) env" and body :: "(('s, 'c, 'm, 'q, 'z) xw_scheme, int \<times> line list) prog"
  assumes "crate_laws E" "fresh_world w" "neutral no_sys Map.empty (cbuf w) 0 n' body" "yields succeeded body"
  shows "\<exists>r w'. catching rq body w = Inr (r, w')
    \<and> (case r of Threw e \<Rightarrow> False | Waiting \<Rightarrow> True
       | Done (code, out) \<Rightarrow> no_objects w' \<and> boxes w' = (\<lambda>_. {})
           \<and> ((code = 0 \<and> printed out) \<or> (code = - 1 \<and> (\<exists>k s. out = [PrintConnectionError k s]))))"
proof -
  obtain r w' where r: "catching rq body w = Inr (r, w')" "\<And>e. r \<noteq> Threw e"
    "\<And>a. r = Done a \<Longrightarrow> scene no_sys Map.empty Map.empty (cbuf w) n' w' \<and> (succeeded a \<or> (\<exists>k s. a = (- 1, [PrintConnectionError k s])))"
    using caught_all [OF assms(1,3) settled_nothing assms(4) fresh_scene [OF assms(2)]] by blast
  have "case r of Threw e \<Rightarrow> False | Waiting \<Rightarrow> True
       | Done (code, out) \<Rightarrow> no_objects w' \<and> boxes w' = (\<lambda>_. {})
           \<and> ((code = 0 \<and> printed out) \<or> (code = - 1 \<and> (\<exists>k s. out = [PrintConnectionError k s])))"
  proof (cases r)
    case (Done a)
    with r(3) scene_freed show ?thesis by (cases a) (fastforce simp: succeeded_def)
  next
    case (Threw e)
    with r(2) show ?thesis by blast
  qed simp
  with r(1) show ?thesis by blast
qed

lemma connect_steps:
  "any_schedule sched \<Longrightarrow> \<forall>x \<in> set (sched hConnect). runtime_step True x"
  using any_schedule_def [of sched] by (metis zero_neq_one)

subsection \<open>Concrete runs\<close>

definition ex_schedule :: "handler \<Rightarrow> sysop list" where
  "ex_schedule h = TaskStart 0 # (if h = hConnect then [TaskFinish 0 (RClient 7)]
     else if h = hSubscribe then [TaskFinish 0 (RSubscriber 2)] else if h = hPublish then [TaskFinish 0 ROk]
     else [ReceivePolls 0])"

lemmas example_defs = cpp20_coroutine_def custom_allocator_def allocator_task_def example_task_def catching_def
  runtime_local_def options_local_def connection_local_def copy_local_def subscribtion_local_def string_local_def
  publish_await_def received_local_def print_message_def scoped_def osq_def obnd_def lift_def gives_def await_def
  get_connection_def get_subscribtion_def get_void_def get_message_def std_string_def std_string_dtor_def view_of_def
  literal_def ex_schedule_def

lemma ex_start_subscribtions:
  "subscribers ex_start = (\<lambda>_. ([ex_message], False))" "sds ex_start = (\<lambda>_. [])" "droppers ex_start = []"
  "pumps ex_start = [(ex_sub, 9)]" "sender_tasks ex_start = [(6, SIdle)]"
  by (simp_all add: ex_start_def ex_xw_def rw.defs ex_rw_def dw.defs ex_dw_def aw.defs ex_aw_def sw.defs ex_sw_def nw.defs)

lemma ex_pop: "pop ex_crates (m # ms, False) l = Some (Inr (Ready (Some m), (ms, False), l))"
  by (subst pop.simps) (simp add: ex_crates_def)

lemmas run_defs = example_defs session_defs cm_simps accessor_defs
  Connection_copy_ctor_def async_nats_connection_clone_def sd_channel_new_def AsyncNatsSubscribtion_new_def
  Subscribtion_from_raw_def Subscribtion_dtor_def async_nats_subscribtion_delete_def
  ConnectionOptions_name_def ConnectionOptions_address_def async_nats_connection_config_name_def
  async_nats_connection_config_addr_def
  poll_receive_def receive_poll_def subscribtion_pop_def ex_pop sd_try_send_def Message_from_raw_def Message_dtor_def
  Message_bool_def async_nats_message_delete_def pop_response_def cstr_lossy_convert_def c_str_def
  ex_start_subscribtions message_into_def ex_message_def

lemmas mailbox_defs = mailbox_local_def Connection_new_mailbox_def async_nats_connection_mailbox_def
  string_to_owned_string_def OwnedString_ctor_def OwnedString_dtor_def async_nats_owned_string_delete_def
  OwnedString_c_str_def cstr_ptr_def

lemma ex_coroutine_runs:
  "\<exists>w'. cpp20_coroutine ex_env None ex_schedule 0 ex_start
    = Inr (Done (0, [PrintMessage (bs ''test'') (bs ''hello'')]), w')"
  by (simp add: run_defs)

lemma ex_allocator_runs:
  "\<exists>w'. custom_allocator ex_env None ex_schedule 0 ex_start
    = Inr (Done (0, [PrintMessage (bs ''test'') (bs ''hello'')]), w')"
  by (simp add: run_defs)

definition ex_refused :: "handler \<Rightarrow> sysop list" where
  "ex_refused h = [TaskStart 0, TaskFinish 0 (RConnectError Kind_Io (bs ''refused''))]"

lemma ex_refused_runs:
  "\<exists>w'. cpp20_coroutine ex_env None ex_refused 0 ex_start
    = Inr (Done (- 1, [PrintConnectionError AsyncNats_ConnectIo (bs ''refused'')]), w')"
  by (simp add: run_defs ex_refused_def ConnectionError_ctor_def ConnectionError_kind_def async_nats_connection_error_kind_def
      ConnectionError_what_def async_nats_connection_error_describtion_def string_to_owned_string_def
      ConnectionError_dtor_def async_nats_connection_error_delete_def opt_destroy_def async_nats_owned_string_delete_def
      cstr_ptr_def connect_error_new_def)

lemma ex_schedules: "any_schedule ex_schedule" "any_schedule ex_refused"
  by (auto simp: any_schedule_def runtime_step_def ex_schedule_def ex_refused_def bs_def)

lemma ex_environment:
  "runtime_new (e_tokio ex_env) (runtime_config_default None) = Inr \<lparr>rt_threads = 1, rt_name = bs ''tokio_runtime''\<rparr>"
  "e_parse ex_env (through_c_str b) = Some (through_c_str b)" "cbuf ex_start bMessage = None"
  by (simp_all add: ex_env_def runtime_new_def runtime_config_default_def)

subsection \<open>Properties\<close>

text \<open>
  C9: example/cpp20\_coroutine.cpp is correct under every schedule. Whatever the runtime and the server do
  between its operations (in any order and any number of steps, with connections refused, subscriptions
  ended and any messages received, as long as no subscription fails), the program never runs into undefined
  behaviour, a panic, an assertion or an uncaught exception; it waits for an operation that has not been
  answered, or it ends, with code 0 and nothing but the message printed, or with code -1 and the report of the connection error, and then it has
  destroyed all its objects and the library has freed every box.
\<close>

theorem cpp20_coroutine_safe:
  fixes E :: "('s, 'c, 'm, 'q) env" and w :: "('s, 'c, 'm, 'q, 'z) xw_scheme"
  assumes "crate_laws E" "fresh_world w" "cbuf w bMessage = None" "any_schedule sched"
    and "runtime_new (e_tokio E) (runtime_config_default ap) = Inr rt"
    and "e_parse E (through_c_str (bs ''nats://localhost:4222'')) = Some addr"
  shows "\<exists>r w'. cpp20_coroutine E ap sched thread w = Inr (r, w')
    \<and> (case r of Threw e \<Rightarrow> False | Waiting \<Rightarrow> True
       | Done (code, out) \<Rightarrow> no_objects w' \<and> boxes w' = (\<lambda>_. {})
           \<and> ((code = 0 \<and> printed out) \<or> (code = - 1 \<and> (\<exists>k s. out = [PrintConnectionError k s]))))"
  unfolding cpp20_coroutine_def
proof (rule program_safe [where n' = 4, OF assms(1,2)])
  have "neutral (owning (vals [oRuntime \<mapsto> Some rt]) (vals [oOptions \<mapsto> Some p]) (vals [oConnection \<mapsto> Some c]) (vals Map.empty))
      Map.empty (cbuf w) 1 4 (obnd (copy_local (example_task E sched thread oCopy)) (\<lambda>out. gives (0, out))
        :: (('s, 'c, 'm, 'q, 'z) xw_scheme, int \<times> line list) prog)" for p c
    by (rule neutral_obnd [OF neutral_copy [OF assms(1) neutral_example_task [where sched = sched, OF assms(1,4)]] neutral_gives])
      (use assms(3) in \<open>simp_all add: held_def\<close>)
  then show "neutral no_sys Map.empty (cbuf w) 0 4 (runtime_local E ap (options_local E (connection_local E sched
      (obnd (copy_local (example_task E sched thread oCopy)) (\<lambda>out. gives (0, out)))))
        :: (('s, 'c, 'm, 'q, 'z) xw_scheme, int \<times> line list) prog)"
    unfolding owning_nothing [symmetric]
    by (intro neutral_runtime [OF assms(1,5)] neutral_options [OF assms(1,6)]
        neutral_connection [where sched = sched, OF assms(1) connect_steps [OF assms(4)]]) simp_all
qed (intro yields_locals yields_success yields_example_task yields_allocator_task)

theorem cpp20_coroutine_safe_witness:
  "\<exists>w'. cpp20_coroutine ex_env None ex_schedule 0 ex_start
    = Inr (Done (0, [PrintMessage (bs ''test'') (bs ''hello'')]), w') \<and> boxes w' = (\<lambda>_. {})"
proof -
  obtain w' where w': "cpp20_coroutine ex_env None ex_schedule 0 ex_start
      = Inr (Done (0, [PrintMessage (bs ''test'') (bs ''hello'')]), w')"
    using ex_coroutine_runs by blast
  with cpp20_coroutine_safe [OF ex_env_laws ex_start_fresh ex_environment(3) ex_schedules(1) ex_environment(1,2), of 0]
  show ?thesis by auto
qed

text \<open>
  C10: the same holds of example/custom\_allocator.cpp, where the coroutine itself connects and what it throws
  reaches \<open>main\<close> through the future.
\<close>

theorem custom_allocator_safe:
  fixes E :: "('s, 'c, 'm, 'q) env" and w :: "('s, 'c, 'm, 'q, 'z) xw_scheme"
  assumes "crate_laws E" "fresh_world w" "cbuf w bMessage = None" "any_schedule sched"
    and "runtime_new (e_tokio E) (runtime_config_default ap) = Inr rt"
    and "e_parse E (through_c_str (bs ''nats://localhost:4222'')) = Some addr"
  shows "\<exists>r w'. custom_allocator E ap sched thread w = Inr (r, w')
    \<and> (case r of Threw e \<Rightarrow> False | Waiting \<Rightarrow> True
       | Done (code, out) \<Rightarrow> no_objects w' \<and> boxes w' = (\<lambda>_. {})
           \<and> ((code = 0 \<and> printed out) \<or> (code = - 1 \<and> (\<exists>k s. out = [PrintConnectionError k s]))))"
  unfolding custom_allocator_def
proof (rule program_safe [where n' = 4, OF assms(1,2)])
  have "neutral (owning (vals [oRuntime \<mapsto> Some rt]) (vals [oOptions \<mapsto> Some p]) (vals [oConnection \<mapsto> Some c]) (vals Map.empty))
      Map.empty (cbuf w) 1 4 (example_task E sched thread oConnection :: (('s, 'c, 'm, 'q, 'z) xw_scheme, line list) prog)" for p c
    by (rule neutral_example_task [where sched = sched, OF assms(1,4)]) (use assms(3) in \<open>simp_all add: held_def\<close>)
  then have "neutral (owning (vals [oRuntime \<mapsto> Some rt]) (vals Map.empty) (vals Map.empty) (vals Map.empty))
      Map.empty (cbuf w) 0 4 (allocator_task E sched thread :: (('s, 'c, 'm, 'q, 'z) xw_scheme, line list) prog)"
    unfolding allocator_task_def
    by (intro neutral_options [OF assms(1,6)]
        neutral_connection [where sched = sched, OF assms(1) connect_steps [OF assms(4)]]) simp_all
  then show "neutral no_sys Map.empty (cbuf w) 0 4 (runtime_local E ap (obnd (allocator_task E sched thread) (\<lambda>out. gives (0, out)))
        :: (('s, 'c, 'm, 'q, 'z) xw_scheme, int \<times> line list) prog)"
    unfolding owning_nothing [symmetric]
    by (intro neutral_runtime [OF assms(1,5)] neutral_obnd [OF _ neutral_gives]) simp_all
qed (intro yields_locals yields_success yields_example_task yields_allocator_task)

theorem custom_allocator_safe_witness:
  "\<exists>w'. custom_allocator ex_env None ex_schedule 0 ex_start
    = Inr (Done (0, [PrintMessage (bs ''test'') (bs ''hello'')]), w') \<and> boxes w' = (\<lambda>_. {})"
proof -
  obtain w' where w': "custom_allocator ex_env None ex_schedule 0 ex_start
      = Inr (Done (0, [PrintMessage (bs ''test'') (bs ''hello'')]), w')"
    using ex_allocator_runs by blast
  with custom_allocator_safe [OF ex_env_laws ex_start_fresh ex_environment(3) ex_schedules(1) ex_environment(1,2), of 0]
  show ?thesis by auto
qed

end
