(* ===== verification/Sessions.thy ===== *)
theory Sessions
  imports Coroutines
begin

text \<open>
  Runs of the examples on concrete inputs: what they print when everything succeeds, and the inputs on
  which they break the rules of the library.
\<close>

subsection \<open>A subscription that fails\<close>

definition ex_unsubscribed :: "handler \<Rightarrow> sysop list" where
  "ex_unsubscribed h = (if h = hSubscribe then [TaskStart 0, TaskFinish 0 (RFailed (bs ''no''))] else ex_schedule h)"

text \<open>
  The coroutine examples do not test the subscription they are given. A failed one is a
  \<open>Subscribtion\<close> that holds null, and the first \<open>receive\<close> dereferences it.
\<close>

theorem failed_subscribtion_breaks:
  "cpp20_coroutine ex_env None ex_unsubscribed 0 ex_start = Inl (UB NullDeref)
    \<and> custom_allocator ex_env None ex_unsubscribed 0 ex_start = Inl (UB NullDeref)"
  by (simp add: run_defs ex_unsubscribed_def string_to_owned_string_def)

subsection \<open>Requests\<close>

definition ex_exchange :: "handler \<Rightarrow> sysop list" where
  "ex_exchange h = (if h = hReceive then [TaskStart 1, ReceivePolls 1] else if h = hPublish then [TaskStart 1, TaskFinish 1 ROk]
     else if h = hRequest then [TaskStart 0, TaskFinish 0 (RMessage (ex_message\<lparr>payload := bs ''hi''\<rparr>))] else ex_schedule h)"

lemmas request_defs = requests_def requests_main_def get_reply_def reply_text_def ex_exchange_def mailbox_defs

lemma ex_requests_runs:
  "\<exists>w'. requests ex_env None ex_exchange 0 ex_start
    = Inr (Done (0, [PrintRequest (bs ''test'') (bs ''hello'') (bs ''inbox''), PrintReplying (bs ''inbox''),
        PrintMessage (bs ''test'') (bs ''hi'')]), w')"
  by (simp add: run_defs request_defs)

definition ex_plain :: "(nats_message list \<times> bool, chan_view, nat, sender_message list \<times> bool) xw" where
  "ex_plain = ex_start\<lparr>subscribers := \<lambda>_. ([ex_message\<lparr>reply := None\<rparr>], False),
     rts := [9 \<mapsto> \<lparr>rt_threads = 1, rt_name = []\<rparr>], rtobjs := [oRuntime \<mapsto> 9], brk := 10\<rparr>"

text \<open>
  A requests.cpp that receives a message without a reply subject returns from \<open>main\<close> while its request
  is pending: the connection is freed, the runtime is not yet, and a worker that then polls the task of the
  request reads the freed connection.
\<close>

theorem requests_leaves_request:
  "\<exists>w'. requests_main ex_env ex_exchange 0 ex_plain = Inr (Done (1, []), w') \<and> rts w' \<noteq> Map.empty \<and> conns w' = Map.empty
    \<and> sysstep ex_env (TaskStart 0) w' = Inl (UB UseAfterFree)"
  by (simp add: run_defs request_defs ex_plain_def)

subsection \<open>The non-blocking interface\<close>

definition ex_mailbox :: "handler \<Rightarrow> sysop list" where
  "ex_mailbox h = (if h = hReceive then [SenderTakes 1, PumpRuns 1] else ex_schedule h)"

lemmas nonblocking_defs = nonblocking_def request_defs ex_mailbox_def receiver_wait_def Receiver_ctor_def
  Subscribtion_release_raw_def async_nats_named_receiver_new_def AsyncNatsNamedReceiver_new_def Receiver_default_capacity_def
  Receiver_receive_def async_nats_named_receiver_recv_def Receiver_dtor_def async_nats_named_receiver_delete_def
  chan_call_def chan_modify_def ex_chan_def Sender_ctor_default_def Sender_ctor_def Sender_default_capacity_def
  async_nats_named_sender_new_def with_capacity_def ex_tokio_def Sender_dtor_def async_nats_named_sender_delete_def
  Sender_send_def async_nats_named_sender_send_def inner_acquire_def inner_enqueue_def inner_store_def bytes_copy_def
  message_topic_def arc_drop_def pump_once_def pump_step_def sender_task_recv_def task_recv.simps

lemma ex_nonblocking_runs:
  "\<exists>w'. nonblocking ex_env None ex_mailbox 0 ex_start
    = Inr (Done (0, [PrintMessage (bs ''test'') (bs ''hello'')]), w')"
  by (simp add: run_defs nonblocking_defs)

lemma ex_pop_end: "pop ex_crates ([], True) l = Some (Inr (Ready None, ([], True), l))"
  by (subst pop.simps) (simp add: ex_crates_def)

text \<open>
  nonblocking.cpp does not test the message it is given. When the subscription has ended, \<open>receive\<close>
  returns an empty \<open>Message\<close>, whose \<open>topic\<close> stops at its assertion.
\<close>

theorem ended_subscribtion_breaks:
  "nonblocking ex_env None ex_mailbox 0 (ex_start\<lparr>subscribers := \<lambda>_. ([], True)\<rparr>) = Inl (AssertFail null_check)"
  by (simp add: run_defs nonblocking_defs ex_pop_end)

end
