(* ===== verification/ReplyTo.thy ===== *)
theory ReplyTo
  imports Coroutines
begin

text \<open>
  example/reply\_to.cpp: two coroutines on one \<open>io_context\<close>, as state machines whose steps are the code
  from one \<open>co_await\<close> to the next, and the loop that runs them in any order with the steps of the runtime.
\<close>

subsection \<open>The coroutines\<close>

abbreviation (input) "oReplySub \<equiv> 12 :: oid"
abbreviation (input) "oReplierConn \<equiv> 13 :: oid"
abbreviation (input) "oReplierSub \<equiv> 14 :: oid"
abbreviation (input) "oText \<equiv> 15 :: oid"
abbreviation (input) "hInbox \<equiv> 5 :: handler"
abbreviation (input) "hReplier \<equiv> 6 :: handler"
abbreviation (input) "hReply \<equiv> 7 :: handler"

text \<open>Where a coroutine is: the operation it awaits. A spawned coroutine waits for its first turn.\<close>

datatype requester_at = Posted | Subscribing | OpeningInbox | Publishing | Receiving | Returned

datatype replier_at = Unborn | Spawned | Listening | Replying | Ended

record tasks_at =
  ta_requester :: requester_at
  ta_replier :: replier_at
  ta_out :: "line list"

text \<open>A coroutine goes on when the handler of the operation it awaits has been called.\<close>

definition resumed :: "handler \<Rightarrow> tasks_at \<Rightarrow> (completion \<Rightarrow> (('s, 'c, 'm, 'q, 'z) xw_scheme, tasks_at) cm)
    \<Rightarrow> (('s, 'c, 'm, 'q, 'z) xw_scheme, tasks_at) cm" where
  "resumed h t f = bnd (gets (\<lambda>w. map_of (calls w) h)) (\<lambda>c. case c of None \<Rightarrow> ret t | Some c \<Rightarrow> f c)"

definition adopt_subscribtion :: "oid \<Rightarrow> completion \<Rightarrow> (('s, 'c, 'm, 'q, 'z) xw_scheme, unit) cm" where
  "adopt_subscribtion i c = (case c of CSubscribtion p \<Rightarrow> Subscribtion_from_raw i p | _ \<Rightarrow> wrong_completion)"

definition adopt_message :: "oid \<Rightarrow> completion \<Rightarrow> (('s, 'c, 'm, 'q, 'z) xw_scheme, unit) cm" where
  "adopt_message i c = (case c of CMessage p \<Rightarrow> Message_from_raw i p | _ \<Rightarrow> wrong_completion)"

definition check_void :: "completion \<Rightarrow> (('s, 'c, 'm, 'q, 'z) xw_scheme, unit) cm" where
  "check_void c = (case c of CVoid \<Rightarrow> ret () | _ \<Rightarrow> wrong_completion)"

text \<open>
  The replier owns a copy of the connection and the subscription that was moved into its frame; its end
  destroys its locals and then its parameters.
\<close>

definition replier_ends :: "tasks_at \<Rightarrow> (('s, 'c, 'm, 'q, 'z) xw_scheme, tasks_at) cm" where
  "replier_ends t =
     sq (Message_dtor oMsg) (sq (Subscribtion_dtor oReplierSub) (sq (Connection_dtor oReplierConn)
       (ret (t\<lparr>ta_replier := Ended\<rparr>))))"

definition replier :: "nat \<Rightarrow> tasks_at \<Rightarrow> (('s, 'c, 'm, 'q, 'z) xw_scheme, tasks_at) cm" where
  "replier thread t =
     (case ta_replier t of
        Spawned \<Rightarrow> sq (Subscribtion_receive oReplierSub hReplier) (ret (t\<lparr>ta_replier := Listening\<rparr>))
      | Listening \<Rightarrow> resumed hReplier t (\<lambda>c.
          sq (adopt_message oMsg c)
          (bnd (Message_bool oMsg) (\<lambda>ok.
           if \<not> ok then replier_ends t
           else bnd (bnd (Message_data oMsg) view_bytes) (\<lambda>d.
                sq (std_string bReply (bs ''Hello, '' @ d))
                (bnd (Message_reply_to oMsg) (\<lambda>reply_to.
                 case reply_to of
                   None \<Rightarrow> sq (std_string_dtor bReply) (replier_ends t)
                 | Some r \<Rightarrow>
                     sq (Connection_publish thread oReplierConn hReply r (View (DBuf bReply) (of_nat (7 + length d))))
                       (ret (t\<lparr>ta_replier := Replying\<rparr>))))))))
      | Replying \<Rightarrow> resumed hReply t (\<lambda>c. sq (check_void c) (sq (std_string_dtor bReply) (replier_ends t)))
      | _ \<Rightarrow> ret t)"

definition requester_ends :: "tasks_at \<Rightarrow> (('s, 'c, 'm, 'q, 'z) xw_scheme, tasks_at) cm" where
  "requester_ends t =
     sq (Message_dtor oReply) (sq (std_string_dtor bMessage) (sq (Subscribtion_dtor oReplySub) (sq (OwnedString_dtor oMailbox)
       (sq (Subscribtion_dtor oSub) (sq (Connection_dtor oCopy) (ret (t\<lparr>ta_requester := Returned\<rparr>)))))))"

definition requester :: "('s, 'c, 'm, 'q) env \<Rightarrow> nat \<Rightarrow> tasks_at \<Rightarrow> (('s, 'c, 'm, 'q, 'z) xw_scheme, tasks_at) cm" where
  "requester E thread t =
     (case ta_requester t of
        Posted \<Rightarrow> sq (Connection_subcribe oCopy hSubscribe (literal ''test'')) (ret (t\<lparr>ta_requester := Subscribing\<rparr>))
      | Subscribing \<Rightarrow> resumed hSubscribe t (\<lambda>c.
          sq (adopt_subscribtion oSub c)
          (sq (Connection_copy_ctor oReplierConn oCopy)
          (sq (Subscribtion_move_ctor oReplierSub oSub)
          (sq (Connection_new_mailbox (e_inbox E) oCopy oMailbox)
          (bnd (OwnedString_c_str oMailbox) (\<lambda>inbox.
           sq (Connection_subcribe oCopy hInbox inbox)
             (ret (t\<lparr>ta_requester := OpeningInbox, ta_replier := Spawned\<rparr>))))))))
      | OpeningInbox \<Rightarrow> resumed hInbox t (\<lambda>c.
          sq (adopt_subscribtion oReplySub c)
          (sq (std_string bMessage (bs ''world''))
          (bnd (OwnedString_view oMailbox) (\<lambda>reply_to.
           sq (Connection_publish_reply thread oCopy hPublish (view_of ''test'') reply_to (View (DBuf bMessage) 5))
             (ret (t\<lparr>ta_requester := Publishing\<rparr>))))))
      | Publishing \<Rightarrow> resumed hPublish t (\<lambda>c.
          sq (check_void c)
            (sq (Subscribtion_receive oReplySub hReceive) (ret (t\<lparr>ta_requester := Receiving\<rparr>))))
      | Receiving \<Rightarrow> resumed hReceive t (\<lambda>c.
          sq (adopt_message oReply c)
          (sq (Message_to_string (e_debug E) oReply oText)
          (bnd (bnd (OwnedString_view oText) view_bytes) (\<lambda>s.
           sq (OwnedString_dtor oText) (requester_ends (t\<lparr>ta_out := ta_out t @ [PrintText s]\<rparr>))))))
      | Returned \<Rightarrow> ret t)"

subsection \<open>The program\<close>

text \<open>
  \<open>ctx.run()\<close> resumes the coroutines that are ready, one at a time, until both have ended; in between the
  runtime and the server take their steps.
\<close>

datatype turn = Background sysop | Requester | Replier

fun ctx_turn :: "('s, 'c, 'm, 'q) env \<Rightarrow> nat \<Rightarrow> turn \<Rightarrow> tasks_at \<Rightarrow> (('s, 'c, 'm, 'q, 'z) xw_scheme, tasks_at) cm" where
  "ctx_turn E thread (Background x) t = sq (sysstep E x) (ret t)"
| "ctx_turn E thread Requester t = requester E thread t"
| "ctx_turn E thread Replier t = replier thread t"

fun ctx_run :: "('s, 'c, 'm, 'q) env \<Rightarrow> nat \<Rightarrow> turn list \<Rightarrow> tasks_at \<Rightarrow> (('s, 'c, 'm, 'q, 'z) xw_scheme, line list) prog" where
  "ctx_run E thread [] t =
     (if ta_requester t = Returned \<and> ta_replier t \<in> {Unborn, Ended} then gives (ta_out t) else ret Waiting)"
| "ctx_run E thread (x # xs) t = bnd (ctx_turn E thread x t) (ctx_run E thread xs)"

definition reply_to :: "('s, 'c, 'm, 'q) env \<Rightarrow> usize option \<Rightarrow> (handler \<Rightarrow> sysop list) \<Rightarrow> nat \<Rightarrow> turn list
    \<Rightarrow> (('s, 'c, 'm, 'q, 'z) xw_scheme, int \<times> line list) prog" where
  "reply_to E ap sched thread turns =
     catching False
       (runtime_local E ap (options_local E (connection_local E sched
         (osq (lift (Connection_copy_ctor oCopy oConnection))
           (obnd (ctx_run E thread turns \<lparr>ta_requester = Posted, ta_replier = Unborn, ta_out = []\<rparr>)
             (\<lambda>out. gives (0, out)))))))"

subsection \<open>Concrete runs\<close>

definition ex_turns :: "turn list" where
  "ex_turns = [Requester, Background (TaskStart 0), Background (TaskFinish 0 (RSubscriber 2)), Requester,
     Background (TaskStart 0), Background (TaskFinish 0 (RSubscriber 3)), Requester, Replier,
     Background (TaskStart 0), Background (TaskStart 1), Background (TaskFinish 0 ROk), Requester,
     Background (ReceivePolls 0), Replier, Background (TaskStart 1), Background (TaskFinish 1 ROk), Replier,
     Background (TaskStart 0), Background (ReceivePolls 0), Requester]"

definition ex_turns' :: "turn list" where
  "ex_turns' = [Requester, Background (TaskStart 0), Background (TaskFinish 0 (RSubscriber 2)), Requester, Replier,
     Background (TaskStart 1), Background (ReceivePolls 1), Replier, Background (TaskStart 1), Background (TaskFinish 1 ROk),
     Replier, Background (TaskStart 0), Background (TaskFinish 0 (RSubscriber 3)), Replier, Requester,
     Background (TaskStart 0), Background (TaskFinish 0 ROk), Requester,
     Background (TaskStart 0), Background (ReceivePolls 0), Requester]"

lemmas reply_to_defs = mailbox_defs reply_to_def resumed_def adopt_subscribtion_def adopt_message_def check_void_def
  replier_ends_def replier_def requester_ends_def requester_def Subscribtion_move_ctor_def OwnedString_view_def
  Message_to_string_def async_nats_message_to_string_def

lemma ex_reply_to_runs:
  "\<exists>w'. reply_to ex_env None ex_schedule 0 ex_turns ex_start = Inr (Done (0, [PrintText (bs ''message'')]), w')
    \<and> conns w' = Map.empty \<and> subs w' = Map.empty \<and> msgs w' = Map.empty \<and> strs w' = Map.empty \<and> pending w' = []"
  by (simp add: run_defs reply_to_defs ex_turns_def)

text \<open>The other order: the replier answers before the inbox is open.\<close>

lemma ex_reply_to_runs':
  "\<exists>w'. reply_to ex_env None ex_schedule 0 ex_turns' ex_start = Inr (Done (0, [PrintText (bs ''message'')]), w')
    \<and> conns w' = Map.empty \<and> subs w' = Map.empty \<and> msgs w' = Map.empty \<and> strs w' = Map.empty \<and> pending w' = []"
  by (simp add: run_defs reply_to_defs ex_turns'_def)

end
