(* ===== verification/Spec2Isabelle.thy ===== *)
theory Spec2Isabelle
  imports Library Shutdown Config Sessions ReplyTo
begin

text \<open>
  Verification of async\_nats.cpp, a C++ binding of the Rust NATS client async\_nats.

  \<^bold>\<open>The program.\<close> A Rust library (rust/src) wraps the client in a C API: functions that take and return
  raw pointers to boxes and spawn tasks on a tokio runtime. Header-only C++ classes
  (include/async\_nats) wrap each kind of raw pointer in an object that owns it, and turn the callbacks
  of the C API into completion handlers of boost::asio. Messages come back as boxes with an atomic
  reference counter, errors and connections as boxes, strings as C strings, headers through an
  iterator box that borrows its message. A subscription is received from directly, cancelled through
  tokens, or handed to a non-blocking receiver; a non-blocking sender queues messages for a task.

  \<^bold>\<open>The model.\<close> A function with effects is a function from a world to a fault or a result with a new
  world (type \<open>cm\<close> of the theory Prelude). A fault is undefined behaviour (null or dangling access,
  double free, out-of-bounds read, use of a dead object), a panic, a failed assertion, an exception.
  The world is a record that each theory extends by its own heap components (one map from addresses to
  boxes for each kind of box, with one allocation limit for all) and by the live objects of its C++
  classes; \<open>this\<close> is an object identity. An address is never reused, so that a dangling pointer is seen
  as one. Definitions carry the names of the source; a member function \<open>f\<close> of a class \<open>C\<close> is \<open>C_f\<close>.

  \<^bold>\<open>The theories\<close>, in the order in which they build on one another:

  \<^item> Prelude: machine types, faults, computations and their execution lemmas (collection \<open>cm_simps\<close>), the
    Rust allocator (\<open>box_into_raw\<close>, \<open>deref\<close>, \<open>box_from_raw\<close>), C++ objects.
  \<^item> Handles, Boxes, Values: the three library contracts as locales. Handles: a class whose objects hold
    counted references (\<open>owning_handle\<close>, \<open>cloning_handle\<close>); every well-scoped program over such objects
    runs without a fault and keeps counters equal to holders. Boxes: the two kinds of box of the Rust
    side and what their delete and clone functions do (\<open>rc_box\<close>, \<open>rc_clone_box\<close>, \<open>own_box\<close>). Values: a
    class whose objects own their boxes alone (\<open>value_handle\<close>, and \<open>value_class\<close> with constructors and
    setters) refines an abstract machine in which an object is an optional value.
  \<^item> Utf8, Api: \<open>String::from_utf8_lossy\<close>, slices, C strings, \<open>OwnedString\<close> (api.rs, owned\_string.h).
  \<^item> Message, Headers: message.rs and message.hpp: \<open>Message\<close>, \<open>HeadersView\<close>, \<open>HeaderIterator\<close>,
    \<open>HeaderVectorView\<close> and its iterator. Programs are safe and leak nothing, views stay valid while a
    holder is left, iteration visits every header once and terminates.
  \<^item> Errors: error.rs, \<open>ConnectionError\<close> and \<open>RequestError\<close> with their cached texts (locale
    \<open>error_class\<close>).
  \<^item> Builders: request.rs, tokio\_runtime.rs, the options of connection.rs and their classes.
  \<^item> Connection: the connection box and the class \<open>Connection\<close>.
  \<^item> Subscribtion: the boxes and classes of subscribtion.rs and subscribtion.hpp; no subscription is lost,
    each is unsubscribed once by the task its deletion spawns.
  \<^item> Async: the asynchronous operations as tasks with contexts and callbacks (helpers.hpp, connection.rs,
    request.rs, subscribtion.rs). A step relation \<open>astep\<close> interleaves calls, starts and ends of tasks and
    anything else that leaves contexts alone; by rule induction every handler is called exactly once for
    each operation. As long as what the tasks borrow is alive they do not fault and can all finish.
  \<^item> Delivery: \<open>Subscribtion::pop\<close>, the receiving task and the task that drops a deleted subscription.
    \<open>pop\<close> is a \<open>partial_function\<close>, proved to return and to equal a specification by cases; messages
    are delivered in order and a cancelled subscription drains; a poll is a path of \<open>astep\<close>.
  \<^item> Receiver: named\_receiver.rs and receiver.hpp: the class, the forwarding task and the bounded channel;
    order, capacity, and the count of receivers.
  \<^item> Sender: named\_sender.rs and sender.hpp: the class, the shared inner state with its \<open>Arc\<close> count, the
    permits and the publishing task; the permit invariant, order of publication, what a failed
    publication leaves behind.
  \<^item> Config: config.rs, the configuration of an earlier interface.
  \<^item> Typing: the memory of the whole library. \<open>boxes w k\<close> are the addresses of the boxes of kind \<open>k\<close>;
    \<open>heap_typed\<close> says that each address is of one kind and below the allocation limit, \<open>heap_ext\<close> that
    no address changes its kind; \<open>typed_op\<close> holds of every function of the library.
  \<^item> System: one alphabet \<open>sysop\<close> of everything a program can do with the objects of all classes, and of
    what the runtime and the server do (starts and ends of tasks, polls, arriving messages, the tasks of
    receivers and senders), with its step function \<open>sysstep\<close>.
  \<^item> Program: \<open>holders_ok S w\<close>, the invariants of all classes put together over an abstract state \<open>S\<close> of
    the values the objects and raw pointers own; the rules \<open>spec\<close> of a program, an executable function
    that says which operation is allowed and what it does to \<open>S\<close>; each class keeps the whole invariant.
  \<^item> Iterators, Progress, Composition: the same for header iterators, sending, initiations and the tasks,
    up to \<open>system_step\<close>: a step the rules allow runs and what is owned afterwards is what the rules say.
    \<open>counts\<close> marks the operations that may add a reference to a counted box, \<open>room\<close> asks that its counter
    does not overflow. \<open>keeps_borrows\<close> marks the steps that cannot take away what a pending task borrows;
    a program must not do so itself.
  \<^item> Interleaving: every run of the whole library is an execution of the asynchronous operations.
  \<^item> Shutdown: a runtime that is destroyed while operations are pending strands their handlers.
  \<^item> Library: the programs that follow the rules (\<open>reaches\<close>): progress and preservation, no leak, every
    operation can complete whatever the server answers.
  \<^item> Examples, ReplyTo: the programs of the directory example as computations over the same world. A part of
    a program ends with a value, with an exception or waiting (\<open>outcome\<close>); \<open>scoped\<close> is the lifetime of a
    local object, \<open>await\<close> lets the runtime and the server take any steps and then looks for the completion,
    \<open>catching\<close> are the handlers of \<open>main\<close>. The two coroutines of reply\_to.cpp are state machines that
    \<open>ctx_run\<close> resumes in any order.
  \<^item> Clients, Scenes, Coroutines: cpp20\_coroutine.cpp and custom\_allocator.cpp are correct under every
    schedule. Clients: one call and all that the runtime may do with it (\<open>call_run\<close>), and a logic of
    programs that wait and throw (\<open>triple\<close>). Scenes: what a program owns between two operations (\<open>scene\<close>)
    and one lemma for each local object and each awaited operation (\<open>neutral\<close>), so that the proof of a
    program follows its text. Sessions: what the other examples do on concrete inputs, and where they break
    the rules of the library.

  \<^bold>\<open>Code outside the repository\<close> is a parameter of the definitions that use it, and what a theorem needs
  of it is a named hypothesis: \<open>header_laws\<close> (lookup in a header map), \<open>tokio_laws\<close> (the runtime
  builder), \<open>subscriber_laws\<close> and \<open>channel_laws\<close> (the subscriber, the cancellation channel, which is
  represented by its history), \<open>chan_laws\<close> (a crossbeam channel of positive capacity),
  \<open>semaphore_laws\<close> and \<open>queue_laws\<close> (tokio's semaphore and unbounded channel), the builder methods of
  a request, the parser of addresses, \<open>Client::new_inbox\<close>, Debug formatting. The witnesses instantiate
  them by concrete functions. The client and the scheduler are the environment of \<open>astep\<close>: any task may
  step next and any response of the right kind may come. Of the bytes crate only the copy through a
  \<open>BytesMut\<close> is modelled (\<open>bytes_copy\<close>), as appending to and splitting off the front of a byte list.

  \<^bold>\<open>Bounds and fuel.\<close> Reference counters and lengths are 64-bit words; the theorems on counted references
  assume room for as many references as the program has operations, below $2^{64}$, and those on views
  that lengths fit 64 bits. The loops of a client over headers and header values (\<open>header_loop\<close>,
  \<open>vv_loop\<close>) take fuel; any fuel above the number of entries is proved to be enough.

  \<^bold>\<open>Not modelled.\<close> Memory orderings and data races: a function, a callback and a poll of a task are
  atomic, so that two \<open>receive\<close> calls pending on one subscription, which alias its box mutably, are only
  interleaved. Which of its tasks tokio drops when a runtime is destroyed is a parameter (Shutdown), and
  the rules of a program do not restrict when it destroys one. \<open>boost::asio::async_initiate\<close> is taken to
  run the initiation once with the handler, and a handler is its identity. A crossbeam channel of
  capacity 0. The drop code of the crate's own types. errors.hpp (an empty exception class), the
  generated capi.h, the umbrella header, tests, benchmarks and build files. Of the examples: the destruction
  of coroutines that are still suspended, the allocators of custom\_allocator.cpp, and the text around what is
  printed; of reply\_to.cpp and nonblocking.cpp only runs are checked, not every schedule.
\<close>

subsection \<open>A message from the subscription to the program\<close>

text \<open>
  What the components do together. The message at the head of a subscription's queue, passed by the
  receiving task to the handler as a \<open>Message\<close> object, reads there as it was received, and the object
  holds the only reference to it.
\<close>

theorem received_message_reads:
  assumes "subscriber_laws c queue closed" "channel_laws c" "can_unsubscribe c"
    and "k < length (pending w)" "pending w ! k = (TReceive s ctx, True)"
    and "s \<noteq> null" "subs w s = Some b" "ctx \<noteq> null" "ctxs w ctx = Some h"
    and "queue (subscribers w (sb_sub b)) = m # ms" "msg_fits m" "0 < brk w"
  shows "\<exists>w' p. receive_poll c s ctx w = Some (Inr (True, w')) \<and> calls w' = calls w @ [(h, CMessage p)]
    \<and> queue (subscribers w' (sb_sub b)) = ms \<and> msg_refs (w'\<lparr>mobjs := [0 \<mapsto> p]\<rparr>) p = 1
    \<and> bnd (Message_data 0) view_bytes (w'\<lparr>mobjs := [0 \<mapsto> p]\<rparr>) = Inr (nats_message.payload m, w'\<lparr>mobjs := [0 \<mapsto> p]\<rparr>)"
proof -
  have t: "sub_abs c queue closed (subscribers w (sb_sub b)) (sds w (sb_sd b))
      = (m # ms, closed (subscribers w (sb_sub b)), cr_ready c (sds w (sb_sd b)))"
    using assms(10) by (simp add: sub_abs_def)
  obtain w' where w': "receive_poll c s ctx w = Some (Inr (True, w'))" "calls w' = calls w @ [(h, CMessage (brk w))]"
    "msgs w' = (msgs w)(brk w \<mapsto> message_into m)" "queue (subscribers w' (sb_sub b)) = ms"
    using receive_outcome [OF assms(1-9), unfolded t] by (auto simp: sub_abs_def)
  have "bnd (Message_data 0) view_bytes (w'\<lparr>mobjs := [0 \<mapsto> brk w]\<rparr>)
      = Inr (nats_message.payload m, w'\<lparr>mobjs := [0 \<mapsto> brk w]\<rparr>)"
    "msg_refs (w'\<lparr>mobjs := [0 \<mapsto> brk w]\<rparr>) (brk w) = 1"
    using w'(3) assms(11,12)
    by (auto simp: cm_simps message_into_def rc_refs_def accessor_defs msg_fits_def)
  with w' show ?thesis by blast
qed

theorem received_message_reads_witness:
  "\<exists>w' p. receive_poll ex_crates 5 7 ex_dw = Some (Inr (True, w')) \<and> calls w' = [(3, CMessage p)]
    \<and> bnd (Message_data 0) view_bytes (w'\<lparr>mobjs := [0 \<mapsto> p]\<rparr>) = Inr (bs ''hello'', w'\<lparr>mobjs := [0 \<mapsto> p]\<rparr>)"
proof -
  have fits: "msg_fits ex_message" by (simp add: msg_fits_def fits64_def ex_message_def bs_def)
  have w: "0 < length (pending ex_dw)" "pending ex_dw ! 0 = (TReceive 5 7, True)" "(5 :: ptr) \<noteq> null"
    "subs ex_dw 5 = Some ex_sub" "(7 :: ptr) \<noteq> null" "ctxs ex_dw 7 = Some 3"
    "fst (subscribers ex_dw (sb_sub ex_sub)) = [ex_message]" "0 < brk ex_dw" "calls ex_dw = []"
    "nats_message.payload ex_message = bs ''hello''"
    by (simp_all add: ex_message_def)
  from received_message_reads [OF ex_crates_laws w(1-7) fits w(8)] show ?thesis unfolding w(9,10) by auto
qed

end
